(* ===== verification/Prelude.thy ===== *)
theory Prelude
  imports Complex_Main
begin

text \<open>
  What every component of the model shares: the Python exceptions the sources raise, a
  state-and-exception monad with the control structures the sources use (sequencing,
  \<open>try/except\<close>, \<open>try/finally\<close>, \<open>for\<close> over a list), a small Hoare calculus for it, and
  list lemmas. A method of a Python object is a \<open>prog\<close>: it takes the state of the object
  (with everything the object can reach) and returns either a raised exception or a value,
  always together with the state left behind. An exception therefore never hides the
  updates made before it was raised.
\<close>

text \<open>
  Seconds are rational numbers: every finite Python float is one, and the sums, differences
  and comparisons of the sources are taken exactly. Rounding, infinities and NaN are modelled
  only where a configuration file can bring them in.
\<close>

type_synonym seconds = rat

section \<open>Exceptions\<close>

text \<open>
  The exception classes raised or caught under \<open>src/bridgewire\<close>, with their message or
  reason. \<open>OtherError\<close> stands for any other subclass of \<open>Exception\<close> that a driver or the
  operating system may raise.
\<close>

datatype exn =
    RuntimeError string
  | ValueError string
  | ReaderRecordError string
  | AuthorizationError string
  | ConfigurationError string
  | InvalidQueryError string
  | QueryUnavailableError string
  | SnapshotUnavailableError string
  | UnicodeError string
  | CsvError string
  | KeyError string
  | TypeError string
  | OSError string
  | ReaderDisconnectedError string
  | DatabaseError string
  | OtherError string
  | KeyboardInterrupt
  | SystemExit
  | ExceptionGroup string "exn list"

text \<open>
  \<open>except Exception\<close> does not catch \<open>KeyboardInterrupt\<close> and \<open>SystemExit\<close>. A
  \<open>BaseExceptionGroup(...)\<close> is an \<open>ExceptionGroup\<close>, hence an \<open>Exception\<close>, exactly when
  all its members are.
\<close>

fun is_exception :: "exn \<Rightarrow> bool" where
  "is_exception KeyboardInterrupt = False"
| "is_exception SystemExit = False"
| "is_exception (ExceptionGroup m es) = list_all is_exception es"
| "is_exception _ = True"

fun is_os_error :: "exn \<Rightarrow> bool" where
  "is_os_error (OSError _) = True"
| "is_os_error (ReaderDisconnectedError _) = True"
| "is_os_error _ = False"

fun is_reader_disconnected :: "exn \<Rightarrow> bool" where
  "is_reader_disconnected (ReaderDisconnectedError _) = True"
| "is_reader_disconnected _ = False"

text \<open>The subclasses of \<open>ValueError\<close> among the exceptions above.\<close>

fun is_value_error :: "exn \<Rightarrow> bool" where
  "is_value_error (ValueError _) = True"
| "is_value_error (ReaderRecordError _) = True"
| "is_value_error (AuthorizationError _) = True"
| "is_value_error (ConfigurationError _) = True"
| "is_value_error (InvalidQueryError _) = True"
| "is_value_error (UnicodeError _) = True"
| "is_value_error _ = False"

text \<open>A fallible value followed by what is computed from it.\<close>

definition chain :: "exn + 'a \<Rightarrow> ('a \<Rightarrow> exn + 'b) \<Rightarrow> exn + 'b" where
  "chain x f = (case x of Inl e \<Rightarrow> Inl e | Inr v \<Rightarrow> f v)"

lemma chain_simps [simp]: "chain (Inl e) f = Inl e" "chain (Inr v) f = f v"
  by (simp_all add: chain_def)

lemma chain_Inr: "chain x f = Inr r \<longleftrightarrow> (\<exists>v. x = Inr v \<and> f v = Inr r)"
  by (cases x) auto

section \<open>The state-and-exception monad\<close>

type_synonym ('s, 'a) prog = "'s \<Rightarrow> (exn + 'a) \<times> 's"

definition ret :: "'a \<Rightarrow> ('s, 'a) prog" where
  "ret x s = (Inr x, s)"

definition skip :: "('s, unit) prog" where
  "skip s = (Inr (), s)"

definition throw :: "exn \<Rightarrow> ('s, 'a) prog" where
  "throw e s = (Inl e, s)"

definition gets :: "('s \<Rightarrow> 'a) \<Rightarrow> ('s, 'a) prog" where
  "gets f s = (Inr (f s), s)"

definition modify :: "('s \<Rightarrow> 's) \<Rightarrow> ('s, unit) prog" where
  "modify f s = (Inr (), f s)"

definition bnd :: "('s, 'a) prog \<Rightarrow> ('a \<Rightarrow> ('s, 'b) prog) \<Rightarrow> ('s, 'b) prog" where
  "bnd m f s = (case m s of (Inl e, t) \<Rightarrow> (Inl e, t) | (Inr x, t) \<Rightarrow> f x t)"

definition sq :: "('s, 'a) prog \<Rightarrow> ('s, 'b) prog \<Rightarrow> ('s, 'b) prog" where
  "sq m n = bnd m (\<lambda>_. n)"

text \<open>A program that looks at the current state (\<open>self\<close>) to decide what to do.\<close>

definition with_self :: "('s \<Rightarrow> ('s, 'a) prog) \<Rightarrow> ('s, 'a) prog" where
  "with_self f s = f s s"

text \<open>\<open>try: m except C as e: h e\<close>, where \<open>C\<close> says which exceptions are caught.\<close>

definition try_except :: "(exn \<Rightarrow> bool) \<Rightarrow> ('s, 'a) prog \<Rightarrow> (exn \<Rightarrow> ('s, 'a) prog) \<Rightarrow> ('s, 'a) prog"
  where
  "try_except C m h s =
     (case m s of (Inl e, t) \<Rightarrow> (if C e then h e t else (Inl e, t)) | (Inr x, t) \<Rightarrow> (Inr x, t))"

text \<open>\<open>try: m finally: n\<close>: an exception of \<open>n\<close> replaces the outcome of \<open>m\<close>.\<close>

definition try_finally :: "('s, 'a) prog \<Rightarrow> ('s, unit) prog \<Rightarrow> ('s, 'a) prog" where
  "try_finally m n s =
     (case m s of (r, t) \<Rightarrow> (case n t of (Inl e, u) \<Rightarrow> (Inl e, u) | (Inr _, u) \<Rightarrow> (r, u)))"

text \<open>A \<open>for\<close> loop whose body yields nothing, and one that collects the values of its body.\<close>

fun for_each :: "'x list \<Rightarrow> ('x \<Rightarrow> ('s, unit) prog) \<Rightarrow> ('s, unit) prog" where
  "for_each [] body = skip"
| "for_each (x # xs) body = sq (body x) (for_each xs body)"

text \<open>Running a component's program inside the state of the object that owns it.\<close>

definition zoom :: "('s \<Rightarrow> 't) \<Rightarrow> (('t \<Rightarrow> 't) \<Rightarrow> 's \<Rightarrow> 's) \<Rightarrow> ('t, 'a) prog \<Rightarrow> ('s, 'a) prog" where
  "zoom get upd m s = (case m (get s) of (r, t) \<Rightarrow> (r, upd (\<lambda>_. t) s))"

definition result :: "(exn + 'a) \<times> 's \<Rightarrow> exn + 'a" where
  "result = fst"

definition final :: "(exn + 'a) \<times> 's \<Rightarrow> 's" where
  "final = snd"

lemma result_simp [simp]: "result (r, s) = r"
  by (simp add: result_def)

lemma final_simp [simp]: "final (r, s) = s"
  by (simp add: final_def)

lemma sq_assoc: "sq (sq l m) n = sq l (sq m n)"
  by (rule ext) (simp add: sq_def bnd_def split: prod.splits sum.splits)

lemma sq_modify: "sq (modify f) m s = m (f s)"
  by (simp add: sq_def bnd_def modify_def)

named_theorems prog_simps \<open>unfolding the monad on a given state\<close>

lemmas prog_combinator_defs [prog_simps] =
  ret_def skip_def throw_def gets_def modify_def with_self_def bnd_def sq_def try_except_def
  try_finally_def zoom_def

text \<open>A value or an exception that has been computed, as a program.\<close>

definition raise_or_return :: "exn + 'a \<Rightarrow> ('s, 'a) prog" where
  "raise_or_return x = (case x of Inl e \<Rightarrow> throw e | Inr v \<Rightarrow> ret v)"

section \<open>Symbolic runs\<close>

text \<open>
  \<open>simp add: run_simps cong: run_congs\<close> runs a program on a concrete state: the congruence
  rules evaluate the state and leave the program alone until it is applied, so that only the
  branch that is taken is ever unfolded, and whatever the run does not look at stays symbolic.
\<close>

named_theorems run_simps \<open>unfolding the operations of the model where they are applied\<close>
named_theorems run_congs \<open>evaluating the state and not the program\<close>

declare prog_combinator_defs [run_simps] Let_def [run_simps]

lemma lazy_programs [run_congs]:
  fixes s t :: 's
  assumes "s = t"
  shows "ret x s = ret x t" "throw e s = throw e t" "gets f s = gets f t"
    "modify u s = modify u t" "bnd m g s = bnd m g t" "sq m n s = sq m n t"
    "with_self h s = with_self h t" "try_except C m k s = try_except C m k t"
    "try_finally m c s = try_finally m c t" "zoom get upd z s = zoom get upd z t"
  using assms by simp_all

text \<open>A run split into its result and the state it leaves.\<close>

lemma run_pair: "p = (result p, final p)"
  by (simp add: result_def final_def)

section \<open>Hoare triples\<close>

text \<open>
  \<open>triple P m Q E\<close>: from a state with \<open>P\<close>, if \<open>m\<close> returns \<open>x\<close> the state left behind
  satisfies \<open>Q x\<close>, and if it raises \<open>e\<close> it satisfies \<open>E e\<close>. Every \<open>prog\<close> is total, so
  nothing is said to be undefined.
\<close>

definition triple ::
  "('s \<Rightarrow> bool) \<Rightarrow> ('s, 'a) prog \<Rightarrow> ('a \<Rightarrow> 's \<Rightarrow> bool) \<Rightarrow> (exn \<Rightarrow> 's \<Rightarrow> bool) \<Rightarrow> bool" where
  "triple P m Q E \<longleftrightarrow>
     (\<forall>s. P s \<longrightarrow> (case m s of (Inl e, t) \<Rightarrow> E e t | (Inr x, t) \<Rightarrow> Q x t))"

text \<open>An invariant kept on the normal and on the exceptional exit.\<close>

definition keeps :: "('s \<Rightarrow> bool) \<Rightarrow> ('s, 'a) prog \<Rightarrow> bool" where
  "keeps I m \<longleftrightarrow> (\<forall>s. I s \<longrightarrow> I (final (m s)))"

named_theorems keeps_rules \<open>compositional rules for kept invariants\<close>

lemma keepsI: "(\<And>s r t. I s \<Longrightarrow> m s = (r, t) \<Longrightarrow> I t) \<Longrightarrow> keeps I m"
  unfolding keeps_def final_def by (metis prod.collapse)

lemma keepsD: "keeps I m \<Longrightarrow> m s = (r, t) \<Longrightarrow> I s \<Longrightarrow> I t"
  unfolding keeps_def final_def by (metis snd_conv)

lemma keeps_ret [keeps_rules]: "keeps I (ret x)"
  by (simp add: keeps_def ret_def)

lemma keeps_skip [keeps_rules]: "keeps I skip"
  by (simp add: keeps_def skip_def)

lemma keeps_throw [keeps_rules]: "keeps I (throw e)"
  by (simp add: keeps_def throw_def)

lemma keeps_gets [keeps_rules]: "keeps I (gets f)"
  by (simp add: keeps_def gets_def)

lemma keeps_modify [keeps_rules]: "(\<And>s. I s \<Longrightarrow> I (f s)) \<Longrightarrow> keeps I (modify f)"
  by (simp add: keeps_def modify_def)

lemma keeps_bnd [keeps_rules]: "keeps I m \<Longrightarrow> (\<And>x. keeps I (f x)) \<Longrightarrow> keeps I (bnd m f)"
  unfolding keeps_def bnd_def final_def by (fastforce split: prod.splits sum.splits)

lemma keeps_sq [keeps_rules]: "keeps I m \<Longrightarrow> keeps I n \<Longrightarrow> keeps I (sq m n)"
  unfolding sq_def by (rule keeps_bnd)

lemma keeps_with_self [keeps_rules]:
  "(\<And>s. I s \<Longrightarrow> keeps I (f s)) \<Longrightarrow> keeps I (with_self f)"
  by (simp add: keeps_def with_self_def)

lemma keeps_if [keeps_rules]: "(b \<Longrightarrow> keeps I m) \<Longrightarrow> (\<not> b \<Longrightarrow> keeps I n) \<Longrightarrow> keeps I (if b then m else n)"
  by simp

lemma keeps_option [keeps_rules]:
  "(x = None \<Longrightarrow> keeps I m) \<Longrightarrow> (\<And>y. x = Some y \<Longrightarrow> keeps I (f y)) \<Longrightarrow>
   keeps I (case x of None \<Rightarrow> m | Some y \<Rightarrow> f y)"
  by (cases x) auto

lemma keeps_sum [keeps_rules]:
  "(\<And>e. x = Inl e \<Longrightarrow> keeps I (f e)) \<Longrightarrow> (\<And>y. x = Inr y \<Longrightarrow> keeps I (g y)) \<Longrightarrow>
   keeps I (case x of Inl e \<Rightarrow> f e | Inr y \<Rightarrow> g y)"
  by (cases x) auto

lemma keeps_try_except [keeps_rules]:
  "keeps I m \<Longrightarrow> (\<And>e. keeps I (h e)) \<Longrightarrow> keeps I (try_except C m h)"
  unfolding keeps_def try_except_def final_def by (fastforce split: prod.splits sum.splits)

lemma keeps_try_finally [keeps_rules]:
  "keeps I m \<Longrightarrow> keeps I n \<Longrightarrow> keeps I (try_finally m n)"
  unfolding keeps_def try_finally_def final_def by (fastforce split: prod.splits sum.splits)

lemma keeps_for_each [keeps_rules]: "(\<And>x. keeps I (body x)) \<Longrightarrow> keeps I (for_each xs body)"
  by (induction xs) (auto intro: keeps_rules)

lemma keeps_zoom:
  "(\<And>s. I s \<Longrightarrow> J (get s)) \<Longrightarrow> keeps J m \<Longrightarrow> (\<And>s t. I s \<Longrightarrow> J t \<Longrightarrow> I (upd (\<lambda>_. t) s)) \<Longrightarrow>
   keeps I (zoom get upd m)"
  unfolding keeps_def zoom_def final_def by (fastforce split: prod.splits)

lemma keeps_conj: "keeps I m \<Longrightarrow> keeps J m \<Longrightarrow> keeps (\<lambda>s. I s \<and> J s) m"
  by (simp add: keeps_def)

text \<open>A part of the state that a program leaves as it was, whether it returns or raises.\<close>

definition preserves :: "('s \<Rightarrow> 'v) \<Rightarrow> ('s, 'a) prog \<Rightarrow> bool" where
  "preserves f m \<longleftrightarrow> (\<forall>s. f (final (m s)) = f s)"

lemma preserves_keeps: "preserves f m \<longleftrightarrow> (\<forall>v. keeps (\<lambda>s. f s = v) m)"
  by (simp add: preserves_def keeps_def)

lemma preservesI: "(\<And>s r t. m s = (r, t) \<Longrightarrow> f t = f s) \<Longrightarrow> preserves f m"
  unfolding preserves_def final_def by (metis prod.collapse)

lemma preservesD: "preserves f m \<Longrightarrow> m s = (r, t) \<Longrightarrow> f t = f s"
  unfolding preserves_def final_def by (metis snd_conv)

text \<open>An invariant that depends on preserved parts only is kept.\<close>

lemma preserves_keepsI:
  assumes "preserves f m" and "\<And>s t. f s = f t \<Longrightarrow> I s \<Longrightarrow> I t"
  shows "keeps I m"
proof (rule keepsI)
  fix s r t assume "I s" and "m s = (r, t)"
  then show "I t" using assms(2) [of s t] preservesD [OF assms(1)] by simp
qed

lemma preserves_keeps_part: "preserves f m \<Longrightarrow> keeps (\<lambda>s. Q (f s)) m"
  by (simp add: preserves_def keeps_def)

lemma preserves_zoom:
  "(\<And>s t. f (upd (\<lambda>_. t) s) = f s) \<Longrightarrow> preserves f (zoom get upd m)"
  by (rule preservesI) (auto simp: zoom_def split: prod.splits)

lemma preserves_zoom_part:
  "preserves g m \<Longrightarrow> (\<And>s t. g t = g (get s) \<Longrightarrow> f (upd (\<lambda>_. t) s) = f s) \<Longrightarrow>
   preserves f (zoom get upd m)"
  by (rule preservesI) (auto simp: zoom_def dest: preservesD split: prod.splits)

named_theorems preserves_rules \<open>compositional rules for preserved parts\<close>

lemma preserves_ret [preserves_rules]: "preserves f (ret x)"
  by (simp add: preserves_def ret_def)

lemma preserves_skip [preserves_rules]: "preserves f skip"
  by (simp add: preserves_def skip_def)

lemma preserves_throw [preserves_rules]: "preserves f (throw e)"
  by (simp add: preserves_def throw_def)

lemma preserves_gets [preserves_rules]: "preserves f (gets g)"
  by (simp add: preserves_def gets_def)

lemma preserves_modify [preserves_rules]: "(\<And>s. f (g s) = f s) \<Longrightarrow> preserves f (modify g)"
  by (simp add: preserves_def modify_def)

lemma preserves_bnd [preserves_rules]:
  "preserves f m \<Longrightarrow> (\<And>x. preserves f (n x)) \<Longrightarrow> preserves f (bnd m n)"
  by (simp add: preserves_keeps keeps_bnd)

lemma preserves_sq [preserves_rules]: "preserves f m \<Longrightarrow> preserves f n \<Longrightarrow> preserves f (sq m n)"
  by (simp add: preserves_keeps keeps_sq)

lemma preserves_with_self [preserves_rules]:
  "(\<And>s. preserves f (n s)) \<Longrightarrow> preserves f (with_self n)"
  by (simp add: preserves_def with_self_def)

lemma preserves_if [preserves_rules]:
  "(b \<Longrightarrow> preserves f m) \<Longrightarrow> (\<not> b \<Longrightarrow> preserves f n) \<Longrightarrow> preserves f (if b then m else n)"
  by simp

lemma preserves_option [preserves_rules]:
  "(x = None \<Longrightarrow> preserves f m) \<Longrightarrow> (\<And>y. x = Some y \<Longrightarrow> preserves f (n y)) \<Longrightarrow>
   preserves f (case x of None \<Rightarrow> m | Some y \<Rightarrow> n y)"
  by (cases x) auto

lemma preserves_sum [preserves_rules]:
  "(\<And>e. x = Inl e \<Longrightarrow> preserves f (m e)) \<Longrightarrow> (\<And>y. x = Inr y \<Longrightarrow> preserves f (n y)) \<Longrightarrow>
   preserves f (case x of Inl e \<Rightarrow> m e | Inr y \<Rightarrow> n y)"
  by (cases x) auto

lemma preserves_try_except [preserves_rules]:
  "preserves f m \<Longrightarrow> (\<And>e. preserves f (h e)) \<Longrightarrow> preserves f (try_except C m h)"
  by (simp add: preserves_keeps keeps_try_except)

lemma preserves_try_finally [preserves_rules]:
  "preserves f m \<Longrightarrow> preserves f n \<Longrightarrow> preserves f (try_finally m n)"
  by (simp add: preserves_keeps keeps_try_finally)

lemma preserves_for_each [preserves_rules]:
  "(\<And>x. preserves f (body x)) \<Longrightarrow> preserves f (for_each xs body)"
  by (simp add: preserves_keeps keeps_for_each)

lemma preserves_raise_or_return [preserves_rules]: "preserves f (raise_or_return x)"
  unfolding raise_or_return_def by (intro preserves_rules)

named_theorems triple_rules \<open>compositional rules for triples\<close>

lemma tripleI:
  "(\<And>s x t. P s \<Longrightarrow> m s = (Inr x, t) \<Longrightarrow> Q x t) \<Longrightarrow>
   (\<And>s e t. P s \<Longrightarrow> m s = (Inl e, t) \<Longrightarrow> E e t) \<Longrightarrow> triple P m Q E"
  unfolding triple_def by (auto split: prod.splits sum.splits)

lemma triple_returns: "triple P m Q E \<Longrightarrow> P s \<Longrightarrow> m s = (Inr x, t) \<Longrightarrow> Q x t"
  unfolding triple_def by (fastforce split: prod.splits sum.splits)

lemma triple_raises: "triple P m Q E \<Longrightarrow> P s \<Longrightarrow> m s = (Inl e, t) \<Longrightarrow> E e t"
  unfolding triple_def by (fastforce split: prod.splits sum.splits)

lemma triple_bnd:
  "triple P m R E \<Longrightarrow> (\<And>x. triple (R x) (f x) Q E) \<Longrightarrow> triple P (bnd m f) Q E"
  unfolding triple_def bnd_def by (fastforce split: prod.splits sum.splits)

lemma triple_sq: "triple P m (\<lambda>_. R) E \<Longrightarrow> triple R n Q E \<Longrightarrow> triple P (sq m n) Q E"
  unfolding sq_def by (rule triple_bnd)

lemma triple_conseq:
  "triple P m Q E \<Longrightarrow> (\<And>s. P' s \<Longrightarrow> P s) \<Longrightarrow> (\<And>x s. Q x s \<Longrightarrow> Q' x s) \<Longrightarrow>
   (\<And>e s. E e s \<Longrightarrow> E' e s) \<Longrightarrow> triple P' m Q' E'"
  unfolding triple_def by (fastforce split: prod.splits sum.splits)

lemma triple_try_except:
  assumes m: "triple P m Q F" and h: "\<And>e. C e \<Longrightarrow> triple (F e) (h e) Q E"
    and E: "\<And>e s. \<not> C e \<Longrightarrow> F e s \<Longrightarrow> E e s"
  shows "triple P (try_except C m h) Q E"
proof (rule tripleI)
  fix s x t
  assume "P s" and "try_except C m h s = (Inr x, t)"
  then show "Q x t"
    using triple_returns [OF m] triple_raises [OF m] triple_returns [OF h]
    by (fastforce simp: try_except_def split: prod.splits sum.splits if_splits)
next
  fix s e t
  assume "P s" and "try_except C m h s = (Inl e, t)"
  then show "E e t"
    using triple_raises [OF m] triple_raises [OF h] E
    by (fastforce simp: try_except_def split: prod.splits sum.splits if_splits)
qed

lemma triple_keeps: "keeps I m \<Longrightarrow> triple I m (\<lambda>_. I) (\<lambda>_. I)"
  by (rule tripleI) (auto dest: keepsD)

lemma triple_ret [triple_rules]: "(\<And>s. P s \<Longrightarrow> Q x s) \<Longrightarrow> triple P (ret x) Q E"
  by (simp add: triple_def ret_def)

lemma triple_skip [triple_rules]: "(\<And>s. P s \<Longrightarrow> Q () s) \<Longrightarrow> triple P skip Q E"
  by (simp add: triple_def skip_def)

lemma triple_throw [triple_rules]: "(\<And>s. P s \<Longrightarrow> E e s) \<Longrightarrow> triple P (throw e) Q E"
  by (simp add: triple_def throw_def)

lemma triple_modify [triple_rules]: "(\<And>s. P s \<Longrightarrow> Q () (f s)) \<Longrightarrow> triple P (modify f) Q E"
  by (simp add: triple_def modify_def)

lemma triple_with_self:
  "(\<And>s. P s \<Longrightarrow> triple (\<lambda>t. t = s \<and> P t) (f s) Q E) \<Longrightarrow> triple P (with_self f) Q E"
  by (simp add: triple_def with_self_def)

lemma triple_if [triple_rules]:
  "(b \<Longrightarrow> triple P m Q E) \<Longrightarrow> (\<not> b \<Longrightarrow> triple P n Q E) \<Longrightarrow> triple P (if b then m else n) Q E"
  by simp

lemma triple_option [triple_rules]:
  "(x = None \<Longrightarrow> triple P m Q E) \<Longrightarrow> (\<And>y. x = Some y \<Longrightarrow> triple P (f y) Q E) \<Longrightarrow>
   triple P (case x of None \<Rightarrow> m | Some y \<Rightarrow> f y) Q E"
  by (cases x) auto

lemma triple_pre: "triple P m Q E \<Longrightarrow> (\<And>s. P' s \<Longrightarrow> P s) \<Longrightarrow> triple P' m Q E"
  unfolding triple_def by (fastforce split: prod.splits sum.splits)

lemma triple_and:
  "triple P m Q E \<Longrightarrow> triple P' m Q' E' \<Longrightarrow>
   triple (\<lambda>s. P s \<and> P' s) m (\<lambda>x s. Q x s \<and> Q' x s) (\<lambda>e s. E e s \<and> E' e s)"
  unfolding triple_def by (fastforce split: prod.splits sum.splits)

text \<open>The value bound in a sequence may be known to satisfy \<open>Q\<close>.\<close>

lemma keeps_bnd_value:
  assumes "triple I m (\<lambda>x s. I s \<and> Q x) (\<lambda>e. I)" and "\<And>x. Q x \<Longrightarrow> keeps I (f x)"
  shows "keeps I (bnd m f)"
proof (rule keepsI)
  fix s r t assume I: "I s" and run: "bnd m f s = (r, t)"
  show "I t"
  proof (cases "m s")
    case (Pair y u)
    show ?thesis
    proof (cases y)
      case (Inl e)
      then show ?thesis using triple_raises [OF assms(1) I] run Pair by (simp add: bnd_def)
    next
      case (Inr x)
      then have "I u \<and> Q x" using triple_returns [OF assms(1) I] Pair by simp
      moreover have "f x u = (r, t)" using run Pair Inr by (simp add: bnd_def)
      ultimately show ?thesis using keepsD [OF assms(2)] by blast
    qed
  qed
qed

lemma keeps_sq_return:
  assumes "triple P m (\<lambda>x. I) (\<lambda>e. I)" and "keeps I n"
  shows "triple P (sq m n) (\<lambda>x. I) (\<lambda>e. I)"
  by (rule triple_sq [OF assms(1)]) (rule triple_keeps [OF assms(2)])

section \<open>Replacing a file\<close>

text \<open>
  How the program replaces a file as a whole: create a temporary sibling, write and flush it, fsync,
  replace; the \<open>finally\<close> clause removes the sibling unless it has become the file. \<open>call\<close> is a call
  of the operating system, \<open>siblings\<close> changes the number of temporary files, and \<open>install\<close> puts the
  new content in place.
\<close>

definition replace_staged ::
  "('s, unit) prog \<Rightarrow> ((nat \<Rightarrow> nat) \<Rightarrow> 's \<Rightarrow> 's) \<Rightarrow> ('s \<Rightarrow> 's) \<Rightarrow> ('s, unit) prog" where
  "replace_staged call siblings install =
     sq call
    (sq (modify (siblings Suc))
        (try_except (\<lambda>_. True)
          (sq call
          (sq call
          (sq call
            (modify (\<lambda>s. siblings (\<lambda>n. n - 1) (install s))))))
          (\<lambda>e. sq call
              (sq (modify (siblings (\<lambda>n. n - 1))) (throw e)))))"

text \<open>
  With \<open>V k\<close> for the old content and \<open>k\<close> siblings: whichever call fails, the content is the old one,
  and at most one sibling stays behind.
\<close>

lemma triple_replace_staged:
  assumes call: "\<And>k. keeps (V k) call"
    and more: "\<And>s. V n s \<Longrightarrow> V (Suc n) (siblings Suc s)"
    and fewer: "\<And>s. V (Suc n) s \<Longrightarrow> V n (siblings (\<lambda>n. n - 1) s)"
    and new: "\<And>s. V (Suc n) s \<Longrightarrow> W (siblings (\<lambda>n. n - 1) (install s))"
  shows "triple (V n) (replace_staged call siblings install) (\<lambda>_. W) (\<lambda>_ s. V n s \<or> V (Suc n) s)"
proof -
  let ?E = "\<lambda>s. V n s \<or> V (Suc n) s"
  have left: "triple (V k) call (\<lambda>_. V k) (\<lambda>_. ?E)" if "k = n \<or> k = Suc n" for k
    by (rule triple_conseq [OF triple_keeps [OF call [of k]]]) (use that in auto)
  have body: "triple (V (Suc n))
      (sq call (sq call (sq call (modify (\<lambda>s. siblings (\<lambda>n. n - 1) (install s))))))
      (\<lambda>_. W) (\<lambda>_. V (Suc n))"
    by (intro triple_sq [OF triple_keeps [OF call]] triple_modify new)
  have undo: "triple (V (Suc n)) (sq call (sq (modify (siblings (\<lambda>n. n - 1))) (throw e)))
      (\<lambda>_. W) (\<lambda>_. ?E)" for e
    by (intro triple_sq [OF left] triple_sq [OF triple_modify [where Q = "\<lambda>_. V n"]] triple_throw)
      (use fewer in auto)
  show ?thesis
    unfolding replace_staged_def
    by (intro triple_sq [OF left] triple_sq [OF triple_modify [where Q = "\<lambda>_. V (Suc n)"]]
        triple_try_except [OF body undo]) (simp_all add: more)
qed

section \<open>Lists\<close>

lemma filter_dropWhile_neg [simp]:
  "filter P (dropWhile (\<lambda>x. \<not> P x) xs) = filter P xs"
  by (induction xs) auto

lemma sorted_dropWhile_eq_filter:
  fixes xs :: "'a::linorder list"
  shows "sorted xs \<Longrightarrow> dropWhile (\<lambda>x. x < b) xs = filter (\<lambda>x. b \<le> x) xs"
proof (induction xs)
  case (Cons x xs)
  then show ?case
    by (cases "x < b") (auto intro!: filter_True [symmetric])
qed simp

lemma map_of_Some_mem: "map_of ps k = Some v \<Longrightarrow> (k, v) \<in> set ps"
  by (rule map_of_SomeD)

section \<open>Decimal numbers\<close>

text \<open>\<open>str(n)\<close> of a natural number.\<close>

fun decimal :: "nat \<Rightarrow> string" where
  "decimal n = (if n < 10 then [] else decimal (n div 10)) @ [char_of (48 + n mod 10)]"

end
