(* ===== verification/Reader_Records.thy ===== *)
theory Reader_Records
  imports Prelude "HOL-Library.Word"
begin

text \<open>
  The ID-20LA wire format: \<open>parse_reader_record\<close> and \<open>parse_credential_identifier\<close> of
  \<open>reader.py\<close> and the frame builder \<open>build_record\<close> of \<open>simulation.py\<close>. A Python \<open>bytes\<close> is a list of 8-bit words, a
  \<open>str\<close> a list of characters, an \<open>int\<close> an \<open>int\<close>. The lemmas show that parser and
  builder are inverse to each other on the valid frames, and that a damaged byte is always
  noticed.
\<close>

unbundle bit_operations_syntax

section \<open>Standard library: strings, bytes, int(s, 16)\<close>

type_synonym byte = "8 word"

definition byte_of_char :: "char \<Rightarrow> byte" where
  "byte_of_char c = of_nat (of_char c)"

definition char_of_byte :: "byte \<Rightarrow> char" where
  "char_of_byte b = char_of (unat b)"

definition char_code :: "char \<Rightarrow> int" where
  "char_code c = int (of_char c)"

text \<open>\<open>bytes.decode("ascii", errors="strict")\<close> and \<open>str.encode("ascii")\<close>.\<close>

definition decode_ascii :: "byte list \<Rightarrow> exn + string" where
  "decode_ascii bs =
     (if list_all (\<lambda>b. unat b < 128) bs then Inr (map char_of_byte bs)
      else Inl (UnicodeError ''ascii codec cannot decode''))"

definition encode_ascii :: "string \<Rightarrow> exn + byte list" where
  "encode_ascii s =
     (if list_all (\<lambda>c. char_code c < 128) s then Inr (map byte_of_char s)
      else Inl (UnicodeError ''ascii codec cannot encode''))"

definition hex_digits :: string where
  "hex_digits = ''0123456789ABCDEF''"

text \<open>
  \<open>int(s, 16)\<close>: surrounding white space, a sign, an optional \<open>0x\<close> prefix (with an
  underscore after it), then digits with single underscores between them. \<open>None\<close> is the
  \<open>ValueError\<close>.
\<close>

definition digit_value :: "char \<Rightarrow> int option" where
  "digit_value c =
     (let n = char_code c
      in if 48 \<le> n \<and> n \<le> 57 then Some (n - 48)
         else if 65 \<le> n \<and> n \<le> 70 then Some (n - 55)
         else if 97 \<le> n \<and> n \<le> 102 then Some (n - 87)
         else None)"

definition is_space :: "char \<Rightarrow> bool" where
  "is_space c =
     (let n = char_code c
      in 9 \<le> n \<and> n \<le> 13 \<or> 28 \<le> n \<and> n \<le> 32 \<or> n = 133 \<or> n = 160)"

definition strip :: "string \<Rightarrow> string" where
  "strip s = rev (dropWhile is_space (rev (dropWhile is_space s)))"

fun read_digits :: "int \<Rightarrow> bool \<Rightarrow> string \<Rightarrow> int option" where
  "read_digits acc after_digit [] = (if after_digit then Some acc else None)"
| "read_digits acc after_digit (c # cs) =
     (if c = CHR ''_'' then (if after_digit then read_digits acc False cs else None)
      else (case digit_value c of
              None \<Rightarrow> None
            | Some d \<Rightarrow> read_digits (16 * acc + d) True cs))"

fun read_unsigned :: "string \<Rightarrow> int option" where
  "read_unsigned (z # x # cs) =
     (if z = CHR ''0'' \<and> (x = CHR ''x'' \<or> x = CHR ''X'')
      then (case cs of
              [] \<Rightarrow> None
            | u # us \<Rightarrow> read_digits 0 False (if u = CHR ''_'' then us else cs))
      else read_digits 0 False (z # x # cs))"
| "read_unsigned cs = read_digits 0 False cs"

fun read_signed :: "string \<Rightarrow> int option" where
  "read_signed [] = None"
| "read_signed (c # cs) =
     (if c = CHR ''-'' then map_option uminus (read_unsigned cs)
      else if c = CHR ''+'' then read_unsigned cs
      else read_unsigned (c # cs))"

definition int16 :: "string \<Rightarrow> int option" where
  "int16 s = read_signed (strip s)"

text \<open>\<open>f"{n:02X}"\<close>: upper-case hexadecimal, padded with zeros to two characters.\<close>

fun hex_char :: "nat \<Rightarrow> char" where
  "hex_char d = hex_digits ! (d mod 16)"

fun hex_string :: "nat \<Rightarrow> string" where
  "hex_string n = (if n < 16 then [hex_char n] else hex_string (n div 16) @ [hex_char n])"

declare hex_string.simps [simp del]

definition format_02X :: "int \<Rightarrow> string" where
  "format_02X n =
     (if n < 0 then CHR ''-'' # hex_string (nat (- n))
      else let s = hex_string (nat n) in replicate (2 - length s) CHR ''0'' @ s)"

section \<open>Records\<close>

definition STX :: byte where "STX = 0x02"
definition ETX :: byte where "ETX = 0x03"
definition RECORD_LENGTH :: nat where "RECORD_LENGTH = 16"
definition CRLF :: "byte list" where "CRLF = [13, 10]"

datatype record_result = ParsedRecord (credential: string) | MalformedRecord (reason: string)

fun is_malformed :: "record_result \<Rightarrow> bool" where
  "is_malformed (MalformedRecord _) = True"
| "is_malformed (ParsedRecord _) = False"

definition parse_credential_identifier :: "string \<Rightarrow> exn + record_result" where
  "parse_credential_identifier cred =
     (if length cred \<noteq> 10 \<or> list_ex (\<lambda>c. c \<notin> set hex_digits) cred
      then Inl (ReaderRecordError ''invalid_identifier'')
      else Inr (ParsedRecord cred))"

text \<open>
  The checksum loop, which \<open>parse_reader_record\<close> and \<open>build_record\<close> write in the same
  way: \<open>for offset in range(0, len(data), 2): checksum ^= int(data[offset:offset+2], 16)\<close>.
\<close>

fun checksum_loop :: "int \<Rightarrow> string \<Rightarrow> int option" where
  "checksum_loop acc [] = Some acc"
| "checksum_loop acc [a] = map_option (\<lambda>v. acc XOR v) (int16 [a])"
| "checksum_loop acc (a # b # rest) =
     (case int16 [a, b] of None \<Rightarrow> None | Some v \<Rightarrow> checksum_loop (acc XOR v) rest)"

definition parse_reader_record :: "byte list \<Rightarrow> exn + record_result" where
  "parse_reader_record record =
     (if length record \<noteq> RECORD_LENGTH then Inl (ReaderRecordError ''invalid_length'')
      else if hd record \<noteq> STX \<or> last record \<noteq> ETX
      then Inl (ReaderRecordError ''invalid_framing'')
      else if take 2 (drop 13 record) \<noteq> CRLF
      then Inl (ReaderRecordError ''invalid_terminator'')
      else (case (decode_ascii (take 10 (drop 1 record)), decode_ascii (take 2 (drop 11 record))) of
              (Inr data, Inr checksum_text) \<Rightarrow>
                (case parse_credential_identifier data of
                   Inl e \<Rightarrow> Inl e
                 | Inr parsed \<Rightarrow>
                     if length checksum_text \<noteq> 2 \<or>
                        list_ex (\<lambda>c. c \<notin> set hex_digits) checksum_text
                     then Inl (ReaderRecordError ''invalid_checksum_encoding'')
                     else (case (checksum_loop 0 data, int16 checksum_text) of
                             (Some checksum, Some expected) \<Rightarrow>
                               if checksum \<noteq> expected
                               then Inl (ReaderRecordError ''checksum_mismatch'')
                               else Inr parsed
                           | _ \<Rightarrow> Inl (ValueError ''invalid literal for int()'')))
            | _ \<Rightarrow> Inl (ReaderRecordError ''invalid_encoding'')))"

definition build_record :: "string \<Rightarrow> exn + byte list" where
  "build_record cred =
     (case checksum_loop 0 cred of
        None \<Rightarrow> Inl (ValueError ''invalid literal for int()'')
      | Some checksum \<Rightarrow>
          (case encode_ascii cred of
             Inl e \<Rightarrow> Inl e
           | Inr body \<Rightarrow>
               Inr ([STX] @ body @ map byte_of_char (format_02X checksum) @ CRLF @ [ETX])))"

section \<open>Hexadecimal digits\<close>

lemma length_hex_digits [simp]: "length hex_digits = 16"
  by (simp add: hex_digits_def)

lemma hex_digits_conv: "c \<in> set hex_digits \<longleftrightarrow> (\<exists>d<16. c = hex_char d)"
proof
  assume "c \<in> set hex_digits"
  then obtain d where "d < length hex_digits" and "c = hex_digits ! d"
    by (auto simp: in_set_conv_nth)
  then have "d < 16 \<and> c = hex_char d" by simp
  then show "\<exists>d<16. c = hex_char d" by blast
next
  assume "\<exists>d<16. c = hex_char d"
  then obtain d where "d < length hex_digits" and "c = hex_digits ! d"
    by auto
  then show "c \<in> set hex_digits" by simp
qed

lemma hex_char_digit: "d < 16 \<Longrightarrow> hex_char d \<in> set hex_digits"
  by (auto simp: hex_digits_conv simp del: hex_char.simps)

lemma digit_cases:
  fixes d :: nat
  assumes "d < 16"
  obtains "d = 0" | "d = 1" | "d = 2" | "d = 3" | "d = 4" | "d = 5" | "d = 6" | "d = 7"
    | "d = 8" | "d = 9" | "d = 10" | "d = 11" | "d = 12" | "d = 13" | "d = 14" | "d = 15"
proof -
  from assms have "d \<in> {0..<16}" by simp
  also have "{0..<16} = {0, 1, 2, 3, 4, 5, 6, 7, 8, 9, 10, 11, 12, 13, 14, 15 :: nat}"
    by (simp add: atLeastLessThan_nat_numeral atLeast0LessThan lessThan_nat_numeral) auto
  finally show thesis using that by fast
qed

lemma digit_value_hex_char: "d < 16 \<Longrightarrow> digit_value (hex_char d) = Some (int d)"
  by (erule digit_cases) (simp_all add: digit_value_def char_code_def hex_digits_def)

lemma hex_char_inj: "a < 16 \<Longrightarrow> b < 16 \<Longrightarrow> hex_char a = hex_char b \<Longrightarrow> a = b"
  by (metis digit_value_hex_char of_nat_eq_iff option.inject)

lemma hex_char_code:
  "d < 16 \<Longrightarrow> 48 \<le> char_code (hex_char d) \<and> char_code (hex_char d) \<le> 70"
  by (erule digit_cases) (simp_all add: char_code_def hex_digits_def)

lemma hex_char_plain:
  assumes "d < 16"
  shows "\<not> is_space (hex_char d)" and "hex_char d \<noteq> CHR ''_''" and "hex_char d \<noteq> CHR ''x''"
    and "hex_char d \<noteq> CHR ''X''" and "hex_char d \<noteq> CHR ''-''" and "hex_char d \<noteq> CHR ''+''"
  using assms
  by (auto elim!: digit_cases simp: is_space_def char_code_def hex_digits_def)

declare hex_char.simps [simp del]

lemma int16_hex2:
  "a < 16 \<Longrightarrow> b < 16 \<Longrightarrow> int16 [hex_char a, hex_char b] = Some (int (16 * a + b))"
  by (simp add: int16_def strip_def hex_char_plain digit_value_hex_char)

lemma hex_string_two: "n < 256 \<Longrightarrow> 16 \<le> n \<Longrightarrow> hex_string n = [hex_char (n div 16), hex_char n]"
  by (simp add: hex_string.simps [of n] hex_string.simps [of "n div 16"] less_mult_imp_div_less)

lemma hex_char_mod: "hex_char (d mod 16) = hex_char d"
  by (simp add: hex_char.simps)

lemma format_02X_byte:
  "n < 256 \<Longrightarrow> format_02X (int n) = [hex_char (n div 16), hex_char (n mod 16)]"
proof (cases "n < 16")
  case True
  have "hex_char 0 = CHR ''0''" by (simp add: hex_char.simps hex_digits_def)
  with True show ?thesis
    by (simp add: format_02X_def hex_string.simps [of n])
next
  case False
  assume "n < 256"
  with False show ?thesis
    by (simp add: format_02X_def hex_string_two hex_char_mod)
qed

section \<open>Bytes and characters\<close>

lemma char_of_byte_inverse [simp]: "byte_of_char (char_of_byte b) = b"
proof -
  have "unat b < 2 ^ LENGTH(8)" by (rule unsigned_less)
  then have "unat b < 256" by simp
  then show ?thesis
    by (simp add: byte_of_char_def char_of_byte_def)
qed

lemma byte_of_char_inverse [simp]: "char_of_byte (byte_of_char c) = c"
proof -
  have "(of_char c :: nat) < 256" by simp
  then have "unat (of_nat (of_char c) :: byte) = (of_char c :: nat)"
    by (simp add: unat_of_nat)
  then show ?thesis
    by (simp add: byte_of_char_def char_of_byte_def)
qed


lemma decode_ascii_Inr: "decode_ascii bs = Inr s \<Longrightarrow> bs = map byte_of_char s"
  by (auto simp: decode_ascii_def comp_def split: if_splits)

lemma hex_char_ascii: "c \<in> set hex_digits \<Longrightarrow> 0 \<le> char_code c \<and> char_code c < 128"
  using hex_char_code by (fastforce simp: hex_digits_conv)

lemma unat_byte_of_char: "int (unat (byte_of_char c)) = char_code c"
proof -
  have "(of_char c :: nat) < 256" by simp
  then have "unat (byte_of_char c) = of_char c"
    by (simp add: byte_of_char_def unat_of_nat)
  then show ?thesis by (simp add: char_code_def)
qed

lemma decode_ascii_hex: "set s \<subseteq> set hex_digits \<Longrightarrow> decode_ascii (map byte_of_char s) = Inr s"
proof -
  assume s: "set s \<subseteq> set hex_digits"
  have "unat (byte_of_char c) < 128" if "c \<in> set s" for c
  proof -
    have "char_code c < int 128" using that s hex_char_ascii by auto
    then show ?thesis by (simp only: unat_byte_of_char [symmetric] of_nat_less_iff)
  qed
  then show ?thesis
    by (auto simp: decode_ascii_def list_all_iff comp_def)
qed

lemma encode_ascii_hex: "set s \<subseteq> set hex_digits \<Longrightarrow> encode_ascii s = Inr (map byte_of_char s)"
  using hex_char_ascii by (auto simp: encode_ascii_def list_all_iff)

section \<open>Checksums\<close>

lemma xor_byte_bounds:
  fixes x y :: int
  assumes "0 \<le> x" "x < 256" "0 \<le> y" "y < 256"
  shows "0 \<le> x XOR y \<and> x XOR y < 256"
  using assms XOR_upper [of x 8 y] by simp

lemma int16_hex2_set:
  assumes "a \<in> set hex_digits" "b \<in> set hex_digits"
  shows "\<exists>v. int16 [a, b] = Some v \<and> 0 \<le> v \<and> v < 256"
  using assms by (auto simp: hex_digits_conv int16_hex2)

lemma checksum_loop_hex:
  assumes "set s \<subseteq> set hex_digits" "even (length s)" "0 \<le> acc" "acc < 256"
  shows "\<exists>v. checksum_loop acc s = Some v \<and> 0 \<le> v \<and> v < 256"
  using assms
proof (induction acc s rule: checksum_loop.induct)
  case (3 acc a b rest)
  obtain w where "int16 [a, b] = Some w" "0 \<le> w" "w < 256"
    using int16_hex2_set [of a b] "3.prems" by auto
  moreover from this have "0 \<le> acc XOR w \<and> acc XOR w < 256"
    using xor_byte_bounds "3.prems" by blast
  ultimately show ?case using "3.IH" "3.prems" by simp
qed auto

section \<open>The parser accepts exactly the frames of the builder\<close>

definition is_credential :: "string \<Rightarrow> bool" where
  "is_credential c \<longleftrightarrow> length c = 10 \<and> set c \<subseteq> set hex_digits"

lemma parse_credential_identifier_Inr:
  "parse_credential_identifier c = Inr p \<longleftrightarrow> is_credential c \<and> p = ParsedRecord c"
  by (auto simp: parse_credential_identifier_def is_credential_def list_ex_iff)

lemma parse_credential_identifier_Inl:
  "parse_credential_identifier c = Inl e \<longleftrightarrow>
     \<not> is_credential c \<and> e = ReaderRecordError ''invalid_identifier''"
  by (auto simp: parse_credential_identifier_def is_credential_def list_ex_iff)

lemma is_credential_checksum:
  "is_credential c \<Longrightarrow> \<exists>v. checksum_loop 0 c = Some v \<and> 0 \<le> v \<and> v < 256"
  unfolding is_credential_def by (rule checksum_loop_hex) auto

lemma build_record_credential:
  assumes "is_credential c" and "checksum_loop 0 c = Some v"
  shows "build_record c =
           Inr ([STX] @ map byte_of_char c @ map byte_of_char (format_02X v) @ CRLF @ [ETX])"
  using assms by (simp add: build_record_def is_credential_def encode_ascii_hex)

lemma drop_split: "m = k + n \<Longrightarrow> drop n xs = take k (drop n xs) @ drop m xs"
  by (metis append_take_drop_id drop_drop)

lemma split_frame:
  assumes "length r = 16"
  shows "r = [hd r] @ take 10 (drop 1 r) @ take 2 (drop 11 r) @ take 2 (drop 13 r) @ [last r]"
proof -
  have "r = take 1 r @ drop 1 r" by simp
  moreover have "drop 1 r = take 10 (drop 1 r) @ drop 11 r"
    by (rule drop_split) simp
  moreover have "drop 11 r = take 2 (drop 11 r) @ drop 13 r"
    by (rule drop_split) simp
  moreover have "drop 13 r = take 2 (drop 13 r) @ drop 15 r"
    by (rule drop_split) simp
  ultimately have "r = take 1 r @ take 10 (drop 1 r) @ take 2 (drop 11 r) @
      take 2 (drop 13 r) @ drop 15 r"
    by metis
  moreover have "take 1 r = [hd r]" using assms by (cases r) auto
  moreover have "drop 15 r = [last r]"
    using assms by (cases r rule: rev_cases) auto
  ultimately show ?thesis by simp
qed

lemma parse_reader_record_Inr:
  assumes "parse_reader_record r = Inr p"
  obtains c t v where "p = ParsedRecord c" "is_credential c" "length t = 2"
    "set t \<subseteq> set hex_digits" "checksum_loop 0 c = Some v" "int16 t = Some v"
    "r = [STX] @ map byte_of_char c @ map byte_of_char t @ CRLF @ [ETX]"
proof -
  have len: "length r = 16" and fr: "hd r = STX" "last r = ETX"
    and crlf: "take 2 (drop 13 r) = CRLF"
    using assms by (auto simp: parse_reader_record_def RECORD_LENGTH_def split: if_splits)
  with assms obtain c t where
    c: "decode_ascii (take 10 (drop 1 r)) = Inr c" and t: "decode_ascii (take 2 (drop 11 r)) = Inr t"
    by (auto simp: parse_reader_record_def RECORD_LENGTH_def split: sum.splits)
  with assms len fr crlf obtain q where
    q: "parse_credential_identifier c = Inr q"
    by (auto simp: parse_reader_record_def RECORD_LENGTH_def split: sum.splits)
  with assms len fr crlf c t have
    hex: "length t = 2" "set t \<subseteq> set hex_digits"
    by (auto simp: parse_reader_record_def RECORD_LENGTH_def list_ex_iff split: if_splits)
  with assms len fr crlf c t q obtain v where
    v: "checksum_loop 0 c = Some v" "int16 t = Some v" "p = q"
    by (auto simp: parse_reader_record_def RECORD_LENGTH_def split: if_splits option.splits)
  have "r = [STX] @ map byte_of_char c @ map byte_of_char t @ CRLF @ [ETX]"
    using split_frame [OF len] decode_ascii_Inr [OF c] decode_ascii_Inr [OF t] fr crlf by simp
  with q v hex show thesis
    using that by (auto simp: parse_credential_identifier_Inr)
qed

lemma parse_reader_record_frame:
  assumes "is_credential c" "length t = 2" "set t \<subseteq> set hex_digits"
    "checksum_loop 0 c = Some v" "int16 t = Some w"
  shows "parse_reader_record ([STX] @ map byte_of_char c @ map byte_of_char t @ CRLF @ [ETX]) =
           (if v = w then Inr (ParsedRecord c) else Inl (ReaderRecordError ''checksum_mismatch''))"
proof -
  define r where "r = [STX] @ map byte_of_char c @ map byte_of_char t @ CRLF @ [ETX]"
  have c: "length c = 10" "set c \<subseteq> set hex_digits"
    using assms(1) by (simp_all add: is_credential_def)
  have "take 10 (drop 1 r) = map byte_of_char c" "take 2 (drop 11 r) = map byte_of_char t"
    "take 2 (drop 13 r) = CRLF" "length r = 16" "hd r = STX" "last r = ETX"
    using c(1) assms(2) by (simp_all add: CRLF_def r_def)
  moreover have "parse_credential_identifier c = Inr (ParsedRecord c)"
    using assms(1) by (simp add: parse_credential_identifier_Inr)
  moreover have "\<not> list_ex (\<lambda>c. c \<notin> set hex_digits) t"
    using assms(3) by (auto simp: list_ex_iff)
  ultimately have "parse_reader_record r =
      (if v = w then Inr (ParsedRecord c) else Inl (ReaderRecordError ''checksum_mismatch''))"
    using assms(2,4,5) decode_ascii_hex [OF c(2)] decode_ascii_hex [OF assms(3)]
    by (simp add: parse_reader_record_def RECORD_LENGTH_def)
  then show ?thesis by (simp only: r_def)
qed


lemma int16_two_hex:
  assumes "length t = 2" "set t \<subseteq> set hex_digits" "int16 t = Some v"
  shows "0 \<le> v \<and> v < 256 \<and> t = format_02X v"
proof -
  obtain x y where t: "t = [x, y]"
    using assms(1) by (auto simp: length_Suc_conv numeral_2_eq_2)
  then obtain a b where ab: "a < 16" "b < 16" "x = hex_char a" "y = hex_char b"
    using assms(2) by (auto simp: hex_digits_conv)
  then have v: "v = int (16 * a + b)" using assms(3) t by (simp add: int16_hex2)
  have "16 * a + b < 256" using ab by simp
  from format_02X_byte [OF this] ab have "format_02X v = t"
    by (simp add: v t)
  with ab v show ?thesis by simp
qed

lemma int16_format_02X:
  assumes "0 \<le> v" "v < 256"
  shows "int16 (format_02X v) = Some v \<and> length (format_02X v) = 2 \<and>
         set (format_02X v) \<subseteq> set hex_digits"
proof -
  have n: "nat v < 256" "int (nat v) = v" using assms by auto
  have "nat v div 16 < 16" using n by (simp add: less_mult_imp_div_less)
  moreover have "format_02X v = [hex_char (nat v div 16), hex_char (nat v mod 16)]"
    using format_02X_byte [OF n(1)] n(2) by simp
  moreover have "16 * (nat v div 16) + nat v mod 16 = nat v" by simp
  ultimately show ?thesis
    using assms by (auto simp: int16_hex2 intro: hex_char_digit)
qed

lemma parse_build_record_iff:
  "parse_reader_record r = Inr (ParsedRecord c) \<longleftrightarrow> is_credential c \<and> build_record c = Inr r"
proof
  assume "parse_reader_record r = Inr (ParsedRecord c)"
  then obtain t v where "is_credential c" "length t = 2" "set t \<subseteq> set hex_digits"
    "checksum_loop 0 c = Some v" "int16 t = Some v"
    "r = [STX] @ map byte_of_char c @ map byte_of_char t @ CRLF @ [ETX]"
    by (auto elim: parse_reader_record_Inr)
  then show "is_credential c \<and> build_record c = Inr r"
    using int16_two_hex [of t v] by (simp add: build_record_credential)
next
  assume *: "is_credential c \<and> build_record c = Inr r"
  then obtain v where v: "checksum_loop 0 c = Some v" "0 \<le> v" "v < 256"
    using is_credential_checksum by blast
  then have "r = [STX] @ map byte_of_char c @ map byte_of_char (format_02X v) @ CRLF @ [ETX]"
    using * build_record_credential by auto
  then show "parse_reader_record r = Inr (ParsedRecord c)"
    using parse_reader_record_frame [of c "format_02X v" v v] int16_format_02X [of v] v *
    by simp
qed

text \<open>C13. The frames the parser accepts are exactly those \<open>build_record\<close> produces.\<close>

theorem parse_accepts_built_frames:
  "parse_reader_record r = Inr (ParsedRecord c) \<longleftrightarrow> is_credential c \<and> build_record c = Inr r"
  by (rule parse_build_record_iff)

section \<open>Every rejection carries one of the documented reasons\<close>

definition parser_reasons :: "string list" where
  "parser_reasons =
     [''invalid_length'', ''invalid_framing'', ''invalid_terminator'', ''invalid_encoding'',
      ''invalid_identifier'', ''invalid_checksum_encoding'', ''checksum_mismatch'']"

lemma parse_reader_record_decide:
  "parse_reader_record r =
     (if length r \<noteq> 16 then Inl (ReaderRecordError ''invalid_length'')
      else if hd r \<noteq> STX \<or> last r \<noteq> ETX then Inl (ReaderRecordError ''invalid_framing'')
      else if take 2 (drop 13 r) \<noteq> CRLF then Inl (ReaderRecordError ''invalid_terminator'')
      else (case (decode_ascii (take 10 (drop 1 r)), decode_ascii (take 2 (drop 11 r))) of
              (Inr c, Inr t) \<Rightarrow>
                if \<not> is_credential c then Inl (ReaderRecordError ''invalid_identifier'')
                else if \<not> (length t = 2 \<and> set t \<subseteq> set hex_digits)
                then Inl (ReaderRecordError ''invalid_checksum_encoding'')
                else if checksum_loop 0 c \<noteq> int16 t
                then Inl (ReaderRecordError ''checksum_mismatch'')
                else Inr (ParsedRecord c)
            | _ \<Rightarrow> Inl (ReaderRecordError ''invalid_encoding'')))"
proof -
  have body: "(case parse_credential_identifier c of
         Inl e \<Rightarrow> Inl e
       | Inr parsed \<Rightarrow>
           if length t \<noteq> 2 \<or> list_ex (\<lambda>c. c \<notin> set hex_digits) t
           then Inl (ReaderRecordError ''invalid_checksum_encoding'')
           else (case (checksum_loop 0 c, int16 t) of
                   (Some checksum, Some expected) \<Rightarrow>
                     if checksum \<noteq> expected then Inl (ReaderRecordError ''checksum_mismatch'')
                     else Inr parsed
                 | _ \<Rightarrow> Inl (ValueError ''invalid literal for int()''))) =
      (if \<not> is_credential c then Inl (ReaderRecordError ''invalid_identifier'')
       else if \<not> (length t = 2 \<and> set t \<subseteq> set hex_digits)
       then Inl (ReaderRecordError ''invalid_checksum_encoding'')
       else if checksum_loop 0 c \<noteq> int16 t then Inl (ReaderRecordError ''checksum_mismatch'')
       else Inr (ParsedRecord c))" for c t
  proof (cases "is_credential c \<and> length t = 2 \<and> set t \<subseteq> set hex_digits")
    case True
    then obtain v w where "checksum_loop 0 c = Some v" "int16 t = Some w"
      using is_credential_checksum int16_hex2_set
      by (force simp: length_Suc_conv numeral_2_eq_2)
    with True show ?thesis
      by (auto simp: list_ex_iff parse_credential_identifier_Inr [THEN iffD2])
  next
    case False
    then show ?thesis
      by (cases "is_credential c")
        (auto simp: list_ex_iff parse_credential_identifier_Inr [THEN iffD2]
          parse_credential_identifier_Inl [THEN iffD2])
  qed
  show ?thesis
    unfolding parse_reader_record_def RECORD_LENGTH_def
    by (simp add: body split: sum.split)
qed

lemma parse_reader_record_Inl:
  assumes "parse_reader_record r = Inl e"
  shows "\<exists>why\<in>set parser_reasons. e = ReaderRecordError why"
  using assms unfolding parse_reader_record_decide parser_reasons_def
  by (auto split: if_splits sum.splits)

section \<open>A damaged byte is always noticed\<close>

lemma xor_left_cancel:
  fixes a x y :: int
  assumes "a XOR x = a XOR y"
  shows "x = y"
proof -
  have "a XOR (a XOR x) = a XOR (a XOR y)" using assms by simp
  then show ?thesis by (simp add: bit.xor_left_self)
qed

lemma xor_right_cancel:
  fixes a x y :: int
  assumes "x XOR a = y XOR a"
  shows "x = y"
  using assms xor_left_cancel [of a x y] by (simp add: xor.commute)

lemma checksum_loop_inj:
  assumes "checksum_loop acc s = Some v" "checksum_loop acc' s = Some v"
  shows "acc = acc'"
  using assms
proof (induction acc s arbitrary: acc' rule: checksum_loop.induct)
  case (2 acc a)
  then obtain w where "int16 [a] = Some w" "acc XOR w = acc' XOR w" by auto
  then show ?case by (blast intro: xor_right_cancel)
next
  case (3 acc a b rest)
  then obtain w where "int16 [a, b] = Some w" by (auto split: option.splits)
  with 3 have "acc XOR w = acc' XOR w" by simp
  then show ?case by (rule xor_right_cancel)
qed simp

lemma int16_hex2_inj:
  assumes "int16 [a, b] = Some v" "int16 [a', b'] = Some v"
    "{a, b, a', b'} \<subseteq> set hex_digits"
  shows "a = a' \<and> b = b'"
proof -
  have "[a, b] = format_02X v" "[a', b'] = format_02X v"
    using int16_two_hex [of "[a, b]" v] int16_two_hex [of "[a', b']" v] assms by simp_all
  then have "[a, b] = [a', b']" by (rule trans [OF _ sym])
  then show ?thesis by simp
qed

lemma checksum_loop_update:
  assumes "checksum_loop acc s = Some v" "checksum_loop acc (s[j := x]) = Some v"
    "j < length s" "even (length s)" "set s \<subseteq> set hex_digits" "x \<in> set hex_digits"
  shows "s ! j = x"
  using assms
proof (induction acc s arbitrary: j rule: checksum_loop.induct)
  case (3 acc a b rest)
  obtain w where w: "int16 [a, b] = Some w"
    using "3.prems"(5) int16_hex2_set by fastforce
  show ?case
  proof (cases "j < 2")
    case False
    then obtain k where k: "j = Suc (Suc k)"
      by (metis One_nat_def Suc_1 Suc_le_D Suc_le_eq not_less)
    have "rest ! k = x"
      using "3.IH" [OF w, of k] "3.prems" w k by simp
    then show ?thesis by (simp add: k)
  next
    case True
    then consider "j = 0" | "j = 1" by linarith
    then obtain a' b' w' where new: "(a # b # rest)[j := x] = a' # b' # rest"
      "{a', b'} \<subseteq> set hex_digits" "int16 [a', b'] = Some w'"
    proof cases
      case 1
      moreover obtain w' where "int16 [x, b] = Some w'"
        using "3.prems" int16_hex2_set [of x b] by auto
      ultimately show thesis using that [of x b] "3.prems" by simp
    next
      case 2
      moreover obtain w' where "int16 [a, x] = Some w'"
        using "3.prems" int16_hex2_set [of a x] by auto
      ultimately show thesis using that [of a x] "3.prems" by simp
    qed
    have "checksum_loop (acc XOR w) rest = Some v"
      using "3.prems"(1) w by simp
    moreover have "checksum_loop (acc XOR w') rest = Some v"
      using "3.prems"(2) new by simp
    ultimately have "w = w'"
      using checksum_loop_inj xor_left_cancel by blast
    then have "a = a' \<and> b = b'"
      using int16_hex2_inj [of a b w a' b'] w new "3.prems"(5) by simp
    with new(1) have "(a # b # rest)[j := x] = a # b # rest" by simp
    then show ?thesis
      using "3.prems"(3) by (metis nth_list_update_eq)
  qed
qed auto


lemma map_byte_of_char_inj: "map byte_of_char s = map byte_of_char t \<Longrightarrow> s = t"
  by (metis byte_of_char_inverse inj_map_eq_map inj_on_inverseI)

text \<open>
  Two frames that differ in one byte differ in one character of the identifier or of the
  checksum: the framing bytes are the same in every frame.
\<close>

lemma frame_update:
  assumes len: "length s = 12" "length s' = 12" and i: "i < 16"
    and r: "r = [STX] @ map byte_of_char s @ CRLF @ [ETX]" and b: "b \<noteq> r ! i"
    and upd: "r[i := b] = [STX] @ map byte_of_char s' @ CRLF @ [ETX]"
  obtains k x where "k < 12" "s' = s[k := x]"
proof (cases i)
  case 0
  then have "b = STX" and "r ! i = STX" using upd r by simp_all
  with b show thesis by simp
next
  case (Suc k)
  have new: "(map byte_of_char s @ CRLF @ [ETX])[k := b] = map byte_of_char s' @ CRLF @ [ETX]"
    using upd r Suc by simp
  show thesis
  proof (cases "k < 12")
    case True
    then have "(map byte_of_char s)[k := b] @ CRLF @ [ETX] = map byte_of_char s' @ CRLF @ [ETX]"
      using new len by (simp add: list_update_append)
    then have "map byte_of_char s' = (map byte_of_char s)[k := b]" by simp
    then have "map char_of_byte (map byte_of_char s') =
        map char_of_byte ((map byte_of_char s)[k := b])"
      by (rule arg_cong)
    then have "s' = s[k := char_of_byte b]" by (simp add: map_update comp_def)
    with True that show thesis by blast
  next
    case False
    then have "(CRLF @ [ETX])[k - 12 := b] = CRLF @ [ETX]"
      using new len by (simp add: list_update_append)
    moreover have "k - 12 < length (CRLF @ [ETX])" using i Suc by (simp add: CRLF_def)
    ultimately have "b = (CRLF @ [ETX]) ! (k - 12)" by (metis nth_list_update_eq)
    also have "\<dots> = r ! i" using False len r Suc by (simp add: nth_append)
    finally show thesis using b by simp
  qed
qed

lemma frame_text_update:
  assumes c: "is_credential c" "length t = 2" "set t \<subseteq> set hex_digits"
    "checksum_loop 0 c = Some v" "int16 t = Some v"
    and c': "is_credential c'" "length t' = 2" "set t' \<subseteq> set hex_digits"
    "checksum_loop 0 c' = Some v'" "int16 t' = Some v'"
    and upd: "c' @ t' = (c @ t)[k := x]"
  shows "c' = c \<and> t' = t"
proof (cases "k < 10")
  case True
  have len: "length c = 10" "length c' = 10" using c c' by (simp_all add: is_credential_def)
  with True upd have new: "c' = c[k := x]" "t' = t"
    by (simp_all add: list_update_append)
  then have "x \<in> set hex_digits"
    using c'(1) True len by (metis is_credential_def nth_list_update_eq nth_mem subset_code(1))
  then have "c ! k = x"
    using checksum_loop_update [of 0 c v k x] c c' new True len by (simp add: is_credential_def)
  with new show ?thesis by auto
next
  case False
  then have "c' = c"
    using c c' upd by (simp add: is_credential_def list_update_append)
  then show ?thesis
    using int16_two_hex [OF c(2,3,5)] int16_two_hex [OF c'(2,3,5)] c(4) c'(4) by simp
qed

text \<open>C12. Replacing any one byte of a valid frame by another byte makes the parser reject it.\<close>

theorem single_byte_corruption_rejected:
  assumes "parse_reader_record r = Inr p" and "i < length r" and "b \<noteq> r ! i"
  shows "\<exists>why\<in>set parser_reasons. parse_reader_record (r[i := b]) = Inl (ReaderRecordError why)"
proof (cases "parse_reader_record (r[i := b])")
  case (Inl e)
  then show ?thesis using parse_reader_record_Inl by auto
next
  case (Inr q)
  obtain c t v where c: "is_credential c" "length t = 2" "set t \<subseteq> set hex_digits"
    "checksum_loop 0 c = Some v" "int16 t = Some v"
    and r: "r = [STX] @ map byte_of_char c @ map byte_of_char t @ CRLF @ [ETX]"
    using assms(1) by (auto elim: parse_reader_record_Inr)
  obtain c' t' v' where c': "is_credential c'" "length t' = 2" "set t' \<subseteq> set hex_digits"
    "checksum_loop 0 c' = Some v'" "int16 t' = Some v'"
    and r': "r[i := b] = [STX] @ map byte_of_char c' @ map byte_of_char t' @ CRLF @ [ETX]"
    using Inr by (auto elim: parse_reader_record_Inr)
  have len: "length (c @ t) = 12" "length (c' @ t') = 12" "i < 16"
    using c c' assms(2) r by (simp_all add: is_credential_def CRLF_def)
  obtain k x where "k < 12" "c' @ t' = (c @ t)[k := x]"
    using frame_update [OF len, of r b] r r' assms(3) by auto
  then have "r[i := b] = r"
    using frame_text_update [OF c c'] r r' by simp
  then show ?thesis using assms(2,3) by (metis nth_list_update_eq)
qed


text \<open>The frame of the documentation with its eighth byte damaged.\<close>

theorem single_byte_corruption_rejected_witness:
  "parse_reader_record [2, 48, 49, 48, 50, 48, 51, 48, 52, 48, 53, 48, 49, 13, 10, 3] =
     Inr (ParsedRecord ''0102030405'') \<and>
   (\<exists>why\<in>set parser_reasons.
      parse_reader_record ([2, 48, 49, 48, 50, 48, 51, 48, 52, 48, 53, 48, 49, 13, 10, 3][7 := 50]) =
        Inl (ReaderRecordError why))"
proof -
  let ?r = "[2, 48, 49, 48, 50, 48, 51, 48, 52, 48, 53, 48, 49, 13, 10, 3] :: byte list"
  have h: "parse_reader_record ?r = Inr (ParsedRecord ''0102030405'')" by code_simp
  have "7 < length ?r" "50 \<noteq> ?r ! 7" by simp_all
  then show ?thesis using h single_byte_corruption_rejected [OF h, of 7 50] by blast
qed

end
