(* ===== verification/Reader_Stream.thy ===== *)
theory Reader_Stream
  imports Reader_Records
begin

text \<open>
  \<open>ReaderRecordStream\<close> of \<open>reader.py\<close>: the incremental decoder that cuts the serial byte
  stream into frames. The loop of \<open>feed\<close> is \<open>drain\<close>; \<open>tokenize\<close> is the reference it is
  shown to implement (cut at the next STX, then at the next ETX). The lemmas show that
  \<open>feed\<close> never raises, that it keeps a bounded buffer which holds at most one partial
  frame, that a transmission decodes the same however the operating system cuts it into
  chunks, and that a clean transmission decodes to exactly the credentials sent.
\<close>

section \<open>The stream decoder\<close>

record reader_record_stream =
  rs_buffer :: "byte list"
  rs_maximum_buffer :: nat

definition new_stream :: "nat \<Rightarrow> reader_record_stream" where
  "new_stream maximum_buffer = \<lparr>rs_buffer = [], rs_maximum_buffer = maximum_buffer\<rparr>"

text \<open>\<open>bytearray.find(b)\<close>: the first position, \<open>None\<close> for -1.\<close>

fun find_byte :: "byte \<Rightarrow> byte list \<Rightarrow> nat option" where
  "find_byte b [] = None"
| "find_byte b (x # xs) = (if x = b then Some 0 else map_option Suc (find_byte b xs))"

text \<open>
  The loop of \<open>ReaderRecordStream.feed\<close> over the buffered bytes, with the results
  appended so far. A \<open>ReaderRecordError\<close> becomes a malformed record; any other exception
  of the record parser leaves the loop with the frame already removed from the buffer.
\<close>

function drain ::
  "nat \<Rightarrow> record_result list \<Rightarrow> byte list \<Rightarrow> (exn + record_result list) \<times> byte list" where
  "drain mx results buf =
     (if buf = [] then (Inr results, buf)
      else if hd buf \<noteq> STX
      then (case find_byte STX buf of
              None \<Rightarrow> drain mx (results @ [MalformedRecord ''invalid_framing'']) []
            | Some start \<Rightarrow>
                drain mx (results @ [MalformedRecord ''invalid_framing'']) (drop start buf))
      else (case map_option Suc (find_byte ETX (tl buf)) of
              None \<Rightarrow>
                if mx < length buf
                then (Inr (results @ [MalformedRecord ''excessive_length'']), [])
                else (Inr results, buf)
            | Some fin \<Rightarrow>
                (case parse_reader_record (take (fin + 1) buf) of
                   Inr parsed \<Rightarrow> drain mx (results @ [parsed]) (drop (fin + 1) buf)
                 | Inl (ReaderRecordError why) \<Rightarrow>
                     drain mx (results @ [MalformedRecord why]) (drop (fin + 1) buf)
                 | Inl e \<Rightarrow> (Inl e, drop (fin + 1) buf))))"
  by pat_completeness auto

lemma find_byte_pos: "find_byte b xs = Some n \<Longrightarrow> hd xs \<noteq> b \<Longrightarrow> 0 < n"
  by (cases xs) (auto split: if_splits)

termination drain
  by (relation "measure (\<lambda>(mx, results, buf). length buf)") (auto dest: find_byte_pos)

declare drain.simps [simp del]

definition feed :: "byte list \<Rightarrow> (reader_record_stream, record_result list) prog" where
  "feed chunk st =
     (if chunk = [] then (Inr [], st)
      else (case drain (rs_maximum_buffer st) [] (rs_buffer st @ chunk) of
              (r, buf) \<Rightarrow> (r, st\<lparr>rs_buffer := buf\<rparr>)))"

text \<open>Successive reads: one \<open>feed\<close> per chunk, the results concatenated.\<close>

fun feed_all :: "byte list list \<Rightarrow> (reader_record_stream, record_result list) prog" where
  "feed_all [] = ret []"
| "feed_all (chunk # chunks) =
     bnd (feed chunk) (\<lambda>rs. bnd (feed_all chunks) (\<lambda>rs'. ret (rs @ rs')))"

section \<open>The reference tokenizer\<close>

definition frame_result :: "byte list \<Rightarrow> record_result" where
  "frame_result raw =
     (case parse_reader_record raw of
        Inr p \<Rightarrow> p
      | Inl e \<Rightarrow> MalformedRecord (case e of ReaderRecordError why \<Rightarrow> why | _ \<Rightarrow> []))"

function tokenize :: "nat \<Rightarrow> byte list \<Rightarrow> record_result list \<times> byte list" where
  "tokenize mx [] = ([], [])"
| "tokenize mx (b # bs) =
     (if b \<noteq> STX
      then (case tokenize mx (dropWhile (\<lambda>x. x \<noteq> STX) bs) of
              (rs, rest) \<Rightarrow> (MalformedRecord ''invalid_framing'' # rs, rest))
      else if ETX \<in> set bs
      then (case tokenize mx (tl (dropWhile (\<lambda>x. x \<noteq> ETX) bs)) of
              (rs, rest) \<Rightarrow>
                (frame_result (b # takeWhile (\<lambda>x. x \<noteq> ETX) bs @ [ETX]) # rs, rest))
      else if mx < length (b # bs) then ([MalformedRecord ''excessive_length''], [])
      else ([], b # bs))"
  by pat_completeness auto

lemma length_tl_dropWhile: "length (tl (dropWhile P xs)) \<le> length xs"
  by (metis length_dropWhile_le length_tl diff_le_self le_trans)

termination tokenize
  by (relation "measure (\<lambda>(mx, buf). length buf)")
    (auto simp: less_Suc_eq_le length_dropWhile_le
      intro: le_trans [OF diff_le_self length_dropWhile_le])

declare tokenize.simps(2) [simp del]

lemma tokenize_noise:
  "b \<noteq> STX \<Longrightarrow> tokenize mx (b # bs) =
     (MalformedRecord ''invalid_framing'' # fst (tokenize mx (dropWhile (\<lambda>x. x \<noteq> STX) bs)),
      snd (tokenize mx (dropWhile (\<lambda>x. x \<noteq> STX) bs)))"
  by (simp add: tokenize.simps(2) split: prod.splits)

lemma tokenize_frame:
  "ETX \<in> set bs \<Longrightarrow> tokenize mx (STX # bs) =
     (frame_result (STX # takeWhile (\<lambda>x. x \<noteq> ETX) bs @ [ETX]) #
        fst (tokenize mx (tl (dropWhile (\<lambda>x. x \<noteq> ETX) bs))),
      snd (tokenize mx (tl (dropWhile (\<lambda>x. x \<noteq> ETX) bs))))"
  by (simp add: tokenize.simps(2) split: prod.splits)

lemma tokenize_partial:
  "ETX \<notin> set bs \<Longrightarrow> tokenize mx (STX # bs) =
     (if mx < length (STX # bs) then ([MalformedRecord ''excessive_length''], [])
      else ([], STX # bs))"
  by (simp add: tokenize.simps(2))

lemmas tokenize_cases = tokenize_noise tokenize_frame tokenize_partial

lemma find_byte_conv:
  "find_byte b xs = (if b \<in> set xs then Some (length (takeWhile (\<lambda>x. x \<noteq> b) xs)) else None)"
  by (induction xs) auto

lemma drop_takeWhile: "drop (length (takeWhile P xs)) xs = dropWhile P xs"
  by (metis append_eq_conv_conj takeWhile_dropWhile_id)

lemma take_Suc_takeWhile:
  "b \<in> set xs \<Longrightarrow> take (Suc (length (takeWhile (\<lambda>x. x \<noteq> b) xs))) xs = takeWhile (\<lambda>x. x \<noteq> b) xs @ [b]"
  by (induction xs) auto

lemma drop_Suc_takeWhile:
  "drop (Suc (length (takeWhile P xs))) xs = tl (dropWhile P xs)"
  by (metis drop_Suc drop_takeWhile tl_drop)

text \<open>One round of the loop, in the terms of the reference.\<close>

lemma drain_nil: "drain mx results [] = (Inr results, [])"
  by (simp add: drain.simps)

lemma drain_noise:
  assumes "b \<noteq> STX"
  shows "drain mx results (b # bs) =
    drain mx (results @ [MalformedRecord ''invalid_framing'']) (dropWhile (\<lambda>x. x \<noteq> STX) bs)"
proof (cases "STX \<in> set bs")
  case True
  with assms show ?thesis
    by (simp add: drain.simps [of mx results "b # bs"] find_byte_conv drop_takeWhile)
next
  case False
  then have d: "dropWhile (\<lambda>x. x \<noteq> STX) bs = []" by auto
  from False assms show ?thesis
    by (auto simp add: drain.simps [of mx results "b # bs"] find_byte_conv d)
qed

lemma drain_partial:
  "ETX \<notin> set bs \<Longrightarrow> drain mx results (STX # bs) =
     (if mx < length (STX # bs) then (Inr (results @ [MalformedRecord ''excessive_length'']), [])
      else (Inr results, STX # bs))"
  by (simp add: drain.simps [of mx results "STX # bs"] find_byte_conv)

lemma drain_frame:
  assumes "ETX \<in> set bs"
  shows "drain mx results (STX # bs) =
    drain mx (results @ [frame_result (STX # takeWhile (\<lambda>x. x \<noteq> ETX) bs @ [ETX])])
      (tl (dropWhile (\<lambda>x. x \<noteq> ETX) bs))"
proof -
  let ?raw = "STX # takeWhile (\<lambda>x. x \<noteq> ETX) bs @ [ETX]"
  consider p where "parse_reader_record ?raw = Inr p"
    | why where "parse_reader_record ?raw = Inl (ReaderRecordError why)"
    using parse_reader_record_Inl by (cases "parse_reader_record ?raw") auto
  then show ?thesis
    using assms
    by cases (simp_all add: drain.simps [of mx results "STX # bs"] find_byte_conv
        take_Suc_takeWhile drop_Suc_takeWhile frame_result_def)
qed

text \<open>The loop of \<open>feed\<close> computes the reference tokenization.\<close>

lemma drain_tokenize:
  "drain mx results buf = (Inr (results @ fst (tokenize mx buf)), snd (tokenize mx buf))"
proof (induction mx buf arbitrary: results rule: tokenize.induct)
  case (1 mx)
  show ?case by (simp add: drain_nil)
next
  case (2 mx b bs)
  consider (noise) "b \<noteq> STX" | (frame) "b = STX" "ETX \<in> set bs"
    | (partial) "b = STX" "ETX \<notin> set bs"
    by blast
  then show ?case
    by cases (simp_all add: "2.IH" drain_noise drain_frame drain_partial tokenize_cases)
qed

lemma feed_tokenize:
  "feed chunk st =
     (if chunk = [] then (Inr [], st)
      else (Inr (fst (tokenize (rs_maximum_buffer st) (rs_buffer st @ chunk))),
            st\<lparr>rs_buffer := snd (tokenize (rs_maximum_buffer st) (rs_buffer st @ chunk))\<rparr>))"
  by (simp add: feed_def drain_tokenize)

text \<open>C15. \<open>feed\<close> never raises and computes the reference tokenization of the pending bytes.\<close>

theorem feed_implements_tokenizer:
  "feed chunk st =
     (let (rs, rest) = (if chunk = [] then ([], rs_buffer st)
                        else tokenize (rs_maximum_buffer st) (rs_buffer st @ chunk))
      in (Inr rs, st\<lparr>rs_buffer := rest\<rparr>))"
  by (simp add: feed_tokenize split: prod.splits)

section \<open>What stays in the buffer\<close>

definition pending_ok :: "nat \<Rightarrow> byte list \<Rightarrow> bool" where
  "pending_ok mx buf \<longleftrightarrow>
     buf = [] \<or> hd buf = STX \<and> ETX \<notin> set (tl buf) \<and> length buf \<le> mx"

lemma tokenize_pending_ok: "pending_ok mx (snd (tokenize mx buf))"
proof (induction mx buf rule: tokenize.induct)
  case (2 mx b bs)
  then show ?case
    by (auto simp: tokenize.simps(2) pending_ok_def split: prod.splits)
qed (simp add: pending_ok_def)

definition stream_ok :: "reader_record_stream \<Rightarrow> bool" where
  "stream_ok st \<longleftrightarrow> pending_ok (rs_maximum_buffer st) (rs_buffer st)"

text \<open>
  Between calls the buffer holds nothing or one partial frame within the bound: it
  starts with STX, contains no ETX, and is at most \<open>maximum_buffer\<close> long.
\<close>

theorem feed_keeps_stream_ok:
  "stream_ok (new_stream mx) \<and> keeps stream_ok (feed chunk)"
  by (auto simp: stream_ok_def new_stream_def pending_ok_def keeps_def feed_tokenize
      tokenize_pending_ok [unfolded pending_ok_def])

section \<open>Chunking\<close>

definition credentials_of :: "record_result list \<Rightarrow> string list" where
  "credentials_of rs = map credential (filter (\<lambda>r. \<not> is_malformed r) rs)"

lemma credentials_of_simps [simp]:
  "credentials_of [] = []"
  "credentials_of (ParsedRecord c # rs) = c # credentials_of rs"
  "credentials_of (MalformedRecord w # rs) = credentials_of rs"
  "credentials_of (rs @ rs') = credentials_of rs @ credentials_of rs'"
  by (simp_all add: credentials_of_def)

lemma credentials_of_Cons: "credentials_of (r # rs) = credentials_of [r] @ credentials_of rs"
  by (cases r) auto

text \<open>Skipped noise does not matter to the credentials and to what stays pending.\<close>

lemma tokenize_skip_noise:
  "credentials_of (fst (tokenize mx (dropWhile (\<lambda>x. x \<noteq> STX) bs))) =
     credentials_of (fst (tokenize mx bs)) \<and>
   snd (tokenize mx (dropWhile (\<lambda>x. x \<noteq> STX) bs)) = snd (tokenize mx bs)"
  by (cases bs) (auto simp: tokenize_cases)

lemma tokenize_append:
  assumes "MalformedRecord ''excessive_length'' \<notin> set (fst (tokenize mx x))"
  shows "credentials_of (fst (tokenize mx (x @ y))) =
           credentials_of (fst (tokenize mx x)) @
           credentials_of (fst (tokenize mx (snd (tokenize mx x) @ y))) \<and>
         snd (tokenize mx (x @ y)) = snd (tokenize mx (snd (tokenize mx x) @ y))"
  using assms
proof (induction mx x rule: tokenize.induct)
  case (2 mx b bs)
  consider (noise) "b \<noteq> STX" | (frame) "b = STX" "ETX \<in> set bs" | (partial) "b = STX" "ETX \<notin> set bs"
    by blast
  then show ?case
  proof cases
    case noise
    show ?thesis
    proof (cases "STX \<in> set bs")
      case True
      with noise "2.IH"(1) "2.prems" show ?thesis
        by (simp add: tokenize_cases dropWhile_append1)
    next
      case False
      then have d: "dropWhile (\<lambda>x. x \<noteq> STX) bs = []"
        "dropWhile (\<lambda>x. x \<noteq> STX) (bs @ y) = dropWhile (\<lambda>x. x \<noteq> STX) y"
        by (auto intro: dropWhile_append2)
      from noise tokenize_skip_noise [of mx y] show ?thesis
        by (simp add: tokenize_noise d)
    qed
  next
    case frame
    then have "dropWhile (\<lambda>x. x \<noteq> ETX) (bs @ y) = dropWhile (\<lambda>x. x \<noteq> ETX) bs @ y"
      "takeWhile (\<lambda>x. x \<noteq> ETX) (bs @ y) = takeWhile (\<lambda>x. x \<noteq> ETX) bs"
      "dropWhile (\<lambda>x. x \<noteq> ETX) bs \<noteq> []"
      by (auto simp: dropWhile_append1 takeWhile_append1 dropWhile_eq_Nil_conv)
    with frame "2.IH"(2) "2.prems" show ?thesis
      by (cases "frame_result (STX # takeWhile (\<lambda>x. x \<noteq> ETX) bs @ [ETX])")
        (simp_all add: tokenize_frame)
  next
    case partial
    with "2.prems" show ?thesis
      by (simp add: tokenize_cases split: if_splits)
  qed
qed simp


text \<open>
  The credentials decoded, and the bytes left pending, do not depend on where the input is
  cut into chunks, as long as the first piece did not overflow the buffer.
\<close>

theorem feed_chunking:
  assumes "feed a st = (Inr ra, sta)" and "MalformedRecord ''excessive_length'' \<notin> set ra"
    and "feed b sta = (Inr rb, stb)" and "feed (a @ b) st = (Inr r, st')"
  shows "credentials_of r = credentials_of ra @ credentials_of rb \<and> st' = stb"
proof -
  consider "a = []" | "b = []" | "a \<noteq> []" "b \<noteq> []" by blast
  then show ?thesis
  proof cases
    case 1
    with assms show ?thesis by (simp add: feed_def)
  next
    case 2
    with assms show ?thesis by (simp add: feed_def)
  next
    case 3
    with assms tokenize_append [of "rs_maximum_buffer st" "rs_buffer st @ a" b] show ?thesis
      by (auto simp: feed_tokenize)
  qed
qed

section \<open>A clean transmission\<close>

definition frame_of :: "string \<Rightarrow> byte list" where
  "frame_of c = (case build_record c of Inr r \<Rightarrow> r | Inl _ \<Rightarrow> [])"

lemma hex_byte_not_framing:
  assumes "c \<in> set hex_digits"
  shows "byte_of_char c \<noteq> ETX \<and> byte_of_char c \<noteq> STX"
proof -
  obtain d where "d < 16" "c = hex_char d" using assms by (auto simp: hex_digits_conv)
  then have "48 \<le> int (unat (byte_of_char c))"
    using hex_char_code by (simp only: unat_byte_of_char)
  moreover have "int (unat ETX) = 3" "int (unat STX) = 2" by (simp_all add: ETX_def STX_def)
  ultimately show ?thesis by auto
qed

lemma frame_of_shape:
  assumes "is_credential c"
  obtains m where "frame_of c = STX # m @ [ETX]" "ETX \<notin> set m" "length m = 14"
    "parse_reader_record (STX # m @ [ETX]) = Inr (ParsedRecord c)"
proof -
  obtain v where v: "checksum_loop 0 c = Some v" "0 \<le> v" "v < 256"
    using is_credential_checksum [OF assms] by blast
  define m where "m = map byte_of_char c @ map byte_of_char (format_02X v) @ CRLF"
  have b: "build_record c = Inr (STX # m @ [ETX])"
    using build_record_credential [OF assms v(1)] by (simp add: m_def)
  have "ETX \<notin> set m"
    using assms int16_format_02X [OF v(2,3)] hex_byte_not_framing
    by (fastforce simp: m_def is_credential_def CRLF_def ETX_def)
  moreover have "length m = 14"
    using assms int16_format_02X [OF v(2,3)] by (simp add: m_def is_credential_def CRLF_def)
  moreover have "parse_reader_record (STX # m @ [ETX]) = Inr (ParsedRecord c)"
    using assms b parse_build_record_iff by blast
  ultimately show thesis using that b by (simp add: frame_of_def)
qed

lemma tokenize_frame_of:
  assumes "is_credential c"
  shows "tokenize mx (frame_of c @ y) = (ParsedRecord c # fst (tokenize mx y), snd (tokenize mx y))"
proof -
  obtain m where m: "frame_of c = STX # m @ [ETX]" "ETX \<notin> set m"
    "parse_reader_record (STX # m @ [ETX]) = Inr (ParsedRecord c)"
    using frame_of_shape [OF assms] by blast
  then have "\<forall>x\<in>set m. x \<noteq> ETX" by auto
  then have "takeWhile (\<lambda>x. x \<noteq> ETX) (m @ ETX # y) = m"
    "dropWhile (\<lambda>x. x \<noteq> ETX) (m @ ETX # y) = ETX # y"
    by (simp_all add: takeWhile_append2 dropWhile_append2)
  with m show ?thesis by (simp add: tokenize_frame frame_result_def)
qed

lemma tokenize_transmission:
  assumes "x @ y = concat (map frame_of cs)" "list_all is_credential cs" "16 \<le> mx"
  shows "\<exists>ds es. cs = ds @ es \<and> fst (tokenize mx x) = map ParsedRecord ds \<and>
           snd (tokenize mx x) @ y = concat (map frame_of es)"
  using assms
proof (induction cs arbitrary: x)
  case (Cons c cs)
  have c: "is_credential c" using Cons.prems(2) by simp
  obtain m where m: "frame_of c = STX # m @ [ETX]" "ETX \<notin> set m" "length m = 14"
    using frame_of_shape [OF c] by blast
  show ?case
  proof (cases "length x < 16")
    case True
    have "x @ y = (STX # m) @ ETX # concat (map frame_of cs)"
      using Cons.prems(1) m by simp
    then have "take (length x) (x @ y) = take (length x) ((STX # m) @ ETX # concat (map frame_of cs))"
      by (rule arg_cong)
    then have x: "x = take (length x) (STX # m)"
      using True m(3) by (simp only: take_append) simp
    have "tokenize mx x = ([], x)"
    proof (cases x)
      case xs: (Cons z zs)
      then have "z = STX" "zs = take (length zs) m" using x by simp_all
      then have "ETX \<notin> set zs" using m(2) by (metis in_set_takeD)
      with \<open>z = STX\<close> xs True Cons.prems(3) show ?thesis by (simp add: tokenize_partial)
    qed simp
    then show ?thesis using Cons.prems(1) by (intro exI [of _ "[]"] exI [of _ "c # cs"]) simp
  next
    case False
    have len: "length (frame_of c) = 16" using m by simp
    have "x @ y = frame_of c @ concat (map frame_of cs)" using Cons.prems(1) by simp
    then have "take 16 (x @ y) = take 16 (frame_of c @ concat (map frame_of cs))"
      by (rule arg_cong)
    then have "take 16 x = frame_of c" using False len by simp
    then obtain x' where x': "x = frame_of c @ x'" by (metis append_take_drop_id)
    then have "x' @ y = concat (map frame_of cs)" using Cons.prems(1) by simp
    from Cons.IH [OF this] Cons.prems obtain ds es where
      "cs = ds @ es" "fst (tokenize mx x') = map ParsedRecord ds"
      "snd (tokenize mx x') @ y = concat (map frame_of es)"
      by auto
    then show ?thesis
      using x' Cons.prems(2) 
      by (intro exI [of _ "c # ds"] exI [of _ es]) (simp add: tokenize_frame_of)
  qed
qed simp

lemma pending_is_no_transmission:
  assumes "pending_ok mx (concat (map frame_of cs))" "list_all is_credential cs"
  shows "cs = []"
proof (cases cs)
  case (Cons c cs')
  then obtain m where "frame_of c = STX # m @ [ETX]"
    using frame_of_shape [of c] assms(2) by auto
  with assms(1) Cons show ?thesis by (simp add: pending_ok_def)
qed simp

lemma feed_all_transmission:
  assumes "stream_ok st" "rs_buffer st @ concat chunks = concat (map frame_of cs)"
    "list_all is_credential cs" "16 \<le> rs_maximum_buffer st"
  shows "feed_all chunks st = (Inr (map ParsedRecord cs), st\<lparr>rs_buffer := []\<rparr>)"
  using assms
proof (induction chunks arbitrary: st cs)
  case Nil
  then have "cs = []"
    using pending_is_no_transmission by (simp add: stream_ok_def)
  with Nil show ?case by (cases st) (simp add: ret_def)
next
  case (Cons chunk chunks)
  show ?case
  proof (cases "chunk = []")
    case True
    with Cons show ?thesis by (simp add: feed_tokenize bnd_def ret_def)
  next
    case False
    let ?mx = "rs_maximum_buffer st" and ?x = "rs_buffer st @ chunk"
    obtain ds es where split: "cs = ds @ es" "fst (tokenize ?mx ?x) = map ParsedRecord ds"
      "snd (tokenize ?mx ?x) @ concat chunks = concat (map frame_of es)"
      using tokenize_transmission [of ?x "concat chunks" cs ?mx] Cons.prems by auto
    have "feed_all chunks (st\<lparr>rs_buffer := snd (tokenize ?mx ?x)\<rparr>) =
        (Inr (map ParsedRecord es), st\<lparr>rs_buffer := []\<rparr>)"
      using Cons.IH [of "st\<lparr>rs_buffer := snd (tokenize ?mx ?x)\<rparr>" es] Cons.prems split
      by (simp add: stream_ok_def tokenize_pending_ok)
    with False split show ?thesis
      by (simp add: feed_tokenize bnd_def ret_def)
  qed
qed

text \<open>
  C14. A transmission of frames built from valid credentials, cut into chunks in any way
  whatever, decodes to exactly these credentials in order, with nothing malformed and nothing
  left in the buffer, for any buffer bound of at least one frame.
\<close>

theorem clean_transmission_decodes:
  assumes "list_all is_credential cs" and "concat chunks = concat (map frame_of cs)"
    and "RECORD_LENGTH \<le> mx"
  shows "feed_all chunks (new_stream mx) = (Inr (map ParsedRecord cs), new_stream mx)"
proof -
  have "stream_ok (new_stream mx)" by (simp add: stream_ok_def new_stream_def pending_ok_def)
  then show ?thesis
    using feed_all_transmission [of "new_stream mx" chunks cs] assms
    by (simp add: new_stream_def RECORD_LENGTH_def)
qed


section \<open>The hypotheses can be met\<close>

theorem feed_chunking_witness:
  "credentials_of [ParsedRecord ''0102030405'', MalformedRecord ''invalid_framing''] =
     credentials_of [] @
     credentials_of [ParsedRecord ''0102030405'', MalformedRecord ''invalid_framing''] \<and>
   new_stream 64 = new_stream 64"
proof (rule feed_chunking)
  show "feed [2, 48, 49] (new_stream 64) =
      (Inr [], \<lparr>rs_buffer = [2, 48, 49], rs_maximum_buffer = 64\<rparr>)"
    by code_simp
  show "MalformedRecord ''excessive_length'' \<notin> set []" by simp
  show "feed [48, 50, 48, 51, 48, 52, 48, 53, 48, 49, 13, 10, 3, 7]
      \<lparr>rs_buffer = [2, 48, 49], rs_maximum_buffer = 64\<rparr> =
      (Inr [ParsedRecord ''0102030405'', MalformedRecord ''invalid_framing''], new_stream 64)"
    by code_simp
  show "feed ([2, 48, 49] @ [48, 50, 48, 51, 48, 52, 48, 53, 48, 49, 13, 10, 3, 7]) (new_stream 64) =
      (Inr [ParsedRecord ''0102030405'', MalformedRecord ''invalid_framing''], new_stream 64)"
    by code_simp
qed

theorem clean_transmission_decodes_witness:
  "feed_all [take 5 (frame_of ''0102030405''), drop 5 (frame_of ''0102030405'') @ frame_of ''A1B2C3D4E5'']
     (new_stream 64) =
   (Inr (map ParsedRecord [''0102030405'', ''A1B2C3D4E5'']), new_stream 64)"
proof (rule clean_transmission_decodes)
  show "list_all is_credential [''0102030405'', ''A1B2C3D4E5'']" by code_simp
  show "concat [take 5 (frame_of ''0102030405''),
      drop 5 (frame_of ''0102030405'') @ frame_of ''A1B2C3D4E5''] =
    concat (map frame_of [''0102030405'', ''A1B2C3D4E5''])"
    by simp
  show "RECORD_LENGTH \<le> 64" by (simp add: RECORD_LENGTH_def)
qed

end
