(* ===== verification/Wall_Clock.thy ===== *)
theory Wall_Clock
  imports Prelude
begin

text \<open>
  Time: the part of Python's \<open>datetime\<close> the sources use, and \<open>ManualClock\<close> of
  \<open>clock.py\<close>. A \<open>datetime\<close> is its wall reading in microseconds since
  0001-01-01T00:00:00 with its UTC offset, or without one when it is naive; the limits of the
  calendar (years 1 to 9999) are checked where a time that comes from outside is converted or
  shifted: in the status and query services (\<open>Status_Service.to_utc\<close>, \<open>later_by\<close>) and for
  the date of the authorization file (\<open>of_timestamp_ns\<close>). \<open>SystemClock\<close> reads the operating system
  and is a parameter of the components that use a clock.
\<close>

section \<open>datetime\<close>

datatype datetime = DateTime (wall_us: int) (offset_us: "int option")

definition us_per_second :: int where "us_per_second = 1000000"
definition us_per_day :: int where "us_per_day = 86400000000"

text \<open>\<open>value.tzinfo is not None and value.utcoffset() is not None\<close>.\<close>

definition aware :: "datetime \<Rightarrow> bool" where
  "aware d \<longleftrightarrow> offset_us d \<noteq> None"

definition instant_us :: "datetime \<Rightarrow> int" where
  "instant_us d = wall_us d - (case offset_us d of None \<Rightarrow> 0 | Some z \<Rightarrow> z)"

text \<open>\<open>value.astimezone(UTC)\<close>, for aware values: the sources check that first.\<close>

definition astimezone_utc :: "datetime \<Rightarrow> datetime" where
  "astimezone_utc d = DateTime (instant_us d) (Some 0)"

text \<open>\<open>timedelta(seconds=s)\<close> rounds to microseconds, half to even.\<close>

definition round_half_even :: "rat \<Rightarrow> int" where
  "round_half_even x =
     (let f = \<lfloor>x\<rfloor>; d = x - of_int f
      in if d < 1 / 2 then f else if 1 / 2 < d then f + 1 else if even f then f else f + 1)"

definition timedelta_us :: "seconds \<Rightarrow> int" where
  "timedelta_us s = round_half_even (s * of_int us_per_second)"

definition add_seconds :: "datetime \<Rightarrow> seconds \<Rightarrow> datetime" where
  "add_seconds d s = DateTime (wall_us d + timedelta_us s) (offset_us d)"

text \<open>\<open>(a - b).total_seconds()\<close> for aware values.\<close>

definition seconds_between :: "datetime \<Rightarrow> datetime \<Rightarrow> seconds" where
  "seconds_between a b = of_int (instant_us a - instant_us b) / of_int us_per_second"

lemma aware_astimezone_utc [simp]: "aware (astimezone_utc d)"
  by (simp add: aware_def astimezone_utc_def)

lemma instant_astimezone_utc [simp]: "instant_us (astimezone_utc d) = instant_us d"
  by (simp add: instant_us_def astimezone_utc_def)

lemma astimezone_utc_idem [simp]: "astimezone_utc (astimezone_utc d) = astimezone_utc d"
  by (simp add: astimezone_utc_def [of "astimezone_utc d"]) (simp add: astimezone_utc_def)

lemma aware_add_seconds [simp]: "aware (add_seconds d s) = aware d"
  by (simp add: aware_def add_seconds_def)

lemma instant_add_seconds: "instant_us (add_seconds d s) = instant_us d + timedelta_us s"
  by (simp add: instant_us_def add_seconds_def)

lemma round_half_even_of_int [simp]: "round_half_even (of_int n) = n"
  by (simp add: round_half_even_def)

lemma round_half_even_nonneg: "0 \<le> x \<Longrightarrow> 0 \<le> round_half_even x"
  by (auto simp: round_half_even_def Let_def)

lemma timedelta_us_nonneg: "0 \<le> s \<Longrightarrow> 0 \<le> timedelta_us s"
  by (simp add: timedelta_us_def us_per_second_def round_half_even_nonneg)

section \<open>isoformat\<close>

text \<open>
  The proleptic Gregorian date of a day number (day 0 is 0001-01-01), the way Python's
  \<open>datetime\<close> module computes it.
\<close>

definition days_before_month :: "int list" where
  "days_before_month = [0, 31, 59, 90, 120, 151, 181, 212, 243, 273, 304, 334]"

definition days_in_month :: "int list" where
  "days_in_month = [31, 28, 31, 30, 31, 30, 31, 31, 30, 31, 30, 31]"

definition civil_of_days :: "int \<Rightarrow> int \<times> int \<times> int" where
  "civil_of_days day =
     (let n400 = day div 146097; r400 = day mod 146097;
          n100 = r400 div 36524; r100 = r400 mod 36524;
          n4 = r100 div 1461; r4 = r100 mod 1461;
          n1 = r4 div 365; n = r4 mod 365;
          year = n400 * 400 + 1 + n100 * 100 + n4 * 4 + n1
      in if n1 = 4 \<or> n100 = 4 then (year - 1, 12, 31)
         else let leap = (n1 = 3 \<and> (n4 \<noteq> 24 \<or> n100 = 3));
                  month = (n + 50) div 32;
                  preceding = days_before_month ! nat (month - 1) +
                              (if 2 < month \<and> leap then 1 else 0)
              in if n < preceding
                 then let m = month - 1;
                          p = preceding - (days_in_month ! nat (m - 1) +
                                           (if m = 2 \<and> leap then 1 else 0))
                      in (year, m, n - p + 1)
                 else (year, month, n - preceding + 1))"

definition digit_char :: "int \<Rightarrow> char" where
  "digit_char d = char_of (48 + nat (d mod 10))"

lemma digit_chars:
  "char_of (48::nat) = CHR ''0''" "char_of (49::nat) = CHR ''1''" "char_of (50::nat) = CHR ''2''"
  "char_of (51::nat) = CHR ''3''" "char_of (52::nat) = CHR ''4''" "char_of (53::nat) = CHR ''5''"
  "char_of (54::nat) = CHR ''6''" "char_of (55::nat) = CHR ''7''" "char_of (56::nat) = CHR ''8''"
  "char_of (57::nat) = CHR ''9''"
  by code_simp+

lemma digit_char_code [code]:
  "digit_char d =
     (let k = d mod 10
      in if k < 5
         then (if k = 0 then CHR ''0'' else if k = 1 then CHR ''1'' else if k = 2 then CHR ''2''
               else if k = 3 then CHR ''3'' else CHR ''4'')
         else (if k = 5 then CHR ''5'' else if k = 6 then CHR ''6'' else if k = 7 then CHR ''7''
               else if k = 8 then CHR ''8'' else CHR ''9''))"
proof -
  have "d mod 10 \<in> set [0..9]" by simp
  then have "d mod 10 = 0 \<or> d mod 10 = 1 \<or> d mod 10 = 2 \<or> d mod 10 = 3 \<or> d mod 10 = 4 \<or>
      d mod 10 = 5 \<or> d mod 10 = 6 \<or> d mod 10 = 7 \<or> d mod 10 = 8 \<or> d mod 10 = 9"
    by (simp add: upto.simps)
  then show ?thesis by (elim disjE) (simp_all add: digit_char_def digit_chars Let_def)
qed

text \<open>A number with leading zeros, \<open>width\<close> characters wide (\<open>%0wd\<close>).\<close>

fun pad_decimal :: "nat \<Rightarrow> int \<Rightarrow> string" where
  "pad_decimal 0 n = []"
| "pad_decimal (Suc width) n = pad_decimal width (n div 10) @ [digit_char n]"

definition offset_text :: "int option \<Rightarrow> string" where
  "offset_text z =
     (case z of
        None \<Rightarrow> []
      | Some off \<Rightarrow>
          let a = \<bar>off\<bar>; minutes = a div 60000000; s = a div 1000000 mod 60; us = a mod 1000000
          in (if off < 0 then ''-'' else ''+'') @ pad_decimal 2 (minutes div 60) @ '':'' @
             pad_decimal 2 (minutes mod 60) @
             (if s = 0 \<and> us = 0 then [] else '':'' @ pad_decimal 2 s) @
             (if us = 0 then [] else ''.'' @ pad_decimal 6 us))"

fun isoformat :: "datetime \<Rightarrow> string" where
  "isoformat (DateTime w z) =
     (let t = w mod us_per_day; s = t div us_per_second; us = t mod us_per_second
      in case civil_of_days (w div us_per_day) of (y, m, dd) \<Rightarrow>
           pad_decimal 4 y @ ''-'' @ pad_decimal 2 m @ ''-'' @ pad_decimal 2 dd @ ''T'' @
           pad_decimal 2 (s div 3600) @ '':'' @ pad_decimal 2 (s div 60 mod 60) @ '':'' @
           pad_decimal 2 (s mod 60) @
           (if us = 0 then [] else ''.'' @ pad_decimal 6 us) @ offset_text z)"

declare isoformat.simps [simp del]

section \<open>ManualClock\<close>

record manual_clock =
  mc_elapsed :: seconds
  mc_wall_time :: datetime

definition epoch_2026 :: datetime where
  "epoch_2026 = DateTime (739616 * us_per_day) (Some 0)"

definition new_manual_clock :: manual_clock where
  "new_manual_clock = \<lparr>mc_elapsed = 0, mc_wall_time = epoch_2026\<rparr>"

definition manual_monotonic :: "(manual_clock, seconds) prog" where
  "manual_monotonic = gets mc_elapsed"

definition manual_now :: "(manual_clock, datetime) prog" where
  "manual_now = gets mc_wall_time"

definition manual_advance :: "seconds \<Rightarrow> (manual_clock, unit) prog" where
  "manual_advance s =
     (if s < 0 then throw (ValueError ''clock cannot move backwards'')
      else sq (modify (mc_elapsed_update (\<lambda>e. e + s)))
              (modify (mc_wall_time_update (\<lambda>w. add_seconds w s))))"

lemma manual_clock_test: "isoformat epoch_2026 = ''2026-01-01T00:00:00+00:00''"
  by code_simp

lemma manual_advance_forward:
  "manual_advance s c = (r, c') \<Longrightarrow> mc_elapsed c \<le> mc_elapsed c' \<and>
     instant_us (mc_wall_time c) \<le> instant_us (mc_wall_time c')"
  by (auto simp: manual_advance_def prog_simps instant_add_seconds timedelta_us_nonneg
      split: if_splits)

end
