(* ===== verification/Audit_Events.thy ===== *)
theory Audit_Events
  imports Wall_Clock
begin

text \<open>
  The typed audit events of \<open>audit.py\<close>: severities, event types, the privacy checks of
  \<open>AuditEvent.__post_init__\<close>, and \<open>as_dict\<close>, together with the event types of
  \<open>reader.py\<close> that are re-audited under the same name. JSON values stand for the Python
  values that \<open>json.dumps\<close> writes.
\<close>

datatype json =
    JNull
  | JBool bool
  | JInt int
  | JFloat seconds
  | JStr string
  | JList "json list"
  | JObj "(string \<times> json) list"

datatype severity = SevDebug | SevInfo | SevWarning | SevCritical | SevError

fun severity_value :: "severity \<Rightarrow> string" where
  "severity_value SevDebug = ''debug''"
| "severity_value SevInfo = ''info''"
| "severity_value SevWarning = ''warning''"
| "severity_value SevCritical = ''critical''"
| "severity_value SevError = ''error''"

datatype event_type =
    SERVICE_STARTED | SERVICE_SHUTDOWN | CONFIGURATION_ERROR
  | CREDENTIAL_AUTHORIZED | CREDENTIAL_DENIED | CREDENTIAL_UNKNOWN | MALFORMED_RECORD
  | ESCALATION_WARNING | ESCALATION_CRITICAL
  | RELAY_ASSERTED | RELAY_RESTORED | RELAY_CONTROL_ERROR
  | AUTHORIZATION_RELOADED | AUTHORIZATION_RELOAD_FAILED
  | NOTIFICATION_DELIVERY_FAILED | NOTIFICATION_BACKLOG_RECOVERED
  | READER_CONNECTING | READER_CONNECTED | READER_NOT_FOUND | READER_IDENTITY_AMBIGUOUS
  | READER_OPEN_FAILED | READER_READ_FAILED | READER_DISCONNECTED | READER_RECOVERED
  | READER_RECORD_RECEIVED | READER_RECORD_MALFORMED
  | RECONNECT_SCHEDULED | RECONNECT_REPEATEDLY_FAILED

fun event_type_value :: "event_type \<Rightarrow> string" where
  "event_type_value SERVICE_STARTED = ''service_started''"
| "event_type_value SERVICE_SHUTDOWN = ''service_shutdown''"
| "event_type_value CONFIGURATION_ERROR = ''configuration_error''"
| "event_type_value CREDENTIAL_AUTHORIZED = ''credential_authorized''"
| "event_type_value CREDENTIAL_DENIED = ''credential_denied''"
| "event_type_value CREDENTIAL_UNKNOWN = ''credential_unknown''"
| "event_type_value MALFORMED_RECORD = ''malformed_record''"
| "event_type_value ESCALATION_WARNING = ''escalation_warning''"
| "event_type_value ESCALATION_CRITICAL = ''escalation_critical''"
| "event_type_value RELAY_ASSERTED = ''relay_asserted''"
| "event_type_value RELAY_RESTORED = ''relay_restored''"
| "event_type_value RELAY_CONTROL_ERROR = ''relay_control_error''"
| "event_type_value AUTHORIZATION_RELOADED = ''authorization_reloaded''"
| "event_type_value AUTHORIZATION_RELOAD_FAILED = ''authorization_reload_failed''"
| "event_type_value NOTIFICATION_DELIVERY_FAILED = ''notification_delivery_failed''"
| "event_type_value NOTIFICATION_BACKLOG_RECOVERED = ''notification_backlog_recovered''"
| "event_type_value READER_CONNECTING = ''reader_connecting''"
| "event_type_value READER_CONNECTED = ''reader_connected''"
| "event_type_value READER_NOT_FOUND = ''reader_not_found''"
| "event_type_value READER_IDENTITY_AMBIGUOUS = ''reader_identity_ambiguous''"
| "event_type_value READER_OPEN_FAILED = ''reader_open_failed''"
| "event_type_value READER_READ_FAILED = ''reader_read_failed''"
| "event_type_value READER_DISCONNECTED = ''reader_disconnected''"
| "event_type_value READER_RECOVERED = ''reader_recovered''"
| "event_type_value READER_RECORD_RECEIVED = ''reader_record_received''"
| "event_type_value READER_RECORD_MALFORMED = ''reader_record_malformed''"
| "event_type_value RECONNECT_SCHEDULED = ''reconnect_scheduled''"
| "event_type_value RECONNECT_REPEATEDLY_FAILED = ''reconnect_repeatedly_failed''"

text \<open>The lookups \<open>EventType(text)\<close> and \<open>Severity(text)\<close>; \<open>None\<close> is the \<open>ValueError\<close>.\<close>

definition all_event_types :: "event_type list" where
  "all_event_types =
     [SERVICE_STARTED, SERVICE_SHUTDOWN, CONFIGURATION_ERROR, CREDENTIAL_AUTHORIZED,
      CREDENTIAL_DENIED, CREDENTIAL_UNKNOWN, MALFORMED_RECORD, ESCALATION_WARNING,
      ESCALATION_CRITICAL, RELAY_ASSERTED, RELAY_RESTORED, RELAY_CONTROL_ERROR,
      AUTHORIZATION_RELOADED, AUTHORIZATION_RELOAD_FAILED, NOTIFICATION_DELIVERY_FAILED,
      NOTIFICATION_BACKLOG_RECOVERED, READER_CONNECTING, READER_CONNECTED, READER_NOT_FOUND,
      READER_IDENTITY_AMBIGUOUS, READER_OPEN_FAILED, READER_READ_FAILED, READER_DISCONNECTED,
      READER_RECOVERED, READER_RECORD_RECEIVED, READER_RECORD_MALFORMED, RECONNECT_SCHEDULED,
      RECONNECT_REPEATEDLY_FAILED]"

definition event_type_of :: "string \<Rightarrow> event_type option" where
  "event_type_of s = find (\<lambda>t. event_type_value t = s) all_event_types"

definition severity_of :: "string \<Rightarrow> severity option" where
  "severity_of s =
     find (\<lambda>v. severity_value v = s) [SevDebug, SevInfo, SevWarning, SevCritical, SevError]"

section \<open>AuditEvent\<close>

type_synonym correlation = "(string \<times> json) list"

record audit_event =
  ev_event_type :: event_type
  ev_severity :: severity
  ev_timestamp :: datetime
  ev_correlation :: correlation
  ev_reader_state :: "string option"
  ev_controller_state :: "string option"
  ev_delivery_status :: "string option"
  ev_event_id :: string

definition forbidden_keys :: "string list" where
  "forbidden_keys =
     [''credential'', ''card'', ''name'', ''secret'', ''token'', ''webhook'', ''password'']"

definition allowed_correlation_keys :: "string list" where
  "allowed_correlation_keys = [''reason'', ''duration_seconds'', ''attempt'', ''event_count'']"

definition allowed_reasons :: "string list" where
  "allowed_reasons =
     [''invalid_length'', ''invalid_framing'', ''invalid_terminator'', ''invalid_encoding'',
      ''invalid_identifier'', ''invalid_checksum_encoding'', ''checksum_mismatch'',
      ''excessive_length'', ''malformed_record'', ''queue_unavailable'', ''setup_failed'',
      ''high_failed'', ''low_failed'', ''cleanup_failed'']"

text \<open>\<open>str.lower\<close> and \<open>str.upper\<close> on ASCII text; other characters are kept.\<close>

definition lower_char :: "char \<Rightarrow> char" where
  "lower_char c =
     (let n = (of_char c :: nat) in if 65 \<le> n \<and> n \<le> 90 then char_of (n + 32) else c)"

definition upper_char :: "char \<Rightarrow> char" where
  "upper_char c =
     (let n = (of_char c :: nat) in if 97 \<le> n \<and> n \<le> 122 then char_of (n - 32) else c)"

text \<open>\<open>needle in text\<close>, for strings.\<close>

fun begins_with :: "string \<Rightarrow> string \<Rightarrow> bool" where
  "begins_with [] s = True"
| "begins_with (p # ps) [] = False"
| "begins_with (p # ps) (c # cs) = (p = c \<and> begins_with ps cs)"

fun occurs_in :: "string \<Rightarrow> string \<Rightarrow> bool" where
  "occurs_in p [] = (p = [])"
| "occurs_in p (c # cs) = (begins_with p (c # cs) \<or> occurs_in p cs)"

text \<open>The loop over the correlation keys, in their order; \<open>None\<close> when no key is refused.\<close>

fun check_keys :: "correlation \<Rightarrow> exn option" where
  "check_keys [] = None"
| "check_keys ((key, v) # rest) =
     (if list_ex (\<lambda>f. occurs_in f (map lower_char key)) forbidden_keys
      then Some (ValueError (''sensitive correlation key is prohibited: '' @ key))
      else if key \<notin> set allowed_correlation_keys
      then Some (ValueError (''correlation key is not allow-listed: '' @ key))
      else check_keys rest)"

definition reason_allowed :: "json option \<Rightarrow> bool" where
  "reason_allowed r =
     (case r of
        None \<Rightarrow> True
      | Some JNull \<Rightarrow> True
      | Some (JStr s) \<Rightarrow> s \<in> set allowed_reasons
      | Some _ \<Rightarrow> False)"

definition post_init :: "audit_event \<Rightarrow> exn + audit_event" where
  "post_init ev =
     (if \<not> aware (ev_timestamp ev)
      then Inl (ValueError ''audit timestamps must be timezone-aware'')
      else (case check_keys (ev_correlation ev) of
              Some e \<Rightarrow> Inl e
            | None \<Rightarrow>
                if \<not> reason_allowed (map_of (ev_correlation ev) ''reason'')
                then Inl (ValueError ''correlation reason is not allow-listed'')
                else Inr ev))"

definition json_option :: "string option \<Rightarrow> json" where
  "json_option x = (case x of None \<Rightarrow> JNull | Some s \<Rightarrow> JStr s)"

definition as_dict :: "audit_event \<Rightarrow> (string \<times> json) list" where
  "as_dict ev =
     [(''event_id'', JStr (ev_event_id ev)),
      (''timestamp'', JStr (isoformat (ev_timestamp ev))),
      (''event_type'', JStr (event_type_value (ev_event_type ev))),
      (''severity'', JStr (severity_value (ev_severity ev))),
      (''correlation'', JObj (ev_correlation ev)),
      (''reader_state'', json_option (ev_reader_state ev)),
      (''controller_state'', json_option (ev_controller_state ev)),
      (''delivery_status'', json_option (ev_delivery_status ev))]"

section \<open>Properties\<close>

definition private_correlation :: "correlation \<Rightarrow> bool" where
  "private_correlation c \<longleftrightarrow>
     fst ` set c \<subseteq> set allowed_correlation_keys \<and>
     (\<forall>key\<in>fst ` set c. \<forall>f\<in>set forbidden_keys. \<not> occurs_in f (map lower_char key)) \<and>
     reason_allowed (map_of c ''reason'')"

definition event_ok :: "audit_event \<Rightarrow> bool" where
  "event_ok ev \<longleftrightarrow> aware (ev_timestamp ev) \<and> private_correlation (ev_correlation ev)"

lemma check_keys_None:
  "check_keys c = None \<longleftrightarrow>
     (\<forall>key\<in>fst ` set c. key \<in> set allowed_correlation_keys \<and>
        (\<forall>f\<in>set forbidden_keys. \<not> occurs_in f (map lower_char key)))"
  by (induction c rule: check_keys.induct) (auto simp: list_ex_iff)

lemma post_init_Inr: "post_init ev = Inr ev' \<longleftrightarrow> event_ok ev \<and> ev' = ev"
proof (cases "check_keys (ev_correlation ev)")
  case None
  then show ?thesis
    using check_keys_None [of "ev_correlation ev"]
    by (auto simp: post_init_def event_ok_def private_correlation_def)
next
  case (Some e)
  then have "\<not> private_correlation (ev_correlation ev)"
    using check_keys_None [of "ev_correlation ev"] by (auto simp: private_correlation_def)
  with Some show ?thesis by (simp add: post_init_def event_ok_def)
qed

lemma check_keys_value_error: "check_keys c = Some e \<Longrightarrow> is_value_error e"
  by (induction c rule: check_keys.induct) (auto split: if_splits)

lemma post_init_Inl: "post_init ev = Inl e \<Longrightarrow> is_value_error e"
  by (auto simp: post_init_def check_keys_value_error split: option.splits if_splits)

text \<open>The allow list is itself free of the forbidden words: the first check never fires alone.\<close>

lemma allowed_keys_not_forbidden:
  "key \<in> set allowed_correlation_keys \<Longrightarrow> f \<in> set forbidden_keys \<Longrightarrow>
   \<not> occurs_in f (map lower_char key)"
  by (auto simp: allowed_correlation_keys_def forbidden_keys_def lower_char_def)

lemma private_correlation_iff:
  "private_correlation c \<longleftrightarrow>
     fst ` set c \<subseteq> set allowed_correlation_keys \<and> reason_allowed (map_of c ''reason'')"
  using allowed_keys_not_forbidden by (auto simp: private_correlation_def)

lemma event_type_of_value: "event_type_of (event_type_value t) = Some t"
  by (cases t) (simp_all add: event_type_of_def all_event_types_def)

lemma severity_of_value: "severity_of (severity_value v) = Some v"
  by (cases v) (simp_all add: severity_of_def)

lemma event_type_of_Some: "event_type_of s = Some t \<Longrightarrow> event_type_value t = s"
  by (auto simp: event_type_of_def find_Some_iff)

lemma severity_of_Some: "severity_of s = Some v \<Longrightarrow> severity_value v = s"
  by (auto simp: severity_of_def find_Some_iff split: if_splits)

text \<open>For symbolic runs: an event with a private correlation passes the checks as it is.\<close>

lemma post_init_run [run_simps]: "event_ok ev \<Longrightarrow> post_init ev = Inr ev"
  by (simp add: post_init_Inr)

lemma private_correlation_run [run_simps]:
  "private_correlation []" "private_correlation [(''duration_seconds'', v)]"
  by (simp_all add: private_correlation_iff allowed_correlation_keys_def reason_allowed_def)

lemmas [run_simps] = event_ok_def aware_def

end
