(* ===== verification/Relay_Gpio.thy ===== *)
theory Relay_Gpio
  imports Prelude
begin

text \<open>
  The relay: the \<open>Relay\<close> protocol of \<open>interfaces.py\<close> as the locale \<open>relay_contract\<close>, and
  its two implementations in \<open>gpio.py\<close>. \<open>SimulatedRelay\<close> is modelled with its injected
  failures. \<open>RaspberryPiRelay\<close> is modelled over a GPIO driver that is a parameter (the
  \<open>RPi.GPIO\<close> package): the locale \<open>gpio_contract\<close> says what is relied on, and the driver
  may raise at any call. \<open>recording_gpio\<close> is the recording driver of the repository's
  hardware tests with a schedule of failures; it shows that the contract can be met and makes
  the calls of a run observable.
\<close>

section \<open>The Relay protocol\<close>

text \<open>
  A command that returns has put the output at the requested level; a command that raises left
  it at the level it had or at the requested one. Setting up and cleaning up never drive the
  output high. The laws hold in the states the operations themselves produce, described by
  \<open>inv\<close>.
\<close>

locale relay_contract =
  fixes setup_op :: "string \<Rightarrow> int \<Rightarrow> ('r, unit) prog"
    and command_op :: "bool \<Rightarrow> ('r, unit) prog"
    and cleanup_op :: "('r, unit) prog"
    and level :: "'r \<Rightarrow> bool"
    and inv :: "'r \<Rightarrow> bool"
  assumes command_returns: "inv r \<Longrightarrow> command_op high r = (Inr u, r') \<Longrightarrow> level r' = high"
    and command_raises:
      "inv r \<Longrightarrow> command_op high r = (Inl e, r') \<Longrightarrow> level r' = level r \<or> level r' = high"
    and setup_not_raised:
      "inv r \<Longrightarrow> setup_op numbering channel r = (x, r') \<Longrightarrow> level r' \<Longrightarrow> level r"
    and cleanup_not_raised: "inv r \<Longrightarrow> cleanup_op r = (x, r') \<Longrightarrow> level r' \<Longrightarrow> level r"
    and setup_inv: "keeps inv (setup_op numbering channel)"
    and command_inv: "keeps inv (command_op high)"
    and cleanup_inv: "keeps inv cleanup_op"
begin

text \<open>Only the command HIGH can raise the output.\<close>

lemma low_keeps_low: "keeps (\<lambda>r. inv r \<and> \<not> level r) (command_op False)"
proof (rule keepsI)
  fix r x r' assume "inv r \<and> \<not> level r" and run: "command_op False r = (x, r')"
  then show "inv r' \<and> \<not> level r'"
    using command_returns [of r False] command_raises [of r False] keepsD [OF command_inv run]
    by (cases x) auto
qed

lemma setup_keeps_low: "keeps (\<lambda>r. inv r \<and> \<not> level r) (setup_op numbering channel)"
  by (rule keepsI) (blast dest: setup_not_raised keepsD [OF setup_inv])

lemma cleanup_keeps_low: "keeps (\<lambda>r. inv r \<and> \<not> level r) cleanup_op"
  by (rule keepsI) (blast dest: cleanup_not_raised keepsD [OF cleanup_inv])

lemma low_then_cleanup:
  assumes "inv r" and "command_op False r = (Inr u, r1)" and "cleanup_op r1 = (x, r2)"
  shows "\<not> level r2"
  using assms command_returns cleanup_not_raised keepsD [OF command_inv] by blast

end

section \<open>SimulatedRelay\<close>

datatype relay_action_type = SETUP | LOW | HIGH | CLEANUP

record relay_action =
  ra_action :: relay_action_type
  ra_timestamp :: seconds
  ra_channel :: int

record simulated_relay =
  sr_actions :: "relay_action list"
  sr_is_high :: bool
  sr_channel :: "int option"
  sr_numbering :: "string option"
  sr_fail_next_high :: bool
  sr_fail_next_low :: bool
  sr_fail_next_setup :: bool
  sr_fail_next_cleanup :: bool

definition new_simulated_relay :: simulated_relay where
  "new_simulated_relay =
     \<lparr>sr_actions = [], sr_is_high = False, sr_channel = None, sr_numbering = None,
      sr_fail_next_high = False, sr_fail_next_low = False, sr_fail_next_setup = False,
      sr_fail_next_cleanup = False\<rparr>"

definition log_action ::
  "relay_action_type \<Rightarrow> seconds \<Rightarrow> int \<Rightarrow> (simulated_relay, unit) prog" where
  "log_action a now channel =
     modify (sr_actions_update
       (\<lambda>as. as @ [\<lparr>ra_action = a, ra_timestamp = now, ra_channel = channel\<rparr>]))"

text \<open>The operations take the reading of the relay's clock.\<close>

definition simulated_setup :: "seconds \<Rightarrow> string \<Rightarrow> int \<Rightarrow> (simulated_relay, unit) prog" where
  "simulated_setup now numbering channel =
     with_self (\<lambda>r.
       if sr_fail_next_setup r
       then sq (modify (sr_fail_next_setup_update (\<lambda>_. False)))
               (throw (RuntimeError ''injected setup failure''))
       else sq (modify (\<lambda>r. r\<lparr>sr_numbering := Some numbering, sr_channel := Some channel\<rparr>))
               (log_action SETUP now channel))"

definition simulated_command :: "seconds \<Rightarrow> bool \<Rightarrow> (simulated_relay, unit) prog" where
  "simulated_command now high =
     with_self (\<lambda>r.
       case sr_channel r of
         None \<Rightarrow> throw (RuntimeError ''relay has not been set up'')
       | Some channel \<Rightarrow>
           if high \<and> sr_fail_next_high r
           then sq (modify (sr_fail_next_high_update (\<lambda>_. False)))
                   (throw (RuntimeError ''injected HIGH failure''))
           else if \<not> high \<and> sr_fail_next_low r
           then sq (modify (sr_fail_next_low_update (\<lambda>_. False)))
                   (throw (RuntimeError ''injected LOW failure''))
           else sq (modify (sr_is_high_update (\<lambda>_. high)))
                   (log_action (if high then HIGH else LOW) now channel))"

definition simulated_cleanup :: "seconds \<Rightarrow> (simulated_relay, unit) prog" where
  "simulated_cleanup now =
     with_self (\<lambda>r.
       if sr_fail_next_cleanup r
       then sq (modify (sr_fail_next_cleanup_update (\<lambda>_. False)))
               (throw (RuntimeError ''injected cleanup failure''))
       else (case sr_channel r of
               None \<Rightarrow> skip
             | Some channel \<Rightarrow> log_action CLEANUP now channel))"

lemmas simulated_relay_defs =
  simulated_setup_def simulated_command_def simulated_cleanup_def log_action_def prog_simps

interpretation sim_relay: relay_contract
  "simulated_setup now" "simulated_command now" "simulated_cleanup now" sr_is_high "\<lambda>_. True"
  for now
  by unfold_locales
    (auto simp: simulated_relay_defs keeps_def split: if_splits option.splits)

text \<open>The level of the simulated relay is the last level its action log shows.\<close>

fun logged_level :: "relay_action list \<Rightarrow> bool" where
  "logged_level [] = False"
| "logged_level (a # as) =
     (case ra_action a of HIGH \<Rightarrow> True | LOW \<Rightarrow> False | _ \<Rightarrow> logged_level as)"

definition log_faithful :: "simulated_relay \<Rightarrow> bool" where
  "log_faithful r \<longleftrightarrow> sr_is_high r = logged_level (rev (sr_actions r))"

lemma simulated_relay_log_faithful:
  "keeps log_faithful (simulated_setup now numbering channel)"
  "keeps log_faithful (simulated_command now high)"
  "keeps log_faithful (simulated_cleanup now)"
  by (rule keepsI; auto simp: simulated_relay_defs log_faithful_def split: if_splits option.splits)+

section \<open>RaspberryPiRelay over a GPIO driver\<close>

text \<open>
  The module \<open>RPi.GPIO\<close>: the functions the adapter calls, over the state \<open>'g\<close> of the
  hardware. Numbering mode and direction are fixed by the adapter (BCM, output).
\<close>

record 'g gpio_driver =
  gpio_setwarnings :: "bool \<Rightarrow> ('g, unit) prog"
  gpio_setmode_bcm :: "('g, unit) prog"
  gpio_setup_out :: "int \<Rightarrow> bool \<Rightarrow> ('g, unit) prog"
  gpio_output :: "int \<Rightarrow> bool \<Rightarrow> ('g, unit) prog"
  gpio_cleanup :: "int \<Rightarrow> ('g, unit) prog"

record 'g rpi_relay =
  rp_gpio :: 'g
  rp_channel :: "int option"
  rp_closed :: bool

definition new_rpi_relay :: "'g \<Rightarrow> 'g rpi_relay" where
  "new_rpi_relay g = \<lparr>rp_gpio = g, rp_channel = None, rp_closed = False\<rparr>"

definition on_gpio :: "('g, 'a) prog \<Rightarrow> ('g rpi_relay, 'a) prog" where
  "on_gpio m = zoom rp_gpio rp_gpio_update m"

definition rpi_setup :: "'g gpio_driver \<Rightarrow> string \<Rightarrow> int \<Rightarrow> ('g rpi_relay, unit) prog" where
  "rpi_setup D numbering channel =
     with_self (\<lambda>r.
       if rp_channel r \<noteq> None then skip
       else if numbering \<noteq> ''BCM'' \<or> channel \<noteq> 23
       then throw (ValueError ''physical relay requires BCM channel 23'')
       else sq (on_gpio (gpio_setwarnings D False))
              (sq (on_gpio (gpio_setmode_bcm D))
                (sq (on_gpio (gpio_setup_out D channel False))
                  (modify (\<lambda>r. r\<lparr>rp_channel := Some channel, rp_closed := False\<rparr>)))))"

definition rpi_command :: "'g gpio_driver \<Rightarrow> bool \<Rightarrow> ('g rpi_relay, unit) prog" where
  "rpi_command D high =
     with_self (\<lambda>r.
       case rp_channel r of
         None \<Rightarrow> throw (RuntimeError ''relay has not been set up'')
       | Some channel \<Rightarrow>
           if rp_closed r then throw (RuntimeError ''relay has not been set up'')
           else on_gpio (gpio_output D channel high))"

definition rpi_cleanup :: "'g gpio_driver \<Rightarrow> ('g rpi_relay, unit) prog" where
  "rpi_cleanup D =
     with_self (\<lambda>r.
       case rp_channel r of
         None \<Rightarrow> skip
       | Some channel \<Rightarrow>
           if rp_closed r then skip
           else try_finally (on_gpio (gpio_output D channel False))
                  (sq (on_gpio (gpio_cleanup D channel))
                      (modify (rp_closed_update (\<lambda>_. True)))))"

text \<open>
  What the adapter relies on. \<open>pin g\<close> says whether channel 23 is driven high.
\<close>

locale gpio_contract =
  fixes D :: "'g gpio_driver" and pin :: "'g \<Rightarrow> bool"
  assumes output_returns: "gpio_output D 23 high g = (Inr u, g') \<Longrightarrow> pin g' = high"
    and output_raises: "gpio_output D 23 high g = (Inl e, g') \<Longrightarrow> pin g' = pin g \<or> pin g' = high"
    and setup_low: "gpio_setup_out D 23 False g = (x, g') \<Longrightarrow> pin g' \<Longrightarrow> pin g"
    and setwarnings_pin: "gpio_setwarnings D b g = (x, g') \<Longrightarrow> pin g' = pin g"
    and setmode_pin: "gpio_setmode_bcm D g = (x, g') \<Longrightarrow> pin g' = pin g"
    and cleanup_pin: "gpio_cleanup D 23 g = (x, g') \<Longrightarrow> pin g' \<Longrightarrow> pin g"

text \<open>
  Two further promises that some properties ask of a driver. It accepts the command LOW: it may
  raise at any other call, and setting up or cleaning up may fail. It fails cleanly: a write that
  raises has not moved the pin.
\<close>

definition accepts_low :: "'g gpio_driver \<Rightarrow> bool" where
  "accepts_low D \<longleftrightarrow> (\<forall>g. \<exists>g'. gpio_output D 23 False g = (Inr (), g'))"

definition fails_cleanly :: "'g gpio_driver \<Rightarrow> ('g \<Rightarrow> bool) \<Rightarrow> bool" where
  "fails_cleanly D pin \<longleftrightarrow>
     (\<forall>high g e g'. gpio_output D 23 high g = (Inl e, g') \<longrightarrow> pin g' = pin g)"

text \<open>The adapter only ever uses channel 23.\<close>

definition rpi_ok :: "'g rpi_relay \<Rightarrow> bool" where
  "rpi_ok r \<longleftrightarrow> rp_channel r = None \<or> rp_channel r = Some 23"


text \<open>An invariant of the relay object alone is kept by any call into the driver.\<close>

lemma keeps_on_gpio:
  "(\<And>r g. I r \<Longrightarrow> I (r\<lparr>rp_gpio := g\<rparr>)) \<Longrightarrow> keeps I (on_gpio m)"
  unfolding on_gpio_def by (rule keepsI) (auto simp: zoom_def split: prod.splits)

lemma rpi_keeps_ok:
  "keeps rpi_ok (rpi_setup D numbering channel)"
  "keeps rpi_ok (rpi_command D high)"
  "keeps rpi_ok (rpi_cleanup D)"
  unfolding rpi_setup_def rpi_command_def rpi_cleanup_def
  by (intro keeps_rules keeps_on_gpio; simp add: rpi_ok_def)+

text \<open>The pin stays low through a call of the driver that cannot raise it.\<close>

definition pin_low :: "('g \<Rightarrow> bool) \<Rightarrow> 'g rpi_relay \<Rightarrow> bool" where
  "pin_low pin r \<longleftrightarrow> rpi_ok r \<and> \<not> pin (rp_gpio r)"

lemma keeps_pin_low_on_gpio:
  assumes "\<And>g x g'. m g = (x, g') \<Longrightarrow> pin g' \<Longrightarrow> pin g"
  shows "keeps (pin_low pin) (on_gpio m)"
  unfolding on_gpio_def
  by (rule keepsI) (auto simp: zoom_def pin_low_def rpi_ok_def split: prod.splits dest: assms)

context gpio_contract begin

lemma output_low_pin: "gpio_output D 23 False g = (x, g') \<Longrightarrow> pin g' \<Longrightarrow> pin g"
  using output_returns [of False g] output_raises [of False g] by (cases x) auto

lemma rpi_setup_keeps_low: "keeps (pin_low pin) (rpi_setup D numbering channel)"
  unfolding rpi_setup_def
  by (intro keeps_rules keeps_pin_low_on_gpio)
    (auto simp: pin_low_def rpi_ok_def dest: setup_low setwarnings_pin setmode_pin)

lemma rpi_cleanup_keeps_low: "keeps (pin_low pin) (rpi_cleanup D)"
proof -
  have "keeps (pin_low pin) (try_finally (on_gpio (gpio_output D channel False))
      (sq (on_gpio (gpio_cleanup D channel)) (modify (rp_closed_update (\<lambda>_. True)))))"
    if "channel = 23" for channel
    using that by (intro keeps_rules keeps_pin_low_on_gpio)
      (auto simp: pin_low_def rpi_ok_def dest: output_low_pin cleanup_pin)
  then show ?thesis
    unfolding rpi_cleanup_def
    by (intro keeps_with_self) (auto simp: pin_low_def rpi_ok_def keeps_skip split: option.split)
qed

end

sublocale gpio_contract \<subseteq> rpi: relay_contract
  "rpi_setup D" "rpi_command D" "rpi_cleanup D" "\<lambda>r. pin (rp_gpio r)" rpi_ok
proof unfold_locales
  fix high r u r' assume "rpi_ok r" "rpi_command D high r = (Inr u, r')"
  then show "pin (rp_gpio r') = high"
    by (auto simp: rpi_command_def with_self_def throw_def rpi_ok_def on_gpio_def zoom_def
        dest: output_returns split: option.splits if_splits prod.splits)
next
  fix high r e r' assume "rpi_ok r" "rpi_command D high r = (Inl e, r')"
  then show "pin (rp_gpio r') = pin (rp_gpio r) \<or> pin (rp_gpio r') = high"
    by (auto simp: rpi_command_def with_self_def throw_def rpi_ok_def on_gpio_def zoom_def
        dest: output_raises split: option.splits if_splits prod.splits)
next
  fix r numbering channel x r'
  assume "rpi_ok r" "rpi_setup D numbering channel r = (x, r')" "pin (rp_gpio r')"
  then show "pin (rp_gpio r)"
    using keepsD [OF rpi_setup_keeps_low] unfolding pin_low_def by blast
next
  fix r x r' assume "rpi_ok r" "rpi_cleanup D r = (x, r')" "pin (rp_gpio r')"
  then show "pin (rp_gpio r)"
    using keepsD [OF rpi_cleanup_keeps_low] unfolding pin_low_def by blast
qed (rule rpi_keeps_ok)+

section \<open>The recording driver\<close>

text \<open>
  The driver of the hardware tests (\<open>FakeGpio\<close>): every call is recorded. The schedule lists
  the outcome of the coming calls: \<open>None\<close> for a normal return, \<open>Some (e, b)\<close> for a call that
  raises \<open>e\<close>, having taken effect on the pin or not. A driver whose schedule is used up
  returns normally.
\<close>

datatype gpio_call =
    SetWarnings bool
  | SetModeBcm
  | SetupOut int bool
  | Output int bool
  | Cleanup int

record recording_gpio =
  rg_calls :: "gpio_call list"
  rg_schedule :: "(exn \<times> bool) option list"
  rg_pin :: bool

definition recorded :: "gpio_call \<Rightarrow> (bool \<Rightarrow> bool) \<Rightarrow> (recording_gpio, unit) prog" where
  "recorded call effect g =
     (let g' = g\<lparr>rg_calls := rg_calls g @ [call], rg_schedule := tl (rg_schedule g)\<rparr>
      in case rg_schedule g of
           Some (e, took_effect) # _ \<Rightarrow>
             (Inl e, if took_effect then rg_pin_update effect g' else g')
         | _ \<Rightarrow> (Inr (), rg_pin_update effect g'))"

definition recording_driver :: "recording_gpio gpio_driver" where
  "recording_driver =
     \<lparr>gpio_setwarnings = (\<lambda>b. recorded (SetWarnings b) (\<lambda>p. p)),
      gpio_setmode_bcm = recorded SetModeBcm (\<lambda>p. p),
      gpio_setup_out = (\<lambda>ch initial. recorded (SetupOut ch initial)
        (\<lambda>p. if ch = 23 then initial else p)),
      gpio_output = (\<lambda>ch high. recorded (Output ch high) (\<lambda>p. if ch = 23 then high else p)),
      gpio_cleanup = (\<lambda>ch. recorded (Cleanup ch) (\<lambda>p. if ch = 23 then False else p))\<rparr>"

lemmas recording_defs = recording_driver_def recorded_def

lemma recorded_calls: "recorded call effect g = (x, g') \<Longrightarrow> rg_calls g' = rg_calls g @ [call]"
  by (auto simp: recorded_def Let_def split: list.splits option.splits if_splits)

lemma recorded_pin:
  "recorded call effect g = (x, g') \<Longrightarrow> rg_pin g' = effect (rg_pin g) \<or> rg_pin g' = rg_pin g"
  by (auto simp: recorded_def Let_def split: list.splits option.splits if_splits)

lemma recorded_returns: "recorded call effect g = (Inr u, g') \<Longrightarrow> rg_pin g' = effect (rg_pin g)"
  by (auto simp: recorded_def Let_def split: list.splits option.splits if_splits)

interpretation recording: gpio_contract recording_driver rg_pin
  by unfold_locales
    (auto simp: recording_driver_def dest: recorded_returns recorded_pin)

lemmas [run_simps] =
  on_gpio_def [THEN fun_cong] rpi_setup_def [THEN fun_cong] rpi_command_def [THEN fun_cong]
  rpi_cleanup_def [THEN fun_cong] recorded_def

lemma recording_driver_run [run_simps]:
  "gpio_setwarnings recording_driver = (\<lambda>b. recorded (SetWarnings b) (\<lambda>p. p))"
  "gpio_setmode_bcm recording_driver = recorded SetModeBcm (\<lambda>p. p)"
  "gpio_setup_out recording_driver =
     (\<lambda>ch initial. recorded (SetupOut ch initial) (\<lambda>p. if ch = 23 then initial else p))"
  "gpio_output recording_driver =
     (\<lambda>ch high. recorded (Output ch high) (\<lambda>p. if ch = 23 then high else p))"
  "gpio_cleanup recording_driver =
     (\<lambda>ch. recorded (Cleanup ch) (\<lambda>p. if ch = 23 then False else p))"
  by (simp_all add: recording_driver_def)

section \<open>A driver that accepts LOW\<close>

text \<open>The recording driver, except that commanding LOW never fails.\<close>

definition patient_driver :: "recording_gpio gpio_driver" where
  "patient_driver = recording_driver
     \<lparr>gpio_output := (\<lambda>ch high g.
        if high then recorded (Output ch True) (\<lambda>p. if ch = 23 then True else p) g
        else (Inr (), g\<lparr>rg_calls := rg_calls g @ [Output ch False],
                        rg_pin := (if ch = 23 then False else rg_pin g)\<rparr>))\<rparr>"

interpretation patient_gpio: gpio_contract patient_driver rg_pin
  by unfold_locales
    (auto simp: patient_driver_def recording_driver_def dest: recorded_returns recorded_pin
      split: if_splits)

lemma patient_accepts_low: "accepts_low patient_driver"
  by (simp add: accepts_low_def patient_driver_def)

lemma patient_run [run_simps]:
  "gpio_setwarnings patient_driver = (\<lambda>b. recorded (SetWarnings b) (\<lambda>p. p))"
  "gpio_setmode_bcm patient_driver = recorded SetModeBcm (\<lambda>p. p)"
  "gpio_setup_out patient_driver =
     (\<lambda>ch initial. recorded (SetupOut ch initial) (\<lambda>p. if ch = 23 then initial else p))"
  "gpio_output patient_driver ch high g =
     (if high then recorded (Output ch True) (\<lambda>p. if ch = 23 then True else p) g
      else (Inr (), g\<lparr>rg_calls := rg_calls g @ [Output ch False],
                      rg_pin := (if ch = 23 then False else rg_pin g)\<rparr>))"
  "gpio_cleanup patient_driver =
     (\<lambda>ch. recorded (Cleanup ch) (\<lambda>p. if ch = 23 then False else p))"
  by (simp_all add: patient_driver_def recording_driver_def)

end
