(* ===== verification/Ports.thy ===== *)
theory Ports
  imports Audit_Events Relay_Gpio
begin

text \<open>
  The protocols of \<open>interfaces.py\<close> that the access controller is written against. A
  \<open>ports\<close> record collects the methods the controller calls, over the state \<open>'w\<close> of
  everything behind them (clock, relay, audit sink, notification queue, authorization
  store). The locale \<open>controller_ports\<close> states what the controller relies on: the relay
  obeys \<open>relay_contract\<close>, no other port moves the relay, and the audit sink appends.
\<close>

datatype authorization_outcome = AUTHORIZED | DENIED | UNKNOWN

fun outcome_value :: "authorization_outcome \<Rightarrow> string" where
  "outcome_value AUTHORIZED = ''authorized''"
| "outcome_value DENIED = ''denied''"
| "outcome_value UNKNOWN = ''unknown''"

text \<open>
  \<open>p_uuid\<close> is the default factory of \<open>AuditEvent.event_id\<close>, \<open>str(uuid4())\<close>.
\<close>

record 'w ports =
  p_monotonic :: "('w, seconds) prog"
  p_now :: "('w, datetime) prog"
  p_uuid :: "('w, string) prog"
  p_relay_setup :: "string \<Rightarrow> int \<Rightarrow> ('w, unit) prog"
  p_relay_command :: "bool \<Rightarrow> ('w, unit) prog"
  p_relay_cleanup :: "('w, unit) prog"
  p_audit_append :: "audit_event \<Rightarrow> ('w, unit) prog"
  p_enqueue :: "audit_event \<Rightarrow> ('w, unit) prog"
  p_classify :: "string \<Rightarrow> ('w, authorization_outcome) prog"

section \<open>The AuditSink protocol\<close>

text \<open>
  An append that returns has added the event at the end of the trail. An append that raises
  has added it or not, and has changed nothing else of the trail. \<open>entry\<close> is the form in
  which the sink keeps an event.
\<close>

locale audit_port =
  fixes append_op :: "audit_event \<Rightarrow> ('s, unit) prog"
    and trail :: "'s \<Rightarrow> 'e list"
    and entry :: "audit_event \<Rightarrow> 'e"
  assumes append_returns: "append_op ev s = (Inr u, s') \<Longrightarrow> trail s' = trail s @ [entry ev]"
    and append_raises:
      "append_op ev s = (Inl e, s') \<Longrightarrow> trail s' = trail s \<or> trail s' = trail s @ [entry ev]"
begin

lemma append_trail:
  "append_op ev s = (r, s') \<Longrightarrow> trail s' = trail s \<or> trail s' = trail s @ [entry ev]"
  using append_returns append_raises by (cases r) auto

text \<open>A property that every appended entry has is kept by the trail.\<close>

lemma append_keeps_all:
  "Q (entry ev) \<Longrightarrow> keeps (\<lambda>s. \<forall>x\<in>set (trail s). Q x) (append_op ev)"
  by (rule keepsI) (auto dest!: append_trail)

text \<open>The trail only grows.\<close>

lemma append_grows: "append_op ev s = (r, s') \<Longrightarrow> \<exists>new. trail s' = trail s @ new"
  by (auto dest!: append_trail)

end

section \<open>The ports of the controller\<close>

locale controller_ports =
  relay_contract "p_relay_setup P" "p_relay_command P" "p_relay_cleanup P" level inv +
  audit_port "p_audit_append P" trail entry
  for P :: "'w ports" and level :: "'w \<Rightarrow> bool" and inv :: "'w \<Rightarrow> bool"
    and trail :: "'w \<Rightarrow> 'e list" and entry :: "audit_event \<Rightarrow> 'e" +
  assumes monotonic_inv: "keeps inv (p_monotonic P)"
    and now_inv: "keeps inv (p_now P)"
    and uuid_inv: "keeps inv (p_uuid P)"
    and append_inv: "keeps inv (p_audit_append P ev)"
    and enqueue_inv: "keeps inv (p_enqueue P ev)"
    and classify_inv: "keeps inv (p_classify P credential)"
    and monotonic_level: "preserves level (p_monotonic P)"
    and now_level: "preserves level (p_now P)"
    and uuid_level: "preserves level (p_uuid P)"
    and append_level: "preserves level (p_audit_append P ev)"
    and enqueue_level: "preserves level (p_enqueue P ev)"
    and classify_level: "preserves level (p_classify P credential)"
    and monotonic_trail: "preserves trail (p_monotonic P)"
    and now_trail: "preserves trail (p_now P)"
    and uuid_trail: "preserves trail (p_uuid P)"
    and setup_trail: "preserves trail (p_relay_setup P numbering channel)"
    and command_trail: "preserves trail (p_relay_command P high)"
    and cleanup_trail: "preserves trail (p_relay_cleanup P)"
    and enqueue_trail: "preserves trail (p_enqueue P ev)"
    and classify_trail: "preserves trail (p_classify P credential)"
begin

lemmas port_inv =
  monotonic_inv now_inv uuid_inv append_inv enqueue_inv classify_inv
  setup_inv command_inv cleanup_inv

lemmas port_level =
  monotonic_level now_level uuid_level append_level enqueue_level classify_level

lemmas port_trail =
  monotonic_trail now_trail uuid_trail setup_trail command_trail cleanup_trail
  enqueue_trail classify_trail

end

end
