(* ===== verification/Escalation.thy ===== *)
theory Escalation
  imports Prelude
begin

text \<open>
  \<open>escalation.py\<close>: the policy and the tracker of suspicious credential activity. The
  tracker keeps a deque pruned to the critical window; \<open>history_level\<close> is the
  specification over the whole unpruned history, and the refinement lemma says that the
  tracker computes it on every sequence of non-decreasing timestamps.
\<close>

datatype escalation_level = NONE | WARNING | CRITICAL

text \<open>\<open>EscalationLevel\<close> is an \<open>IntEnum\<close>: levels compare as 0, 1, 2.\<close>

fun level_value :: "escalation_level \<Rightarrow> int" where
  "level_value NONE = 0"
| "level_value WARNING = 1"
| "level_value CRITICAL = 2"

instantiation escalation_level :: linorder
begin

definition less_eq_escalation_level :: "escalation_level \<Rightarrow> escalation_level \<Rightarrow> bool" where
  "x \<le> y \<longleftrightarrow> level_value x \<le> level_value y"

definition less_escalation_level :: "escalation_level \<Rightarrow> escalation_level \<Rightarrow> bool" where
  "x < y \<longleftrightarrow> level_value x < level_value y"

instance
proof
  fix x y :: escalation_level
  assume "x \<le> y" and "y \<le> x"
  then show "x = y" by (cases x; cases y) (simp_all add: less_eq_escalation_level_def)
qed (auto simp: less_eq_escalation_level_def less_escalation_level_def)

end

lemmas level_order_defs = less_eq_escalation_level_def less_escalation_level_def

record escalation_policy =
  warning_count :: int
  warning_window :: seconds
  critical_count :: int
  critical_window :: seconds
  reset_after :: seconds

definition default_escalation_policy :: escalation_policy where
  "default_escalation_policy =
     \<lparr>warning_count = 3, warning_window = 60, critical_count = 5, critical_window = 300,
      reset_after = 900\<rparr>"

text \<open>\<open>EscalationPolicy.__post_init__\<close>.\<close>

definition check_escalation_policy :: "escalation_policy \<Rightarrow> exn + escalation_policy" where
  "check_escalation_policy p =
     (if warning_count p \<le> 0 \<or> critical_count p \<le> warning_count p
      then Inl (ValueError ''escalation thresholds must be positive and increasing'')
      else if warning_window p \<le> 0 \<or> critical_window p < warning_window p \<or> reset_after p \<le> 0
      then Inl (ValueError ''escalation windows must be positive and ordered'')
      else Inr p)"

record escalation_tracker =
  tr_policy :: escalation_policy
  tr_events :: "seconds list"
  tr_level :: escalation_level
  tr_last_event :: "seconds option"

definition new_tracker :: "escalation_policy \<Rightarrow> escalation_tracker" where
  "new_tracker p = \<lparr>tr_policy = p, tr_events = [], tr_level = NONE, tr_last_event = None\<rparr>"

text \<open>\<open>while self._events and self._events[0] < oldest: self._events.popleft()\<close>.\<close>

fun popleft_while :: "seconds \<Rightarrow> seconds list \<Rightarrow> seconds list" where
  "popleft_while oldest [] = []"
| "popleft_while oldest (e # es) = (if e < oldest then popleft_while oldest es else e # es)"

definition count_since :: "seconds \<Rightarrow> seconds list \<Rightarrow> int" where
  "count_since t es = int (length (filter (\<lambda>e. t \<le> e) es))"

definition record_suspicious ::
  "seconds \<Rightarrow> escalation_tracker \<Rightarrow> escalation_level \<times> escalation_tracker" where
  "record_suspicious timestamp tr =
     (let p = tr_policy tr;
          quiet = (case tr_last_event tr of
                     None \<Rightarrow> False
                   | Some previous \<Rightarrow> reset_after p \<le> timestamp - previous);
          events = (if quiet then [] else tr_events tr);
          level = (if quiet then NONE else tr_level tr);
          kept = popleft_while (timestamp - critical_window p) (events @ [timestamp]);
          criticals = count_since (timestamp - critical_window p) kept;
          warnings = count_since (timestamp - warning_window p) kept;
          new_level = (if critical_count p \<le> criticals then CRITICAL
                       else if warning_count p \<le> warnings then max level WARNING
                       else level);
          changed = (if level < new_level then new_level else NONE)
      in (changed,
          tr\<lparr>tr_events := kept, tr_level := new_level, tr_last_event := Some timestamp\<rparr>))"

text \<open>The equation used for evaluation: it applies to a given tracker only.\<close>

lemma record_suspicious_code [code]:
  "record_suspicious timestamp
     \<lparr>tr_policy = p, tr_events = es, tr_level = l, tr_last_event = last_event\<rparr> =
     (let quiet = (case last_event of
                     None \<Rightarrow> False
                   | Some previous \<Rightarrow> reset_after p \<le> timestamp - previous);
          level = (if quiet then NONE else l);
          kept = popleft_while (timestamp - critical_window p)
                   ((if quiet then [] else es) @ [timestamp]);
          new_level = (if critical_count p \<le> count_since (timestamp - critical_window p) kept
                       then CRITICAL
                       else if warning_count p \<le> count_since (timestamp - warning_window p) kept
                       then max level WARNING
                       else level)
      in (if level < new_level then new_level else NONE,
          \<lparr>tr_policy = p, tr_events = kept, tr_level = new_level, tr_last_event = Some timestamp\<rparr>))"
  by (simp add: record_suspicious_def Let_def)

text \<open>A sequence of events, with the level each of them announces.\<close>

fun record_all ::
  "seconds list \<Rightarrow> escalation_tracker \<Rightarrow> escalation_level list \<times> escalation_tracker" where
  "record_all [] tr = ([], tr)"
| "record_all (t # ts) tr =
     (case record_suspicious t tr of (l, tr') \<Rightarrow>
        (case record_all ts tr' of (ls, tr'') \<Rightarrow> (l # ls, tr'')))"

section \<open>The specification over the whole history\<close>

text \<open>
  Histories are written latest event first. A burst is the part of the history since the last
  quiet period of at least \<open>reset_after\<close>. The declared level of a burst is the highest alarm
  that any of its moments raises, counting every event of the burst in the window before it.
\<close>

fun burst :: "escalation_policy \<Rightarrow> seconds list \<Rightarrow> seconds list" where
  "burst p [] = []"
| "burst p [t] = [t]"
| "burst p (t # u # us) = (if reset_after p \<le> t - u then [t] else t # burst p (u # us))"

fun critical_at :: "escalation_policy \<Rightarrow> seconds list \<Rightarrow> bool" where
  "critical_at p [] = False"
| "critical_at p (t # ts) \<longleftrightarrow> critical_count p \<le> count_since (t - critical_window p) (t # ts)"

fun warning_at :: "escalation_policy \<Rightarrow> seconds list \<Rightarrow> bool" where
  "warning_at p [] = False"
| "warning_at p (t # ts) \<longleftrightarrow> warning_count p \<le> count_since (t - warning_window p) (t # ts)"

fun at_some_moment :: "(seconds list \<Rightarrow> bool) \<Rightarrow> seconds list \<Rightarrow> bool" where
  "at_some_moment P [] = False"
| "at_some_moment P (t # ts) = (P (t # ts) \<or> at_some_moment P ts)"

definition declared_level :: "escalation_policy \<Rightarrow> seconds list \<Rightarrow> escalation_level" where
  "declared_level p ts =
     (if at_some_moment (critical_at p) ts then CRITICAL
      else if at_some_moment (warning_at p) ts then WARNING
      else NONE)"

definition policy_ok :: "escalation_policy \<Rightarrow> bool" where
  "policy_ok p \<longleftrightarrow> check_escalation_policy p = Inr p"

lemma policy_ok_conv:
  "policy_ok p \<longleftrightarrow> 0 < warning_count p \<and> warning_count p < critical_count p \<and>
     0 < warning_window p \<and> warning_window p \<le> critical_window p \<and> 0 < reset_after p"
  by (auto simp: policy_ok_def check_escalation_policy_def)

section \<open>The tracker computes the specification\<close>

lemma popleft_while_sorted:
  "sorted es \<Longrightarrow> popleft_while b es = filter (\<lambda>e. b \<le> e) es"
proof (induction es)
  case (Cons e es)
  then show ?case
    by (cases "e < b") (auto intro!: filter_True [symmetric])
qed simp

lemma count_since_rev [simp]: "count_since b (rev es) = count_since b es"
  by (simp add: count_since_def rev_filter [symmetric])

lemma count_since_filter: "c \<le> b \<Longrightarrow> count_since b (filter (\<lambda>e. c \<le> e) es) = count_since b es"
  by (simp add: count_since_def) (metis order.trans)

lemma burst_hd: "h \<noteq> [] \<Longrightarrow> \<exists>us. burst p h = hd h # us"
  by (induction p h rule: burst.induct) auto

lemma set_burst: "set (burst p h) \<subseteq> set h"
  by (induction p h rule: burst.induct) auto

lemma sorted_rev_burst: "sorted (rev h) \<Longrightarrow> sorted (rev (burst p h))"
  by (induction p h rule: burst.induct) (use set_burst in \<open>fastforce simp: sorted_append\<close>)+

text \<open>The state of a tracker that has recorded the history \<open>h\<close>.\<close>

definition tracks :: "escalation_policy \<Rightarrow> seconds list \<Rightarrow> escalation_tracker \<Rightarrow> bool" where
  "tracks p h tr \<longleftrightarrow>
     tr_policy tr = p \<and> sorted (rev h) \<and>
     tr_last_event tr = (case h of [] \<Rightarrow> None | t # _ \<Rightarrow> Some t) \<and>
     tr_events tr = rev (filter (\<lambda>e. hd h - critical_window p \<le> e) (burst p h)) \<and>
     tr_level tr = declared_level p (burst p h)"

lemma tracks_new: "tracks p [] (new_tracker p)"
  by (simp add: tracks_def new_tracker_def declared_level_def)

lemma burst_Cons:
  "burst p (t # h) =
     (case h of [] \<Rightarrow> [t] | u # us \<Rightarrow> if reset_after p \<le> t - u then [t] else t # burst p h)"
  by (cases h) auto

lemma declared_level_Cons:
  "declared_level p (t # ts) =
     (if critical_at p (t # ts) then CRITICAL
      else if warning_at p (t # ts) then max (declared_level p ts) WARNING
      else declared_level p ts)"
  by (auto simp: declared_level_def max_def level_order_defs)

definition quiet_before :: "escalation_policy \<Rightarrow> seconds \<Rightarrow> seconds list \<Rightarrow> bool" where
  "quiet_before p t h \<longleftrightarrow> h \<noteq> [] \<and> reset_after p \<le> t - hd h"

text \<open>The burst that an event at \<open>t\<close> continues: nothing after a quiet period.\<close>

definition open_burst :: "escalation_policy \<Rightarrow> seconds \<Rightarrow> seconds list \<Rightarrow> seconds list" where
  "open_burst p t h = (if quiet_before p t h then [] else burst p h)"

lemma burst_open: "burst p (t # h) = t # open_burst p t h"
  by (cases h) (auto simp: open_burst_def quiet_before_def)

lemma pruned_burst:
  assumes "sorted (rev h)" "h \<noteq> [] \<Longrightarrow> hd h \<le> t" "0 < critical_window p"
  shows "popleft_while (t - critical_window p)
           (rev (filter (\<lambda>e. hd h - critical_window p \<le> e) (open_burst p t h)) @ [t]) =
         rev (filter (\<lambda>e. t - critical_window p \<le> e) (t # open_burst p t h))"
proof -
  let ?b = "open_burst p t h" and ?w = "critical_window p"
  have older: "e \<le> t" if "e \<in> set ?b" for e
  proof -
    have "e \<in> set h" using that set_burst by (auto simp: open_burst_def split: if_splits)
    then show ?thesis using assms(1,2) by (cases h) (auto simp: sorted_append)
  qed
  have "sorted (rev ?b)"
    using assms(1) by (simp add: open_burst_def sorted_rev_burst)
  then have "sorted (rev (filter (\<lambda>e. hd h - ?w \<le> e) ?b))"
    by (simp add: rev_filter sorted_wrt_filter)
  then have "sorted (rev (filter (\<lambda>e. hd h - ?w \<le> e) ?b) @ [t])"
    using older by (auto simp: sorted_append)
  moreover have "hd h - ?w \<le> e" if "t - ?w \<le> e" "e \<in> set ?b" for e
  proof -
    have "h \<noteq> []" using that(2) by (auto simp: open_burst_def split: if_splits)
    with assms(2) that(1) show ?thesis by simp
  qed
  then have "filter (\<lambda>e. t - ?w \<le> e) (filter (\<lambda>e. hd h - ?w \<le> e) ?b) = filter (\<lambda>e. t - ?w \<le> e) ?b"
    by (auto intro!: filter_cong)
  ultimately show ?thesis
    using assms(3) by (simp add: popleft_while_sorted rev_filter [symmetric])
qed

lemma tracks_step:
  assumes tr: "tracks p h tr" and p: "policy_ok p" and t: "h \<noteq> [] \<Longrightarrow> hd h \<le> t"
  shows "record_suspicious t tr =
    (let old = declared_level p (open_burst p t h); new = declared_level p (burst p (t # h))
     in (if old < new then new else NONE,
         tr\<lparr>tr_events := rev (filter (\<lambda>e. t - critical_window p \<le> e) (burst p (t # h))),
            tr_level := new, tr_last_event := Some t\<rparr>))"
proof -
  let ?b = "open_burst p t h"
  have quiet: "(case tr_last_event tr of None \<Rightarrow> False
      | Some previous \<Rightarrow> reset_after p \<le> t - previous) = quiet_before p t h"
    using tr by (cases h) (auto simp: tracks_def quiet_before_def)
  have events: "(if quiet_before p t h then [] else tr_events tr) =
      rev (filter (\<lambda>e. hd h - critical_window p \<le> e) ?b)"
    and level: "(if quiet_before p t h then NONE else tr_level tr) = declared_level p ?b"
    using tr by (auto simp: tracks_def open_burst_def declared_level_def)
  have kept: "popleft_while (t - critical_window p)
      (rev (filter (\<lambda>e. hd h - critical_window p \<le> e) ?b) @ [t]) =
      rev (filter (\<lambda>e. t - critical_window p \<le> e) (t # ?b))"
    using pruned_burst [OF _ t] tr p by (simp add: tracks_def policy_ok_conv)
  have counts: "count_since (t - critical_window p) (filter (\<lambda>e. t - critical_window p \<le> e) (t # ?b)) =
      count_since (t - critical_window p) (t # ?b)"
    "count_since (t - warning_window p) (filter (\<lambda>e. t - critical_window p \<le> e) (t # ?b)) =
      count_since (t - warning_window p) (t # ?b)"
    using p by (simp_all only: count_since_filter policy_ok_conv diff_left_mono order_refl)
  have policy: "tr_policy tr = p" using tr by (simp add: tracks_def)
  show ?thesis
    unfolding record_suspicious_def Let_def quiet policy events level kept burst_open
      declared_level_Cons count_since_rev counts critical_at.simps warning_at.simps
    by (rule refl)
qed

lemma tracks_record:
  assumes "tracks p h tr" "policy_ok p" "h \<noteq> [] \<Longrightarrow> hd h \<le> t"
  shows "tracks p (t # h) (snd (record_suspicious t tr))"
proof -
  have "sorted (rev (t # h))"
    using assms(1,3) by (cases h) (auto simp: tracks_def sorted_append)
  then show ?thesis
    using assms(1) by (simp add: tracks_step [OF assms] Let_def) (simp add: tracks_def)
qed


lemma record_all_Cons:
  "record_all (t # ts) tr =
     (fst (record_suspicious t tr) # fst (record_all ts (snd (record_suspicious t tr))),
      snd (record_all ts (snd (record_suspicious t tr))))"
  by (simp split: prod.splits)

declare record_all.simps(2) [simp del]

lemma tracks_record_all:
  assumes "tracks p h tr" "policy_ok p" "sorted (rev h @ ts)"
  shows "tracks p (rev ts @ h) (snd (record_all ts tr))"
  using assms
proof (induction ts arbitrary: h tr)
  case (Cons t ts)
  have "hd h \<le> t" if "h \<noteq> []"
    using Cons.prems(3) that by (cases h) (auto simp: sorted_append)
  then have "tracks p (t # h) (snd (record_suspicious t tr))"
    using tracks_record Cons.prems by blast
  then have "tracks p (rev ts @ t # h) (snd (record_all ts (snd (record_suspicious t tr))))"
    using Cons.IH Cons.prems by simp
  then show ?case by (simp add: record_all_Cons)
qed simp

text \<open>
  C16. After any sequence of suspicious events in time order, the level of the tracker is the
  level the specification declares for the whole unpruned burst, and the deque holds exactly the
  events of the burst inside the critical window.
\<close>

theorem tracker_implements_history:
  assumes "policy_ok p" and "sorted ts"
  shows "let tr = snd (record_all ts (new_tracker p)); b = burst p (rev ts)
         in tr_level tr = declared_level p b \<and>
            tr_events tr = rev (filter (\<lambda>e. last ts - critical_window p \<le> e) b)"
  using tracks_record_all [OF tracks_new assms(1), of ts] assms(2)
  by (cases ts rule: rev_cases) (simp_all add: Let_def tracks_def)

section \<open>Announcements\<close>

lemma declared_level_mono: "declared_level p ts \<le> declared_level p (t # ts)"
  by (auto simp: declared_level_def level_order_defs)

lemma length_burst: "length (burst p h) \<le> length h"
  by (induction p h rule: burst.induct) auto

lemma burst_suffix: "burst p (xs @ ys) = xs @ ys \<Longrightarrow> burst p ys = ys"
proof (induction xs)
  case (Cons x xs)
  have "burst p (xs @ ys) = xs @ ys"
  proof (cases "quiet_before p x (xs @ ys)")
    case True
    with Cons.prems have "xs @ ys = []" by (simp add: burst_open open_burst_def)
    then show ?thesis by simp
  next
    case False
    with Cons.prems show ?thesis by (simp add: burst_open open_burst_def)
  qed
  then show ?case by (rule Cons.IH)
qed simp

lemma announcements_from:
  assumes "tracks p h tr" "policy_ok p" "sorted (rev h @ ts)" "burst p (rev ts @ h) = rev ts @ h"
  shows "sorted_wrt (<) (declared_level p h # filter (\<lambda>l. l \<noteq> NONE) (fst (record_all ts tr)))"
  using assms
proof (induction ts arbitrary: h tr)
  case (Cons t ts)
  have t: "hd h \<le> t" if "h \<noteq> []"
    using Cons.prems(3) that by (cases h) (auto simp: sorted_append)
  have b: "burst p (t # h) = t # h"
    using burst_suffix [of p "rev ts" "t # h"] Cons.prems(4) by simp
  then have old: "open_burst p t h = h" by (simp add: burst_open)
  let ?tr = "snd (record_suspicious t tr)"
  have "sorted_wrt (<) (declared_level p (t # h) # filter (\<lambda>l. l \<noteq> NONE) (fst (record_all ts ?tr)))"
    using Cons.IH [of "t # h" ?tr] Cons.prems tracks_record [OF Cons.prems(1,2) t] by simp
  moreover have "fst (record_suspicious t tr) =
      (if declared_level p h < declared_level p (t # h) then declared_level p (t # h) else NONE)"
    using tracks_step [OF Cons.prems(1,2) t] by (simp add: Let_def old b)
  moreover have "declared_level p h \<le> declared_level p (t # h)" by (rule declared_level_mono)
  ultimately show ?case by (auto simp: record_all_Cons)
qed simp

text \<open>
  Within one burst the announced levels strictly increase: at most one warning, and at most
  one critical escalation, which nothing follows.
\<close>

theorem announcements_increase_within_burst:
  assumes "policy_ok p" and "sorted ts" and "burst p (rev ts) = rev ts"
  shows "sorted_wrt (<) (filter (\<lambda>l. l \<noteq> NONE) (fst (record_all ts (new_tracker p))))"
  using announcements_from [OF tracks_new assms(1), of ts] assms(2,3) by simp

theorem tracker_implements_history_witness:
  "let tr = snd (record_all [0, 10, 20, 400, 1300] (new_tracker default_escalation_policy));
       b = burst default_escalation_policy (rev [0, 10, 20, 400, 1300])
   in tr_level tr = declared_level default_escalation_policy b \<and>
      tr_events tr =
        rev (filter (\<lambda>e. last [0, 10, 20, 400, 1300] - critical_window default_escalation_policy \<le> e) b)"
proof (rule tracker_implements_history)
  show "policy_ok default_escalation_policy"
    by (simp add: policy_ok_conv default_escalation_policy_def)
  show "sorted [0, 10, 20, 400, 1300 :: seconds]" by simp
qed

theorem announcements_increase_within_burst_witness:
  "sorted_wrt (<) (filter (\<lambda>l. l \<noteq> NONE)
     (fst (record_all [0, 10, 20, 30, 40, 50] (new_tracker default_escalation_policy))))"
proof (rule announcements_increase_within_burst)
  show "policy_ok default_escalation_policy"
    by (simp add: policy_ok_conv default_escalation_policy_def)
  show "sorted [0, 10, 20, 30, 40, 50 :: seconds]" by simp
  show "burst default_escalation_policy (rev [0, 10, 20, 30, 40, 50]) = rev [0, 10, 20, 30, 40, 50]"
    by (simp add: default_escalation_policy_def)
qed

end
