(* ===== verification/Access_Controller.thy ===== *)
theory Access_Controller
  imports Ports Reader_Records Escalation
begin

text \<open>
  \<open>AccessController\<close> of \<open>controller.py\<close>: every operation of the class over the record
  \<open>controller\<close>, whose field \<open>ct_env\<close> is the state behind its ports. The lemmas about any
  ports that obey \<open>controller_ports\<close> stand in the context of that locale; the worlds the
  program builds are in \<open>Controller_Worlds\<close>.
\<close>

datatype controller_state =
  INITIALIZING | READY | RELEASED | FAULTED | SHUTTING_DOWN | STOPPED

fun controller_state_value :: "controller_state \<Rightarrow> string" where
  "controller_state_value INITIALIZING = ''initializing''"
| "controller_state_value READY = ''ready''"
| "controller_state_value RELEASED = ''released''"
| "controller_state_value FAULTED = ''faulted''"
| "controller_state_value SHUTTING_DOWN = ''shutting_down''"
| "controller_state_value STOPPED = ''stopped''"

datatype physical_release_status = NOT_REQUESTED | ASSERTED | ALREADY_RELEASED | ACTUATION_FAILED

fun release_status_value :: "physical_release_status \<Rightarrow> string" where
  "release_status_value NOT_REQUESTED = ''not_requested''"
| "release_status_value ASSERTED = ''asserted''"
| "release_status_value ALREADY_RELEASED = ''already_released''"
| "release_status_value ACTUATION_FAILED = ''actuation_failed''"

datatype relay_word = CommandReleased | CommandSecured

fun relay_word_value :: "relay_word \<Rightarrow> string" where
  "relay_word_value CommandReleased = ''released''"
| "relay_word_value CommandSecured = ''secured''"

datatype access_result =
  AccessResult (ar_authorization: "authorization_outcome option")
    (ar_release: physical_release_status)

record controller_snapshot =
  cs_state :: controller_state
  cs_release_active :: bool
  cs_release_deadline :: "seconds option"
  cs_release_remaining :: "seconds option"
  cs_release_seconds :: seconds
  cs_last_relay_command :: "relay_word option"
  cs_last_processed_at :: "datetime option"

record 'w controller =
  ct_state :: controller_state
  ct_deadline :: "seconds option"
  ct_last_high :: "bool option"
  ct_last_processed :: "datetime option"
  ct_release_seconds :: seconds
  ct_gpio_channel :: int
  ct_escalation :: escalation_tracker
  ct_env :: 'w

text \<open>\<open>AccessController.__init__\<close>; the ports are the state \<open>w\<close> behind them.\<close>

definition new_controller ::
  "'w \<Rightarrow> escalation_tracker \<Rightarrow> seconds \<Rightarrow> int \<Rightarrow> exn + 'w controller" where
  "new_controller w escalation release_seconds channel =
     (if release_seconds \<le> 0 then Inl (ValueError ''release duration must be positive'')
      else Inr \<lparr>ct_state = INITIALIZING, ct_deadline = None, ct_last_high = None,
                ct_last_processed = None, ct_release_seconds = release_seconds,
                ct_gpio_channel = channel, ct_escalation = escalation, ct_env = w\<rparr>)"

definition env :: "('w, 'a) prog \<Rightarrow> ('w controller, 'a) prog" where
  "env m = zoom ct_env ct_env_update m"

definition set_state :: "controller_state \<Rightarrow> ('w controller, unit) prog" where
  "set_state s = modify (ct_state_update (\<lambda>_. s))"

definition controller_snapshot :: "'w ports \<Rightarrow> ('w controller, controller_snapshot) prog" where
  "controller_snapshot P =
     with_self (\<lambda>c.
       bnd (case ct_deadline c of
              None \<Rightarrow> ret None
            | Some deadline \<Rightarrow>
                bnd (env (p_monotonic P)) (\<lambda>now. ret (Some (max 0 (deadline - now)))))
           (\<lambda>remaining.
              ret \<lparr>cs_state = ct_state c,
                   cs_release_active = (ct_state c = RELEASED),
                   cs_release_deadline = ct_deadline c,
                   cs_release_remaining = remaining,
                   cs_release_seconds = ct_release_seconds c,
                   cs_last_relay_command =
                     (case ct_last_high c of
                        Some True \<Rightarrow> Some CommandReleased
                      | Some False \<Rightarrow> Some CommandSecured
                      | None \<Rightarrow> None),
                   cs_last_processed_at = ct_last_processed c\<rparr>))"

section \<open>Auditing\<close>

definition new_event ::
  "'w ports \<Rightarrow> event_type \<Rightarrow> severity \<Rightarrow> correlation \<Rightarrow> ('w controller, audit_event) prog" where
  "new_event P et sev correlation =
     bnd (env (p_now P)) (\<lambda>now.
       bnd (env (p_uuid P)) (\<lambda>uid.
         with_self (\<lambda>c.
           (case post_init
               \<lparr>ev_event_type = et, ev_severity = sev, ev_timestamp = now,
                ev_correlation = correlation, ev_reader_state = None,
                ev_controller_state = Some (controller_state_value (ct_state c)),
                ev_delivery_status = None, ev_event_id = uid\<rparr> of
              Inl e \<Rightarrow> throw e
            | Inr event \<Rightarrow> ret event))))"

definition audit ::
  "'w ports \<Rightarrow> event_type \<Rightarrow> severity \<Rightarrow> correlation \<Rightarrow> ('w controller, unit) prog" where
  "audit P et sev correlation =
     bnd (new_event P et sev correlation) (\<lambda>event. env (p_audit_append P event))"

text \<open>\<open>{"reason": r}\<close>.\<close>

definition reason_of :: "string \<Rightarrow> correlation" where
  "reason_of r = [(''reason'', JStr r)]"

definition record_suspicious_activity :: "'w ports \<Rightarrow> ('w controller, unit) prog" where
  "record_suspicious_activity P =
     bnd (env (p_monotonic P)) (\<lambda>now.
       with_self (\<lambda>c.
         (case record_suspicious now (ct_escalation c) of (escalation, tracker) \<Rightarrow>
            sq (modify (ct_escalation_update (\<lambda>_. tracker)))
               (case escalation of
                  NONE \<Rightarrow> skip
                | WARNING \<Rightarrow> audit P ESCALATION_WARNING SevWarning []
                | CRITICAL \<Rightarrow>
                    bnd (new_event P ESCALATION_CRITICAL SevCritical []) (\<lambda>event.
                      sq (env (p_audit_append P event))
                         (try_except is_exception (env (p_enqueue P event))
                            (\<lambda>_. audit P NOTIFICATION_DELIVERY_FAILED SevError
                                   (reason_of ''queue_unavailable''))))))))"

section \<open>The relay\<close>

text \<open>\<open>self._relay.command(high); self._last_relay_command_high = high\<close>.\<close>

definition command_relay :: "'w ports \<Rightarrow> bool \<Rightarrow> ('w controller, unit) prog" where
  "command_relay P high =
     sq (env (p_relay_command P high)) (modify (ct_last_high_update (\<lambda>_. Some high)))"

definition attempt_safe_state :: "'w ports \<Rightarrow> ('w controller, bool) prog" where
  "attempt_safe_state P =
     try_except is_exception (sq (command_relay P False) (ret True))
       (\<lambda>_. sq (audit P RELAY_CONTROL_ERROR SevCritical (reason_of ''low_failed'')) (ret False))"

section \<open>Operations\<close>

definition start :: "'w ports \<Rightarrow> ('w controller, unit) prog" where
  "start P =
     with_self (\<lambda>c.
       if ct_state c = READY \<or> ct_state c = RELEASED then skip
       else if ct_state c \<noteq> INITIALIZING
       then throw (RuntimeError ''controller cannot be restarted'')
       else
         sq (try_except is_exception (env (p_relay_setup P ''BCM'' (ct_gpio_channel c)))
               (\<lambda>e. sq (set_state FAULTED)
                      (sq (audit P RELAY_CONTROL_ERROR SevCritical (reason_of ''setup_failed''))
                          (throw e))))
        (sq (try_except is_exception (command_relay P False)
               (\<lambda>e. sq (set_state FAULTED)
                      (sq (audit P RELAY_CONTROL_ERROR SevCritical (reason_of ''low_failed''))
                          (throw e))))
        (sq (set_state READY) (audit P SERVICE_STARTED SevInfo []))))"

text \<open>The reasons that are audited as they are; any other becomes \<open>malformed_record\<close>.\<close>

definition audited_reasons :: "string list" where
  "audited_reasons =
     [''invalid_length'', ''invalid_framing'', ''invalid_terminator'', ''invalid_encoding'',
      ''invalid_identifier'', ''invalid_checksum_encoding'', ''checksum_mismatch'',
      ''excessive_length'']"

definition safe_reason :: "string \<Rightarrow> string" where
  "safe_reason r = (if r \<in> set audited_reasons then r else ''malformed_record'')"

text \<open>The relay is commanded HIGH and the release begins.\<close>

definition release :: "'w ports \<Rightarrow> ('w controller, access_result) prog" where
  "release P =
     with_self (\<lambda>c.
       bnd (try_except is_exception (sq (command_relay P True) (ret True))
             (\<lambda>_. sq (audit P RELAY_CONTROL_ERROR SevCritical (reason_of ''high_failed''))
                 (bnd (attempt_safe_state P) (\<lambda>_.
                   sq (set_state FAULTED) (ret False)))))
           (\<lambda>asserted.
             if \<not> asserted then ret (AccessResult (Some AUTHORIZED) ACTUATION_FAILED)
             else
               bnd (env (p_monotonic P)) (\<lambda>t.
                 sq (modify (ct_deadline_update (\<lambda>_. Some (t + ct_release_seconds c))))
                (sq (set_state RELEASED)
                (sq (audit P RELAY_ASSERTED SevInfo
                      [(''duration_seconds'', JFloat (ct_release_seconds c))])
                    (ret (AccessResult (Some AUTHORIZED) ASSERTED)))))))"

text \<open>What follows the classification of a credential.\<close>

definition respond ::
  "'w ports \<Rightarrow> authorization_outcome \<Rightarrow> ('w controller, access_result) prog" where
  "respond P outcome =
     (if outcome = DENIED
      then sq (audit P CREDENTIAL_DENIED SevWarning [])
          (sq (record_suspicious_activity P) (ret (AccessResult (Some outcome) NOT_REQUESTED)))
      else if outcome = UNKNOWN
      then sq (audit P CREDENTIAL_UNKNOWN SevWarning [])
          (sq (record_suspicious_activity P) (ret (AccessResult (Some outcome) NOT_REQUESTED)))
      else
        sq (audit P CREDENTIAL_AUTHORIZED SevInfo [])
           (with_self (\<lambda>c.
             if ct_state c = RELEASED then ret (AccessResult (Some outcome) ALREADY_RELEASED)
             else release P)))"

definition process_parsed :: "'w ports \<Rightarrow> string \<Rightarrow> ('w controller, access_result) prog" where
  "process_parsed P cred =
     bnd (env (p_classify P cred)) (\<lambda>outcome.
     bnd (env (p_now P)) (\<lambda>now.
     sq (modify (ct_last_processed_update (\<lambda>_. Some now))) (respond P outcome)))"

definition process :: "'w ports \<Rightarrow> record_result \<Rightarrow> ('w controller, access_result) prog" where
  "process P record =
     with_self (\<lambda>c.
       if ct_state c \<noteq> READY \<and> ct_state c \<noteq> RELEASED
       then throw (RuntimeError ''controller is not accepting credentials'')
       else (case record of
               MalformedRecord why \<Rightarrow>
                 sq (audit P MALFORMED_RECORD SevWarning (reason_of (safe_reason why)))
                (sq (record_suspicious_activity P) (ret (AccessResult None NOT_REQUESTED)))
             | ParsedRecord cred \<Rightarrow> process_parsed P cred))"

definition tick :: "'w ports \<Rightarrow> ('w controller, unit) prog" where
  "tick P =
     with_self (\<lambda>c.
       if ct_state c \<noteq> RELEASED then skip
       else (case ct_deadline c of
               None \<Rightarrow> skip
             | Some deadline \<Rightarrow>
                 bnd (env (p_monotonic P)) (\<lambda>now.
                   if now < deadline then skip
                   else
                     bnd (try_except is_exception (sq (command_relay P False) (ret True))
                           (\<lambda>_. sq (set_state FAULTED)
                               (sq (audit P RELAY_CONTROL_ERROR SevCritical
                                      (reason_of ''low_failed''))
                                   (ret False))))
                         (\<lambda>restored.
                           if \<not> restored then skip
                           else sq (modify (ct_deadline_update (\<lambda>_. None)))
                               (sq (set_state READY) (audit P RELAY_RESTORED SevInfo []))))))"

definition recoverable_failure :: "'w ports \<Rightarrow> ('w controller, unit) prog" where
  "recoverable_failure P =
     bnd (attempt_safe_state P) (\<lambda>_.
       sq (modify (ct_deadline_update (\<lambda>_. None)))
      (sq (set_state FAULTED) (audit P RELAY_CONTROL_ERROR SevError [])))"

definition shutdown :: "'w ports \<Rightarrow> ('w controller, unit) prog" where
  "shutdown P =
     with_self (\<lambda>c.
       if ct_state c = STOPPED then skip
       else
         sq (set_state SHUTTING_DOWN)
        (bnd (attempt_safe_state P) (\<lambda>safe.
           sq (modify (ct_deadline_update (\<lambda>_. None)))
          (bnd (try_except is_exception (sq (env (p_relay_cleanup P)) (ret True))
                 (\<lambda>_. sq (audit P RELAY_CONTROL_ERROR SevCritical (reason_of ''cleanup_failed''))
                        (ret False)))
               (\<lambda>cleanup_ok.
                 if safe \<and> cleanup_ok
                 then sq (set_state STOPPED) (audit P SERVICE_SHUTDOWN SevInfo [])
                 else set_state FAULTED)))))"

text \<open>
  For evaluation the operations are unfolded only where they are applied to a state.
\<close>

lemmas controller_code [code, run_simps] =
  new_event_def [THEN fun_cong] audit_def [THEN fun_cong]
  record_suspicious_activity_def [THEN fun_cong] command_relay_def [THEN fun_cong]
  attempt_safe_state_def [THEN fun_cong] start_def [THEN fun_cong] release_def [THEN fun_cong]
  respond_def [THEN fun_cong] process_parsed_def [THEN fun_cong] process_def [THEN fun_cong]
  tick_def [THEN fun_cong] recoverable_failure_def [THEN fun_cong] shutdown_def [THEN fun_cong]
  controller_snapshot_def [THEN fun_cong]

lemmas [run_simps] = env_def [THEN fun_cong] set_state_def [THEN fun_cong]

lemma env_lazy [run_congs]: "s = t \<Longrightarrow> env m s = env m t"
  by simp

lemma private_reason_of [run_simps]:
  "private_correlation (reason_of r) \<longleftrightarrow> r \<in> set allowed_reasons"
  by (simp add: private_correlation_iff reason_of_def allowed_correlation_keys_def
      reason_allowed_def)

end
