(* ===== verification/Controller_Invariants.thy ===== *)
theory Controller_Invariants
  imports Access_Controller
begin

text \<open>
  What holds of the access controller over any ports that obey \<open>controller_ports\<close>: the
  frame of its helpers, the privacy of the trail, who may raise the relay, the agreement
  between the controller's state and the relay, and the state machine.
\<close>

section \<open>Frames\<close>

lemma keeps_env: "keeps J m \<Longrightarrow> keeps (\<lambda>c. J (ct_env c)) (env m)"
  unfolding env_def by (rule keeps_zoom [where J = J]) auto

lemma preserves_env: "(\<And>c w. f (ct_env_update w c) = f c) \<Longrightarrow> preserves f (env m)"
  unfolding env_def by (rule preserves_zoom) simp

lemma preserves_env_part: "preserves g m \<Longrightarrow> preserves (\<lambda>c. g (ct_env c)) (env m)"
  unfolding env_def by (rule preserves_zoom_part [where g = g]) auto

lemma triple_env:
  "triple J m Q E \<Longrightarrow>
   triple (\<lambda>c. J (ct_env c)) (env m) (\<lambda>x c. Q x (ct_env c)) (\<lambda>e c. E e (ct_env c))"
  unfolding triple_def env_def zoom_def by (fastforce split: prod.splits sum.splits)

text \<open>
  The vocabulary of the audit trail: what an event may say besides its type, its severity and its
  time. A correlation has at most one entry: an allow-listed reason, the number of the connection
  attempt or the duration of the release. The states are the words of the enumerations, and the
  identifier is one that was drawn.
\<close>

definition correlation_shape :: "correlation \<Rightarrow> bool" where
  "correlation_shape corr \<longleftrightarrow>
     corr = [] \<or> (\<exists>r. corr = [(''reason'', JStr r)]) \<or>
     (\<exists>n. corr = [(''attempt'', JInt n)]) \<or> (\<exists>t. corr = [(''duration_seconds'', JFloat t)])"

definition reader_words :: "string set" where
  "reader_words = {''connecting'', ''ready'', ''degraded'', ''stopped''}"

definition public_event :: "string set \<Rightarrow> audit_event \<Rightarrow> bool" where
  "public_event drawn ev \<longleftrightarrow>
     aware (ev_timestamp ev) \<and>
     (ev_correlation ev = [] \<or>
      (\<exists>r\<in>set allowed_reasons. ev_correlation ev = [(''reason'', JStr r)]) \<or>
      (\<exists>n. ev_correlation ev = [(''attempt'', JInt n)]) \<or>
      (\<exists>t. ev_correlation ev = [(''duration_seconds'', JFloat t)])) \<and>
     (ev_reader_state ev = None \<or> (\<exists>x\<in>reader_words. ev_reader_state ev = Some x)) \<and>
     (\<exists>x. ev_controller_state ev = Some (controller_state_value x)) \<and>
     ev_delivery_status ev = None \<and> ev_event_id ev \<in> drawn"

text \<open>The identifiers that the ports can draw.\<close>

definition drawn_ids :: "'w ports \<Rightarrow> string set" where
  "drawn_ids P = {uid. \<exists>w w'. p_uuid P w = (Inr uid, w')}"

lemma public_eventI:
  assumes "event_ok ev" and "correlation_shape (ev_correlation ev)"
    and "ev_reader_state ev = None \<or> (\<exists>x\<in>reader_words. ev_reader_state ev = Some x)"
    and "\<exists>x. ev_controller_state ev = Some (controller_state_value x)"
    and "ev_delivery_status ev = None" and "ev_event_id ev \<in> drawn"
  shows "public_event drawn ev"
  using assms by (auto simp: public_event_def event_ok_def correlation_shape_def
      private_correlation_iff reason_allowed_def)

lemma public_event_ok: "public_event drawn ev \<Longrightarrow> event_ok ev"
  by (auto simp: public_event_def event_ok_def private_correlation_iff reason_allowed_def
      allowed_correlation_keys_def)

lemma shape_rules:
  "correlation_shape []" "correlation_shape (reason_of r)"
  "correlation_shape [(''attempt'', JInt n)]" "correlation_shape [(''duration_seconds'', JFloat t)]"
  by (simp_all add: correlation_shape_def reason_of_def)

text \<open>Every event the controller builds has passed the privacy checks.\<close>

lemma new_event_ok:
  "new_event P et sev correlation c = (Inr ev, c') \<Longrightarrow>
   event_ok ev \<and> ev_event_type ev = et \<and> ev_severity ev = sev \<and> ev_correlation ev = correlation"
  by (auto simp: new_event_def prog_simps env_def zoom_def post_init_Inr
      split: prod.splits sum.splits)

lemma new_event_public:
  assumes "new_event P et sev corr c = (Inr ev, c')" and "correlation_shape corr"
  shows "public_event (drawn_ids P) ev"
proof (rule public_eventI)
  show "event_ok ev" "correlation_shape (ev_correlation ev)"
    using new_event_ok [OF assms(1)] assms(2) by simp_all
qed (use assms(1) in \<open>auto simp: new_event_def prog_simps env_def zoom_def post_init_Inr
      drawn_ids_def intro!: exI split: prod.splits sum.splits\<close>)

lemma preserves_new_event:
  "(\<And>c w. f (ct_env_update w c) = f c) \<Longrightarrow> preserves f (new_event P et sev correlation)"
  unfolding new_event_def by (intro preserves_rules preserves_env)

lemma preserves_audit:
  "(\<And>c w. f (ct_env_update w c) = f c) \<Longrightarrow> preserves f (audit P et sev correlation)"
  unfolding audit_def by (intro preserves_rules preserves_env preserves_new_event)

lemma preserves_command_relay:
  "(\<And>c w. f (ct_env_update w c) = f c) \<Longrightarrow> (\<And>c h. f (ct_last_high_update h c) = f c) \<Longrightarrow>
   preserves f (command_relay P high)"
  unfolding command_relay_def by (intro preserves_rules preserves_env)

lemma preserves_attempt_safe_state:
  "(\<And>c w. f (ct_env_update w c) = f c) \<Longrightarrow> (\<And>c h. f (ct_last_high_update h c) = f c) \<Longrightarrow>
   preserves f (attempt_safe_state P)"
  unfolding attempt_safe_state_def
  by (intro preserves_rules preserves_audit preserves_command_relay)

lemma preserves_record_suspicious_activity:
  "(\<And>c w. f (ct_env_update w c) = f c) \<Longrightarrow> (\<And>c t. f (ct_escalation_update t c) = f c) \<Longrightarrow>
   preserves f (record_suspicious_activity P)"
proof -
  assume f: "\<And>c w. f (ct_env_update w c) = f c" "\<And>c t. f (ct_escalation_update t c) = f c"
  have "preserves f (case l of NONE \<Rightarrow> skip
      | WARNING \<Rightarrow> audit P ESCALATION_WARNING SevWarning []
      | CRITICAL \<Rightarrow> bnd (new_event P ESCALATION_CRITICAL SevCritical []) (\<lambda>event.
          sq (env (p_audit_append P event))
             (try_except is_exception (env (p_enqueue P event))
                (\<lambda>_. audit P NOTIFICATION_DELIVERY_FAILED SevError
                       (reason_of ''queue_unavailable'')))))" for l
    by (cases l) (auto intro!: preserves_rules preserves_env preserves_new_event preserves_audit f)
  then show ?thesis
    unfolding record_suspicious_activity_def
    by (intro preserves_rules preserves_env f) (auto intro!: preserves_rules f split: prod.split)
qed

text \<open>The same for an invariant of the environment that every port keeps.\<close>

definition ports_keep :: "'w ports \<Rightarrow> (bool \<Rightarrow> bool) \<Rightarrow> ('w \<Rightarrow> bool) \<Rightarrow> bool" where
  "ports_keep P allowed J \<longleftrightarrow>
     keeps J (p_monotonic P) \<and> keeps J (p_now P) \<and> keeps J (p_uuid P) \<and>
     (\<forall>ev. public_event (drawn_ids P) ev \<longrightarrow> keeps J (p_audit_append P ev)) \<and>
     (\<forall>ev. public_event (drawn_ids P) ev \<longrightarrow> keeps J (p_enqueue P ev)) \<and>
     (\<forall>cred. keeps J (p_classify P cred)) \<and>
     (\<forall>n ch. keeps J (p_relay_setup P n ch)) \<and>
     (\<forall>high. allowed high \<longrightarrow> keeps J (p_relay_command P high)) \<and>
     keeps J (p_relay_cleanup P)"

lemma ports_keepD:
  assumes "ports_keep P allowed J"
  shows "keeps J (p_monotonic P)" "keeps J (p_now P)" "keeps J (p_uuid P)"
    "public_event (drawn_ids P) ev \<Longrightarrow> keeps J (p_audit_append P ev)"
    "public_event (drawn_ids P) ev \<Longrightarrow> keeps J (p_enqueue P ev)"
    "keeps J (p_classify P cred)" "keeps J (p_relay_setup P n ch)"
    "allowed high \<Longrightarrow> keeps J (p_relay_command P high)" "keeps J (p_relay_cleanup P)"
  using assms by (auto simp: ports_keep_def)

lemma keeps_new_event:
  assumes "ports_keep P allowed J" and "correlation_shape correlation"
  shows "triple (\<lambda>c. J (ct_env c)) (new_event P et sev correlation)
    (\<lambda>ev c. J (ct_env c) \<and> public_event (drawn_ids P) ev) (\<lambda>e c. J (ct_env c))"
proof -
  have k: "keeps (\<lambda>c. J (ct_env c)) (new_event P et sev correlation)"
    unfolding new_event_def by (intro keeps_rules keeps_env ports_keepD [OF assms(1)])
  show ?thesis
    by (rule tripleI) (auto dest: keepsD [OF k] new_event_public [OF _ assms(2)])
qed

lemma keeps_audit:
  assumes "ports_keep P allowed J" and "correlation_shape correlation"
  shows "keeps (\<lambda>c. J (ct_env c)) (audit P et sev correlation)"
  unfolding audit_def
  by (rule keeps_bnd_value [OF keeps_new_event [OF assms]])
    (rule keeps_env, rule ports_keepD [OF assms(1)])

lemma keeps_record_suspicious_activity:
  assumes "ports_keep P allowed J"
  shows "keeps (\<lambda>c. J (ct_env c)) (record_suspicious_activity P)"
proof -
  have "keeps (\<lambda>c. J (ct_env c)) (case l of NONE \<Rightarrow> skip
      | WARNING \<Rightarrow> audit P ESCALATION_WARNING SevWarning []
      | CRITICAL \<Rightarrow> bnd (new_event P ESCALATION_CRITICAL SevCritical []) (\<lambda>event.
          sq (env (p_audit_append P event))
             (try_except is_exception (env (p_enqueue P event))
                (\<lambda>_. audit P NOTIFICATION_DELIVERY_FAILED SevError
                       (reason_of ''queue_unavailable'')))))" for l
  proof (cases l)
    case CRITICAL
    then show ?thesis
      by (simp, intro keeps_bnd_value [OF keeps_new_event [OF assms]] keeps_rules keeps_env
          keeps_audit [OF assms] ports_keepD [OF assms] shape_rules)
  qed (simp_all add: keeps_skip keeps_audit [OF assms] shape_rules)
  then show ?thesis
    unfolding record_suspicious_activity_def
    by (intro keeps_rules keeps_env ports_keepD [OF assms])
      (auto intro!: keeps_rules split: prod.split)
qed

lemma keeps_command_relay:
  assumes "ports_keep P allowed J" and "allowed high"
  shows "keeps (\<lambda>c. J (ct_env c)) (command_relay P high)"
  unfolding command_relay_def
  by (intro keeps_rules keeps_env ports_keepD [OF assms(1)] assms(2)) simp

lemma keeps_attempt_safe_state:
  assumes "ports_keep P allowed J" and "allowed False"
  shows "keeps (\<lambda>c. J (ct_env c)) (attempt_safe_state P)"
  unfolding attempt_safe_state_def
  by (intro keeps_rules keeps_command_relay [OF assms] keeps_audit [OF assms(1)] shape_rules)

section \<open>What every operation keeps\<close>

lemma keeps_start:
  assumes "ports_keep P allowed J" and "allowed False"
  shows "keeps (\<lambda>c. J (ct_env c)) (start P)"
  unfolding start_def set_state_def
  by (intro keeps_rules keeps_command_relay [OF assms] keeps_audit [OF assms(1)] keeps_env
      ports_keepD [OF assms(1)] shape_rules) simp_all

lemma keeps_tick:
  assumes "ports_keep P allowed J" and "allowed False"
  shows "keeps (\<lambda>c. J (ct_env c)) (tick P)"
  unfolding tick_def set_state_def
  by (intro keeps_rules keeps_command_relay [OF assms] keeps_audit [OF assms(1)] keeps_env
      ports_keepD [OF assms(1)] shape_rules) simp_all

lemma keeps_recoverable_failure:
  assumes "ports_keep P allowed J" and "allowed False"
  shows "keeps (\<lambda>c. J (ct_env c)) (recoverable_failure P)"
  unfolding recoverable_failure_def set_state_def
  by (intro keeps_rules keeps_attempt_safe_state [OF assms] keeps_audit [OF assms(1)] shape_rules) simp_all

lemma keeps_shutdown:
  assumes "ports_keep P allowed J" and "allowed False"
  shows "keeps (\<lambda>c. J (ct_env c)) (shutdown P)"
  unfolding shutdown_def set_state_def
  by (intro keeps_rules keeps_attempt_safe_state [OF assms] keeps_audit [OF assms(1)] keeps_env
      ports_keepD [OF assms(1)] shape_rules) simp_all

lemma keeps_release:
  assumes "ports_keep P allowed J" and "allowed False" and "allowed True"
  shows "keeps (\<lambda>c. J (ct_env c)) (release P)"
  unfolding release_def set_state_def
  by (intro keeps_rules keeps_attempt_safe_state [OF assms(1,2)] keeps_command_relay
      [OF assms(1,3)] keeps_audit [OF assms(1)] keeps_env ports_keepD [OF assms(1)] shape_rules)
    simp_all

lemma keeps_respond:
  assumes "ports_keep P allowed J" and "allowed False" and "outcome = AUTHORIZED \<Longrightarrow> allowed True"
  shows "keeps (\<lambda>c. J (ct_env c)) (respond P outcome)"
  unfolding respond_def
  by (cases outcome) (auto intro!: keeps_rules keeps_release [OF assms(1,2)] assms(3)
      keeps_audit [OF assms(1)] keeps_record_suspicious_activity [OF assms(1)] shape_rules)

lemma keeps_process_parsed:
  assumes "ports_keep P allowed J" and "allowed False" and "allowed True"
  shows "keeps (\<lambda>c. J (ct_env c)) (process_parsed P cred)"
  unfolding process_parsed_def
  by (intro keeps_rules keeps_respond [OF assms(1,2)] keeps_env ports_keepD [OF assms(1)]
      assms(3)) simp_all

lemma keeps_process:
  assumes "ports_keep P allowed J" and "allowed False" and "allowed True"
  shows "keeps (\<lambda>c. J (ct_env c)) (process P r)"
  unfolding process_def
  by (cases r) (auto intro!: keeps_rules keeps_process_parsed [OF assms]
      keeps_audit [OF assms(1)] keeps_record_suspicious_activity [OF assms(1)] shape_rules)

text \<open>A record that is malformed never leads to the command HIGH.\<close>

lemma keeps_process_malformed:
  assumes "ports_keep P allowed J"
  shows "keeps (\<lambda>c. J (ct_env c)) (process P (MalformedRecord why))"
  unfolding process_def
  by (auto intro!: keeps_rules keeps_audit [OF assms] keeps_record_suspicious_activity [OF assms]
      shape_rules)

lemma keeps_controller_snapshot:
  assumes "ports_keep P allowed J"
  shows "keeps (\<lambda>c. J (ct_env c)) (controller_snapshot P)"
  unfolding controller_snapshot_def
  by (intro keeps_rules keeps_env ports_keepD [OF assms])

section \<open>The public interface\<close>

text \<open>
  The calls that the rest of the program makes on the controller; their values are dropped.
\<close>

datatype controller_call = Start | Process record_result | Tick | RecoverableFailure | Shutdown

fun perform :: "'w ports \<Rightarrow> controller_call \<Rightarrow> ('w controller, unit) prog" where
  "perform P Start = start P"
| "perform P (Process record) = bnd (process P record) (\<lambda>_. skip)"
| "perform P Tick = tick P"
| "perform P RecoverableFailure = recoverable_failure P"
| "perform P Shutdown = shutdown P"

text \<open>Calls one after the other, whether they return or raise.\<close>

fun perform_all :: "'w ports \<Rightarrow> controller_call list \<Rightarrow> 'w controller \<Rightarrow> 'w controller" where
  "perform_all P [] c = c"
| "perform_all P (x # xs) c = perform_all P xs (final (perform P x c))"

lemma keeps_perform:
  assumes "ports_keep P allowed J" and "allowed False" and "allowed True"
  shows "keeps (\<lambda>c. J (ct_env c)) (perform P x)"
  by (cases x)
    (auto intro!: keeps_rules keeps_start [OF assms(1,2)] keeps_process [OF assms]
      keeps_tick [OF assms(1,2)] keeps_recoverable_failure [OF assms(1,2)]
      keeps_shutdown [OF assms(1,2)])

lemma keeps_perform_all:
  "(\<And>x. keeps I (perform P x)) \<Longrightarrow> I c \<Longrightarrow> I (perform_all P xs c)"
proof (induction xs arbitrary: c)
  case (Cons x xs)
  then show ?case by (simp add: keeps_def)
qed simp

section \<open>Who may raise the relay\<close>

text \<open>The trail holds, after the entries \<open>old\<close>, an audited authorization.\<close>

definition authorization_audited ::
  "('w \<Rightarrow> 'e list) \<Rightarrow> (audit_event \<Rightarrow> 'e) \<Rightarrow> 'e list \<Rightarrow> 'w \<Rightarrow> bool" where
  "authorization_audited trail entry old w \<longleftrightarrow>
     (\<exists>ev new. event_ok ev \<and> ev_event_type ev = CREDENTIAL_AUTHORIZED \<and>
        trail w = old @ entry ev # new)"

text \<open>What follows once the credential has been classified.\<close>

definition after_classify ::
  "'w ports \<Rightarrow> authorization_outcome \<Rightarrow> ('w controller, access_result) prog" where
  "after_classify P outcome =
     bnd (env (p_now P)) (\<lambda>now.
       sq (modify (ct_last_processed_update (\<lambda>_. Some now))) (respond P outcome))"

lemma process_parsed_after_classify:
  "process_parsed P cred = bnd (env (p_classify P cred)) (after_classify P)"
  by (simp add: process_parsed_def after_classify_def [abs_def])

lemma process_ParsedRecord:
  "process P (ParsedRecord cred) c =
     (if ct_state c \<noteq> READY \<and> ct_state c \<noteq> RELEASED
      then (Inl (RuntimeError ''controller is not accepting credentials''), c)
      else (case p_classify P cred (ct_env c) of
              (Inl e, w) \<Rightarrow> (Inl e, c\<lparr>ct_env := w\<rparr>)
            | (Inr outcome, w) \<Rightarrow> after_classify P outcome (c\<lparr>ct_env := w\<rparr>)))"
  by (simp add: process_def process_parsed_after_classify with_self_def throw_def bnd_def
      env_def zoom_def split: prod.splits sum.splits)

lemma keeps_after_classify:
  assumes "ports_keep P allowed J" and "allowed False" and "outcome = AUTHORIZED \<Longrightarrow> allowed True"
  shows "keeps (\<lambda>c. J (ct_env c)) (after_classify P outcome)"
  unfolding after_classify_def
  by (intro keeps_rules keeps_respond [OF assms(1,2)] keeps_env ports_keepD [OF assms(1)]
      assms(3)) simp_all

text \<open>While a release is active an authorized credential does not reach the relay either.\<close>

lemma keeps_after_classify_released:
  assumes "ports_keep P allowed J"
  shows "keeps (\<lambda>c. J (ct_env c) \<and> ct_state c = RELEASED) (after_classify P outcome)"
proof -
  have s: "preserves ct_state (audit P et sev corr)" "preserves ct_state (record_suspicious_activity P)"
    "preserves ct_state (env m)" for et sev corr and m :: "('a, 'b) prog"
    by (rule preserves_audit preserves_record_suspicious_activity preserves_env; simp)+
  let ?I = "\<lambda>c. J (ct_env c) \<and> ct_state c = RELEASED"
  have a: "keeps ?I (audit P et sev corr)" if "correlation_shape corr" for et sev corr
    by (rule keeps_conj [OF keeps_audit [OF assms that]]) (rule preserves_keepsI [OF s(1)], simp)
  have r: "keeps ?I (record_suspicious_activity P)"
    by (rule keeps_conj [OF keeps_record_suspicious_activity [OF assms]])
      (rule preserves_keepsI [OF s(2)], simp)
  have n: "keeps ?I (env (p_now P))"
    by (rule keeps_conj [OF keeps_env [OF ports_keepD(2) [OF assms]]])
      (rule preserves_keepsI [OF preserves_env [of ct_state]], auto)
  show ?thesis
    unfolding after_classify_def respond_def
    by (intro keeps_rules a r n shape_rules) simp_all
qed

context controller_ports begin

lemma keep_inv: "ports_keep P (\<lambda>_. True) inv"
  by (simp add: ports_keep_def port_inv)

lemma keep_low: "ports_keep P (\<lambda>high. \<not> high) (\<lambda>w. inv w \<and> \<not> level w)"
  unfolding ports_keep_def
  by (auto intro!: keeps_conj port_inv low_keeps_low setup_keeps_low cleanup_keeps_low
      preserves_keeps_part [OF monotonic_level] preserves_keeps_part [OF now_level]
      preserves_keeps_part [OF uuid_level] preserves_keeps_part [OF append_level]
      preserves_keeps_part [OF enqueue_level] preserves_keeps_part [OF classify_level])

text \<open>An invariant of the trail is kept if appending keeps it.\<close>

lemma keep_trail_property:
  assumes "\<And>ev. public_event (drawn_ids P) ev \<Longrightarrow> keeps (\<lambda>w. Q (trail w)) (p_audit_append P ev)"
  shows "ports_keep P (\<lambda>_. True) (\<lambda>w. Q (trail w))"
  unfolding ports_keep_def
  by (auto intro!: assms
      preserves_keeps_part [OF monotonic_trail] preserves_keeps_part [OF now_trail]
      preserves_keeps_part [OF uuid_trail] preserves_keeps_part [OF setup_trail]
      preserves_keeps_part [OF command_trail] preserves_keeps_part [OF cleanup_trail]
      preserves_keeps_part [OF enqueue_trail] preserves_keeps_part [OF classify_trail])

lemma keep_trail:
  assumes "\<And>ev. public_event (drawn_ids P) ev \<Longrightarrow> Q (entry ev)"
  shows "ports_keep P (\<lambda>_. True) (\<lambda>w. \<forall>x\<in>set (trail w). Q x)"
  by (rule keep_trail_property) (rule append_keeps_all, rule assms)

lemma keep_authorization_audited:
  "ports_keep P (\<lambda>_. True) (authorization_audited trail entry old)"
proof -
  have "keeps (\<lambda>w. \<exists>ev new. event_ok ev \<and> ev_event_type ev = CREDENTIAL_AUTHORIZED \<and>
      trail w = old @ entry ev # new) (p_audit_append P ev)" for ev
    by (rule keepsI) (auto dest!: append_grows)
  then show ?thesis
    unfolding authorization_audited_def by (rule keep_trail_property)
qed

text \<open>Reading the clock and drawing an identifier change nothing observable.\<close>

lemma observation_keeps:
  "keeps (\<lambda>w. (inv w \<and> \<not> level w) \<and> trail w = old) (p_now P)"
  "keeps (\<lambda>w. (inv w \<and> \<not> level w) \<and> trail w = old) (p_uuid P)"
  by (intro keeps_conj now_inv uuid_inv preserves_keeps_part [OF now_level]
      preserves_keeps_part [OF uuid_level] preserves_keeps_part [OF now_trail]
      preserves_keeps_part [OF uuid_trail])+

lemma audit_authorization:
  "triple (\<lambda>c. (inv (ct_env c) \<and> \<not> level (ct_env c)) \<and> trail (ct_env c) = old)
     (audit P CREDENTIAL_AUTHORIZED sev correlation)
     (\<lambda>_ c. inv (ct_env c) \<and> authorization_audited trail entry old (ct_env c))
     (\<lambda>_ c. \<not> level (ct_env c))"
  unfolding audit_def
proof (rule triple_bnd)
  let ?I = "\<lambda>c. (inv (ct_env c) \<and> \<not> level (ct_env c)) \<and> trail (ct_env c) = old"
  have k: "keeps ?I (new_event P CREDENTIAL_AUTHORIZED sev correlation)"
    unfolding new_event_def
    by (intro keeps_rules keeps_env [OF observation_keeps(1)] keeps_env [OF observation_keeps(2)])
  show "triple ?I (new_event P CREDENTIAL_AUTHORIZED sev correlation)
      (\<lambda>ev c. ?I c \<and> event_ok ev \<and> ev_event_type ev = CREDENTIAL_AUTHORIZED)
      (\<lambda>_ c. \<not> level (ct_env c))"
    by (rule tripleI) (auto dest: keepsD [OF k] new_event_ok)
next
  fix ev
  have "triple (\<lambda>w. ((inv w \<and> \<not> level w) \<and> trail w = old) \<and> event_ok ev \<and>
        ev_event_type ev = CREDENTIAL_AUTHORIZED) (p_audit_append P ev)
      (\<lambda>_ w. inv w \<and> authorization_audited trail entry old w) (\<lambda>_ w. \<not> level w)"
    by (rule tripleI)
      (auto simp: authorization_audited_def dest: append_returns keepsD [OF append_inv]
        preservesD [OF append_level])
  then show "triple (\<lambda>c. ((inv (ct_env c) \<and> \<not> level (ct_env c)) \<and> trail (ct_env c) = old) \<and>
        event_ok ev \<and> ev_event_type ev = CREDENTIAL_AUTHORIZED) (env (p_audit_append P ev))
      (\<lambda>_ c. inv (ct_env c) \<and> authorization_audited trail entry old (ct_env c))
      (\<lambda>_ c. \<not> level (ct_env c))"
    by (rule triple_env)
qed

lemma authorized_after_classify:
  "triple (\<lambda>c. (inv (ct_env c) \<and> \<not> level (ct_env c)) \<and> trail (ct_env c) = old)
     (after_classify P AUTHORIZED)
     (\<lambda>_ c. level (ct_env c) \<longrightarrow> authorization_audited trail entry old (ct_env c))
     (\<lambda>_ c. level (ct_env c) \<longrightarrow> authorization_audited trail entry old (ct_env c))"
proof -
  let ?I = "\<lambda>c. (inv (ct_env c) \<and> \<not> level (ct_env c)) \<and> trail (ct_env c) = old"
  let ?A = "\<lambda>c. authorization_audited trail entry old (ct_env c)"
  let ?G = "\<lambda>c. level (ct_env c) \<longrightarrow> ?A c"
  have now: "triple ?I (env (p_now P)) (\<lambda>_. ?I) (\<lambda>_. ?G)"
    by (rule triple_conseq [OF triple_keeps [OF keeps_env [OF observation_keeps(1)]]]) auto
  have audit: "triple ?I (audit P CREDENTIAL_AUTHORIZED SevInfo [])
      (\<lambda>_ c. inv (ct_env c) \<and> ?A c) (\<lambda>_. ?G)"
    by (rule triple_conseq [OF audit_authorization]) auto
  have rest: "triple (\<lambda>c. inv (ct_env c) \<and> ?A c)
      (with_self (\<lambda>c. if ct_state c = RELEASED
         then ret (AccessResult (Some AUTHORIZED) ALREADY_RELEASED) else release P))
      (\<lambda>_. ?G) (\<lambda>_. ?G)"
    by (rule triple_conseq [OF triple_keeps [of "\<lambda>c. inv (ct_env c) \<and> ?A c"]])
      (auto intro!: keeps_rules keeps_conj keeps_release [OF keep_inv]
        keeps_release [OF keep_authorization_audited])
  have respond: "triple ?I (respond P AUTHORIZED) (\<lambda>_. ?G) (\<lambda>_. ?G)"
    using triple_sq [OF audit rest] by (simp add: respond_def)
  have note_time: "triple ?I (modify (ct_last_processed_update (\<lambda>_. t))) (\<lambda>_. ?I) (\<lambda>_. ?G)" for t
    by (rule triple_modify) simp
  show ?thesis
    unfolding after_classify_def
    by (rule triple_bnd [OF now]) (rule triple_sq [OF note_time respond])
qed

text \<open>
  A record that raises the relay carries a credential classified as authorized, arrived while
  the controller was ready, and its authorization was on the trail before the command HIGH.
\<close>

lemma raise_needs_authorization:
  assumes "inv (ct_env c)" and "\<not> level (ct_env c)"
    and run: "process P r c = (x, c')" and up: "level (ct_env c')"
  shows "\<exists>cred w. r = ParsedRecord cred \<and> ct_state c = READY \<and>
    p_classify P cred (ct_env c) = (Inr AUTHORIZED, w) \<and>
    authorization_audited trail entry (trail (ct_env c)) (ct_env c')"
proof (cases r)
  case (MalformedRecord why)
  then show ?thesis
    using keepsD [OF keeps_process_malformed [OF keep_low]] assms by blast
next
  case (ParsedRecord cred)
  obtain y w where cl: "p_classify P cred (ct_env c) = (y, w)" by force
  then have low: "inv w" "\<not> level w" "trail w = trail (ct_env c)"
    using assms(1,2) keepsD [OF classify_inv] preservesD [OF classify_level]
      preservesD [OF classify_trail] by blast+
  show ?thesis
  proof (cases "(ct_state c = READY \<or> ct_state c = RELEASED) \<and> (\<exists>o'. y = Inr o')")
    case False
    then show ?thesis
      using run up assms(2) ParsedRecord cl low
      by (auto simp: process_ParsedRecord split: if_splits sum.splits)
  next
    case True
    then obtain o' where y: "y = Inr o'" by blast
    have run': "after_classify P o' (c\<lparr>ct_env := w\<rparr>) = (x, c')"
      using run True ParsedRecord cl y by (auto simp: process_ParsedRecord)
    have "o' = AUTHORIZED"
    proof (rule ccontr)
      assume "o' \<noteq> AUTHORIZED"
      then have k: "keeps (\<lambda>c. inv (ct_env c) \<and> \<not> level (ct_env c)) (after_classify P o')"
        by (intro keeps_after_classify [OF keep_low]) auto
      show False using keepsD [OF k run'] low up by simp
    qed
    moreover have "ct_state c = READY"
    proof (rule ccontr)
      assume "ct_state c \<noteq> READY"
      then have "ct_state c = RELEASED" using True by blast
      then show False
        using keepsD [OF keeps_after_classify_released [OF keep_low] run'] low up by simp
    qed
    moreover have "authorization_audited trail entry (trail (ct_env c)) (ct_env c')"
      using triple_returns [OF authorized_after_classify, of "c\<lparr>ct_env := w\<rparr>" _ _ c']
        triple_raises [OF authorized_after_classify, of "c\<lparr>ct_env := w\<rparr>" _ _ c']
        run' up low \<open>o' = AUTHORIZED\<close> by (cases x) auto
    ultimately show ?thesis using ParsedRecord cl y by blast
  qed
qed

text \<open>Every other call leaves a low relay low.\<close>

lemma call_keeps_low:
  assumes "\<And>cred. x \<noteq> Process (ParsedRecord cred)"
  shows "keeps (\<lambda>c. inv (ct_env c) \<and> \<not> level (ct_env c)) (perform P x)"
proof (cases x)
  case (Process r)
  then obtain why where "r = MalformedRecord why" using assms by (cases r) auto
  then show ?thesis
    using Process by (simp add: keeps_bnd keeps_skip keeps_process_malformed [OF keep_low])
qed (simp_all add: keeps_start [OF keep_low] keeps_tick [OF keep_low]
    keeps_recoverable_failure [OF keep_low] keeps_shutdown [OF keep_low])

end

section \<open>The controller's state and the relay\<close>

text \<open>
  Between two calls: a relay that is high belongs to a release, or to a controller that has
  given up (faulted, or interrupted while shutting down); an active release has the relay high
  and a deadline; a controller that is ready, not started or stopped has no deadline left.
\<close>

definition agrees :: "controller_state \<Rightarrow> seconds option \<Rightarrow> bool \<Rightarrow> bool" where
  "agrees s d high \<longleftrightarrow>
     (high \<longrightarrow> s \<in> {RELEASED, FAULTED, SHUTTING_DOWN}) \<and>
     (s = RELEASED \<longrightarrow> high \<and> d \<noteq> None) \<and>
     (s \<in> {INITIALIZING, READY, STOPPED} \<longrightarrow> d = None)"

text \<open>
  The ports fail cleanly: a relay command that raises has left the output where it was, and the
  monotonic clock never raises.
\<close>

definition clean_failures :: "'w ports \<Rightarrow> ('w \<Rightarrow> bool) \<Rightarrow> ('w \<Rightarrow> bool) \<Rightarrow> bool" where
  "clean_failures P level ok \<longleftrightarrow>
     (\<forall>high w e w'. ok w \<longrightarrow> p_relay_command P high w = (Inl e, w') \<longrightarrow> level w' = level w) \<and>
     (\<forall>w e w'. p_monotonic P w \<noteq> (Inl e, w'))"

definition viewed ::
  "('w \<Rightarrow> bool) \<Rightarrow> ('w \<Rightarrow> bool) \<Rightarrow> (controller_state \<Rightarrow> seconds option \<Rightarrow> bool \<Rightarrow> bool) \<Rightarrow>
   'w controller \<Rightarrow> bool" where
  "viewed ok level V c \<longleftrightarrow>
     ok (ct_env c) \<and> V (ct_state c) (ct_deadline c) (level (ct_env c))"

lemma viewed_mono: "viewed ok level V c \<Longrightarrow> (\<And>s d l. V s d l \<Longrightarrow> U s d l) \<Longrightarrow> viewed ok level U c"
  by (simp add: viewed_def)

lemma triple_set_state:
  "(\<And>d l. \<exists>s. V s d l \<Longrightarrow> U s' d l) \<Longrightarrow>
   triple (viewed ok level V) (set_state s') (\<lambda>_. viewed ok level U) E"
  unfolding set_state_def by (rule triple_modify) (auto simp: viewed_def)

lemma triple_set_deadline:
  "(\<And>s d l. V s d l \<Longrightarrow> U s d' l) \<Longrightarrow>
   triple (viewed ok level V) (modify (ct_deadline_update (\<lambda>_. d'))) (\<lambda>_. viewed ok level U) E"
  by (rule triple_modify) (auto simp: viewed_def)

context controller_ports begin

abbreviation "view \<equiv> viewed inv level"

lemma keeps_view_env:
  assumes "keeps inv m" and "preserves level m"
  shows "keeps (view V) (env m)"
  unfolding viewed_def
proof (rule keeps_conj)
  show "keeps (\<lambda>c. inv (ct_env c)) (env m)" by (rule keeps_env [OF assms(1)])
  show "keeps (\<lambda>c. V (ct_state c) (ct_deadline c) (level (ct_env c))) (env m)"
  proof (rule keepsI)
    fix c x c' assume v: "V (ct_state c) (ct_deadline c) (level (ct_env c))"
      and run: "env m c = (x, c')"
    have "ct_state c' = ct_state c" "ct_deadline c' = ct_deadline c"
      "level (ct_env c') = level (ct_env c)"
      using preservesD [OF preserves_env [of ct_state m] run]
        preservesD [OF preserves_env [of ct_deadline m] run]
        preservesD [OF preserves_env_part [OF assms(2)] run] by simp_all
    with v show "V (ct_state c') (ct_deadline c') (level (ct_env c'))" by simp
  qed
qed

lemmas keeps_view_ports =
  keeps_view_env [OF monotonic_inv monotonic_level] keeps_view_env [OF now_inv now_level]
  keeps_view_env [OF uuid_inv uuid_level] keeps_view_env [OF append_inv append_level]
  keeps_view_env [OF enqueue_inv enqueue_level] keeps_view_env [OF classify_inv classify_level]

lemma keeps_view_new_event: "keeps (view V) (new_event P et sev corr)"
  unfolding new_event_def by (intro keeps_rules keeps_view_ports)

lemma keeps_view_audit: "keeps (view V) (audit P et sev corr)"
  unfolding audit_def by (intro keeps_rules keeps_view_ports keeps_view_new_event)

lemma keeps_view_suspicious: "keeps (view V) (record_suspicious_activity P)"
proof -
  have "keeps (view V) (case l of NONE \<Rightarrow> skip
      | WARNING \<Rightarrow> audit P ESCALATION_WARNING SevWarning []
      | CRITICAL \<Rightarrow> bnd (new_event P ESCALATION_CRITICAL SevCritical []) (\<lambda>event.
          sq (env (p_audit_append P event))
             (try_except is_exception (env (p_enqueue P event))
                (\<lambda>_. audit P NOTIFICATION_DELIVERY_FAILED SevError
                       (reason_of ''queue_unavailable'')))))" for l
    by (cases l)
      (auto intro!: keeps_rules keeps_view_audit keeps_view_new_event keeps_view_ports)
  then show ?thesis
    unfolding record_suspicious_activity_def
    by (intro keeps_rules keeps_view_ports)
      (auto intro!: keeps_rules simp: viewed_def split: prod.split)
qed

lemma triple_audit: "triple (view V) (audit P et sev corr) (\<lambda>_. view V) (\<lambda>_. view V)"
  by (rule triple_keeps [OF keeps_view_audit])

text \<open>A command that returns fixes the level; one that raises changes it only uncleanly.\<close>

lemma triple_command:
  assumes "\<And>s d l. V s d l \<Longrightarrow> U s d high"
    and "\<And>s d l. V s d l \<Longrightarrow> F s d l \<and> (\<not> clean_failures P level inv \<longrightarrow> F s d high)"
  shows "triple (view V) (command_relay P high) (\<lambda>_. view U) (\<lambda>_. view F)"
proof (rule tripleI)
  fix c x c' assume v: "view V c" and run: "command_relay P high c = (Inr x, c')"
  then obtain u w where w: "p_relay_command P high (ct_env c) = (Inr u, w)"
      "c' = c\<lparr>ct_env := w, ct_last_high := Some high\<rparr>"
    by (auto simp: command_relay_def sq_def bnd_def env_def zoom_def modify_def
        split: prod.splits sum.splits)
  then show "view U c'"
    using v command_returns keepsD [OF command_inv] assms(1) by (fastforce simp: viewed_def)
next
  fix c e c' assume v: "view V c" and run: "command_relay P high c = (Inl e, c')"
  then obtain w where w: "p_relay_command P high (ct_env c) = (Inl e, w)" "c' = c\<lparr>ct_env := w\<rparr>"
    by (auto simp: command_relay_def sq_def bnd_def env_def zoom_def modify_def
        split: prod.splits sum.splits)
  then have "level w = level (ct_env c) \<or> level w = high \<and> \<not> clean_failures P level inv"
    using v command_raises unfolding clean_failures_def viewed_def by blast
  then show "view F c'"
    using v w keepsD [OF command_inv w(1)] assms(2) by (auto simp: viewed_def)
qed

abbreviation "clean \<equiv> clean_failures P level inv"

lemma triple_guarded_command:
  assumes "\<And>s d l. V s d l \<Longrightarrow> U s d high"
    and "\<And>s d l. V s d l \<Longrightarrow> F s d l \<and> (\<not> clean \<longrightarrow> F s d high)"
    and h: "triple (view F) h (\<lambda>ok. view (if ok then U else B)) (\<lambda>_. view E)"
    and E: "\<And>s d l. F s d l \<Longrightarrow> E s d l"
  shows "triple (view V) (try_except is_exception (sq (command_relay P high) (ret True)) (\<lambda>_. h))
    (\<lambda>ok. view (if ok then U else B)) (\<lambda>_. view E)"
proof (rule triple_try_except)
  show "triple (view V) (sq (command_relay P high) (ret True)) (\<lambda>ok. view (if ok then U else B))
      (\<lambda>_. view F)"
    by (rule triple_sq [OF triple_command [where U = U]]) (auto simp: assms(1,2) intro: triple_ret)
  show "triple (view F) h (\<lambda>ok. view (if ok then U else B)) (\<lambda>_. view E)" by (rule h)
  show "\<And>c. view F c \<Longrightarrow> view E c" by (erule viewed_mono) (rule E)
qed

lemma triple_attempt_safe_state:
  assumes "\<And>s d l. V s d l \<Longrightarrow> U s d False"
    and "\<And>s d l. V s d l \<Longrightarrow> F s d l \<and> (\<not> clean \<longrightarrow> F s d False)"
  shows "triple (view V) (attempt_safe_state P) (\<lambda>safe. view (if safe then U else F)) (\<lambda>_. view F)"
proof -
  have "triple (view F) (sq (audit P RELAY_CONTROL_ERROR SevCritical (reason_of ''low_failed''))
      (ret False)) (\<lambda>safe. view (if safe then U else F)) (\<lambda>_. view F)"
    by (rule triple_sq [OF triple_audit]) (auto intro: triple_ret)
  then show ?thesis
    unfolding attempt_safe_state_def
    by (rule triple_guarded_command [rotated 2]) (use assms in blast)+
qed

text \<open>A faulted controller agrees with any relay.\<close>

abbreviation "faulted \<equiv> (\<lambda>s d l. s = FAULTED)"

lemma faulted_agrees: "view faulted c \<Longrightarrow> view agrees c"
  by (erule viewed_mono) (simp add: agrees_def)

lemma triple_fault:
  "triple (view V) (sq (set_state FAULTED) (audit P et sev corr)) (\<lambda>_. view faulted) (\<lambda>_. view agrees)"
proof (rule triple_sq)
  show "triple (view V) (set_state FAULTED) (\<lambda>_. view faulted) (\<lambda>_. view agrees)"
    by (rule triple_set_state) simp
  show "triple (view faulted) (audit P et sev corr) (\<lambda>_. view faulted) (\<lambda>_. view agrees)"
    by (rule triple_conseq [OF triple_audit [where V = faulted]]) (auto dest: faulted_agrees)
qed

lemma triple_fault_throw:
  "triple (view V) (sq (set_state FAULTED) (sq (audit P et sev corr) (throw e)))
     Q (\<lambda>_. view agrees)"
proof (rule triple_sq)
  show "triple (view V) (set_state FAULTED) (\<lambda>_. view faulted) (\<lambda>_. view agrees)"
    by (rule triple_set_state) simp
  show "triple (view faulted) (sq (audit P et sev corr) (throw e)) Q (\<lambda>_. view agrees)"
  proof (rule triple_sq)
    show "triple (view faulted) (audit P et sev corr) (\<lambda>_. view faulted) (\<lambda>_. view agrees)"
      by (rule triple_conseq [OF triple_audit [where V = faulted]]) (auto dest: faulted_agrees)
    show "triple (view faulted) (throw e) Q (\<lambda>_. view agrees)"
      by (rule triple_throw) (rule faulted_agrees)
  qed
qed

text \<open>A new state that agrees, announced by an audit event.\<close>

lemma triple_enter:
  assumes "\<And>s d l. V s d l \<Longrightarrow> agrees s' d l"
  shows "triple (view V) (sq (set_state s') (audit P et sev corr)) (\<lambda>_. view agrees) (\<lambda>_. view agrees)"
  by (rule triple_sq [OF triple_set_state triple_audit]) (use assms in blast)

text \<open>
  Every call leaves the controller and the relay in agreement when it returns, and also when it
  raises if the ports fail cleanly.
\<close>

abbreviation "if_clean \<equiv> (\<lambda>V s d l. clean \<longrightarrow> V s d l)"

lemma agrees_if_clean: "view agrees c \<Longrightarrow> view (if_clean agrees) c"
  by (erule viewed_mono) simp

text \<open>Calls of the relay that cannot raise it keep the view of a low relay.\<close>

lemma keeps_view_low:
  assumes "keeps (\<lambda>w. inv w \<and> \<not> level w) m"
  shows "keeps (view (\<lambda>s d l. V s d \<and> \<not> l)) (env m)"
proof -
  have "preserves (\<lambda>c. V (ct_state c) (ct_deadline c)) (env m)"
    by (rule preserves_env) simp
  then show ?thesis
    using keeps_env [OF assms] unfolding keeps_def preserves_def viewed_def by auto
qed

lemma keeps_view_state:
  assumes "keeps inv m"
  shows "keeps (view (\<lambda>s d l. V s d)) (env m)"
proof -
  have "preserves (\<lambda>c. V (ct_state c) (ct_deadline c)) (env m)"
    by (rule preserves_env) simp
  then show ?thesis
    using keeps_env [OF assms] unfolding keeps_def preserves_def viewed_def by auto
qed

lemma start_agrees: "triple (view agrees) (start P) (\<lambda>_. view agrees) (\<lambda>_. view agrees)"
proof -
  let ?I = "\<lambda>s d l. s = INITIALIZING \<and> d = None \<and> \<not> l"
  have I: "view agrees c" if "view ?I c" for c
    using that by (auto simp: viewed_def agrees_def)
  have "keeps (view (\<lambda>s d l. (s = INITIALIZING \<and> d = None) \<and> \<not> l)) (env (p_relay_setup P n ch))"
    for n ch
    by (rule keeps_view_low [OF ports_keepD(7) [OF keep_low]])
  then have "keeps (view ?I) (env (p_relay_setup P n ch))" for n ch by simp
  then have relay_set_up: "triple (view ?I) (try_except is_exception (env (p_relay_setup P ''BCM'' ch))
      (\<lambda>e. sq (set_state FAULTED) (sq (audit P et sev corr) (throw e))))
      (\<lambda>_. view ?I) (\<lambda>_. view agrees)" for ch et sev corr
    using I by (blast intro: triple_try_except [OF triple_keeps] triple_fault_throw)
  have low: "triple (view ?I) (try_except is_exception (command_relay P False)
      (\<lambda>e. sq (set_state FAULTED) (sq (audit P et sev corr) (throw e))))
      (\<lambda>_. view ?I) (\<lambda>_. view agrees)" for et sev corr
  proof (rule triple_try_except [OF triple_command])
    show "triple (view ?I) (sq (set_state FAULTED) (sq (audit P et sev corr) (throw e)))
      (\<lambda>_. view ?I) (\<lambda>_. view agrees)" for e by (rule triple_fault_throw)
  qed (auto dest: I)
  have ready: "triple (view ?I) (sq (set_state READY) (audit P SERVICE_STARTED SevInfo []))
      (\<lambda>_. view agrees) (\<lambda>_. view agrees)"
    by (rule triple_enter) (auto simp: agrees_def)
  show ?thesis
    unfolding start_def
  proof (rule triple_with_self)
    fix c assume "view agrees c"
    then show "triple (\<lambda>t. t = c \<and> view agrees t)
      (if ct_state c = READY \<or> ct_state c = RELEASED then skip
       else if ct_state c \<noteq> INITIALIZING
       then throw (RuntimeError ''controller cannot be restarted'')
       else sq (try_except is_exception (env (p_relay_setup P ''BCM'' (ct_gpio_channel c)))
               (\<lambda>e. sq (set_state FAULTED)
                      (sq (audit P RELAY_CONTROL_ERROR SevCritical (reason_of ''setup_failed''))
                          (throw e))))
        (sq (try_except is_exception (command_relay P False)
               (\<lambda>e. sq (set_state FAULTED)
                      (sq (audit P RELAY_CONTROL_ERROR SevCritical (reason_of ''low_failed''))
                          (throw e))))
        (sq (set_state READY) (audit P SERVICE_STARTED SevInfo []))))
      (\<lambda>_. view agrees) (\<lambda>_. view agrees)"
      by (intro triple_if triple_skip triple_throw
          triple_pre [OF triple_sq [OF relay_set_up triple_sq [OF low ready]]])
        (auto simp: viewed_def agrees_def)
  qed
qed

text \<open>A clock that cannot be read keeps the view, and is no clean run.\<close>

lemma clock_read_agrees:
  "triple (view V) (env (p_monotonic P)) (\<lambda>_. view V) (\<lambda>_. view (if_clean U))"
proof (rule tripleI)
  fix c y c' assume "view V c" "env (p_monotonic P) c = (Inr y, c')"
  then show "view V c'" using keepsD [OF keeps_view_ports(1)] by blast
next
  fix c e c' assume v: "view V c" and run: "env (p_monotonic P) c = (Inl e, c')"
  then have "\<not> clean"
    by (auto simp: clean_failures_def env_def zoom_def split: prod.splits)
  moreover have "view V c'" using keepsD [OF keeps_view_ports(1) run v] .
  ultimately show "view (if_clean U) c'" by (simp add: viewed_def)
qed

text \<open>The two parts of ending a release: lowering the relay, and becoming ready again.\<close>

lemma tick_low:
  "triple (view (\<lambda>s d l. s = RELEASED \<and> d \<noteq> None \<and> l))
    (try_except is_exception (sq (command_relay P False) (ret True))
       (\<lambda>_. sq (set_state FAULTED) (sq (audit P et sev corr) (ret False))))
    (\<lambda>done. view (if done then (\<lambda>s d l. s = RELEASED \<and> \<not> l) else faulted)) (\<lambda>_. view (if_clean agrees))"
proof (rule triple_guarded_command [where F = "\<lambda>s d l. s = RELEASED \<and> d \<noteq> None \<and> (clean \<longrightarrow> l)"])
  have "triple (view V) (sq (sq (set_state FAULTED) (audit P et sev corr)) (ret False))
    (\<lambda>ok. view (if ok then U else faulted)) (\<lambda>_. view (if_clean agrees))" for V U
    by (rule triple_sq [OF triple_conseq [OF triple_fault [of V]], where R = "view faulted"])
      (auto intro: triple_ret agrees_if_clean)
  then show "triple (view V) (sq (set_state FAULTED) (sq (audit P et sev corr) (ret False)))
    (\<lambda>ok. view (if ok then U else faulted)) (\<lambda>_. view (if_clean agrees))" for V U
    by (simp add: sq_assoc)
qed (auto simp: agrees_def)

lemma tick_restored:
  "triple (view (if ok then (\<lambda>s d l. s = RELEASED \<and> \<not> l) else faulted))
    (if \<not> ok then skip else
      sq (modify (ct_deadline_update (\<lambda>_. None))) (sq (set_state READY) (audit P RELAY_RESTORED SevInfo [])))
    (\<lambda>_. view agrees) (\<lambda>_. view (if_clean agrees))"
proof (cases ok)
  case True
  have "triple (view (\<lambda>s d l. s = RELEASED \<and> \<not> l)) (modify (ct_deadline_update (\<lambda>_. None)))
      (\<lambda>_. view (\<lambda>s d l. d = None \<and> \<not> l)) (\<lambda>_. view (if_clean agrees))"
    by (rule triple_set_deadline) auto
  moreover have "triple (view (\<lambda>s d l. d = None \<and> \<not> l)) (sq (set_state READY) (audit P RELAY_RESTORED SevInfo []))
      (\<lambda>_. view agrees) (\<lambda>_. view (if_clean agrees))"
    by (rule triple_conseq [OF triple_enter [where V = "\<lambda>s d l. d = None \<and> \<not> l"]])
      (auto simp: agrees_def [of READY] intro: agrees_if_clean)
  ultimately show ?thesis using True by (auto intro: triple_sq)
qed (auto intro: triple_skip faulted_agrees)

lemma tick_agrees:
  "triple (view agrees) (tick P) (\<lambda>_. view agrees) (\<lambda>_. view (if_clean agrees))"
proof -
  let ?I = "\<lambda>s d l. s = RELEASED \<and> d \<noteq> None \<and> l"
  have I: "view agrees c" if "view ?I c" for c
    using that by (auto simp: viewed_def agrees_def)
  show ?thesis
    unfolding tick_def
    apply (rule triple_with_self)
    apply (intro triple_if triple_option triple_skip; (simp; fail)?)
    apply (rule triple_bnd)
     apply (rule triple_pre [OF clock_read_agrees [where V = ?I]])
     apply (auto simp: viewed_def agrees_def)[1]
    apply (rule triple_if)
     apply (rule triple_skip, erule I)
    apply (rule triple_bnd [OF tick_low tick_restored])
    done
qed

text \<open>The three parts of a release: raising the relay, the answer to a failure, and the beginning.\<close>

lemma release_high_failed:
  "triple (view (\<lambda>s d l. s = READY \<and> d = None \<and> (clean \<longrightarrow> \<not> l)))
    (sq (audit P et sev corr) (bnd (attempt_safe_state P) (\<lambda>_. sq (set_state FAULTED) (ret False))))
    (\<lambda>ok. view (if ok then V else faulted)) (\<lambda>_. view (if_clean agrees))"
proof (rule triple_sq)
  let ?F = "\<lambda>s d l. s = READY \<and> d = None \<and> (clean \<longrightarrow> \<not> l)"
  have F: "view (if_clean agrees) c" if "view ?F c" for c
    using that by (auto simp: viewed_def agrees_def)
  show "triple (view ?F) (audit P et sev corr) (\<lambda>_. view ?F) (\<lambda>_. view (if_clean agrees))"
    by (rule triple_conseq [OF triple_audit [where V = ?F]]) (use F in blast)+
  have "triple (view ?F) (attempt_safe_state P) (\<lambda>safe. view (if safe then ?F else ?F)) (\<lambda>_. view ?F)"
    by (rule triple_attempt_safe_state) auto
  then have safe: "triple (view ?F) (attempt_safe_state P) (\<lambda>_. view ?F) (\<lambda>_. view (if_clean agrees))"
    by (rule triple_conseq) (use F in auto)
  have "triple (view ?F) (sq (set_state FAULTED) (ret False))
      (\<lambda>ok. view (if ok then V else faulted)) (\<lambda>_. view (if_clean agrees))"
    by (intro triple_sq [OF triple_set_state [where U = faulted]] triple_ret) auto
  then show "triple (view ?F) (bnd (attempt_safe_state P) (\<lambda>_. sq (set_state FAULTED) (ret False)))
      (\<lambda>ok. view (if ok then V else faulted)) (\<lambda>_. view (if_clean agrees))"
    by (rule triple_bnd [OF safe])
qed

lemma release_begun:
  "triple (view (\<lambda>s d l. s = READY \<and> d = None \<and> l))
    (bnd (env (p_monotonic P)) (\<lambda>t. sq (modify (ct_deadline_update (\<lambda>_. Some (t + k))))
       (sq (set_state RELEASED) (sq (audit P et sev corr) (ret x)))))
    (\<lambda>_. view agrees) (\<lambda>_. view (if_clean agrees))"
proof (rule triple_bnd [OF clock_read_agrees])
  let ?R = "\<lambda>s d l. s = RELEASED \<and> d \<noteq> None \<and> l"
  have R: "view agrees c" if "view ?R c" for c
    using that by (auto simp: viewed_def agrees_def)
  have "triple (view ?R) (sq (audit P et sev corr) (ret x)) (\<lambda>_. view ?R) (\<lambda>_. view ?R)"
    by (rule triple_sq [OF triple_audit]) (rule triple_ret)
  then have "triple (view ?R) (sq (audit P et sev corr) (ret x))
      (\<lambda>_. view agrees) (\<lambda>_. view (if_clean agrees))"
    by (rule triple_conseq) (use R agrees_if_clean in blast)+
  then show "triple (view (\<lambda>s d l. s = READY \<and> d = None \<and> l))
      (sq (modify (ct_deadline_update (\<lambda>_. Some (t + k))))
        (sq (set_state RELEASED) (sq (audit P et sev corr) (ret x))))
      (\<lambda>_. view agrees) (\<lambda>_. view (if_clean agrees))" for t
    by (intro triple_sq [OF triple_set_deadline [where U = "\<lambda>s d l. d \<noteq> None \<and> l"]]
        triple_sq [OF triple_set_state]) auto
qed

lemma release_agrees:
  "triple (view (\<lambda>s d l. s = READY \<and> d = None \<and> \<not> l)) (release P)
     (\<lambda>_. view agrees) (\<lambda>_. view (if_clean agrees))"
proof -
  let ?U = "\<lambda>s d l. s = READY \<and> d = None \<and> l"
  have high: "triple (view (\<lambda>s d l. s = READY \<and> d = None \<and> \<not> l))
      (try_except is_exception (sq (command_relay P True) (ret True))
        (\<lambda>_. sq (audit P et sev corr) (bnd (attempt_safe_state P) (\<lambda>_. sq (set_state FAULTED) (ret False)))))
      (\<lambda>ok. view (if ok then ?U else faulted)) (\<lambda>_. view (if_clean agrees))" for et sev corr
    by (rule triple_guarded_command [OF _ _ release_high_failed]) (auto simp: agrees_def)
  have rest: "triple (view (if ok then ?U else faulted)) (if \<not> ok then ret x else
      bnd (env (p_monotonic P)) (\<lambda>t. sq (modify (ct_deadline_update (\<lambda>_. Some (t + k))))
         (sq (set_state RELEASED) (sq (audit P et sev corr) (ret y)))))
      (\<lambda>_. view agrees) (\<lambda>_. view (if_clean agrees))" for ok et sev corr k x y
    using release_begun by (cases ok) (auto intro: triple_ret faulted_agrees)
  show ?thesis
    unfolding release_def
    by (rule triple_with_self, rule triple_pre, rule triple_bnd [OF high rest]) simp
qed

lemma recoverable_failure_agrees:
  "triple (view agrees) (recoverable_failure P) (\<lambda>_. view agrees) (\<lambda>_. view (if_clean agrees))"
proof -
  have "triple (view agrees) (attempt_safe_state P)
      (\<lambda>safe. view (if safe then (\<lambda>s d l. True) else if_clean agrees)) (\<lambda>_. view (if_clean agrees))"
    by (rule triple_attempt_safe_state) auto
  then have safe: "triple (view agrees) (attempt_safe_state P) (\<lambda>_. view (\<lambda>s d l. True))
      (\<lambda>_. view (if_clean agrees))"
    by (rule triple_conseq) (auto simp: viewed_def split: if_splits)
  have "triple (view (\<lambda>s d l. True)) (sq (set_state FAULTED) (audit P RELAY_CONTROL_ERROR SevError []))
      (\<lambda>_. view agrees) (\<lambda>_. view (if_clean agrees))"
    by (rule triple_conseq [OF triple_fault [where V = "\<lambda>s d l. True"]])
      (use faulted_agrees agrees_if_clean in blast)+
  then show ?thesis
    unfolding recoverable_failure_def
    by (intro triple_bnd [OF safe] triple_sq [OF triple_set_deadline]) auto
qed

abbreviation "accepting \<equiv> (\<lambda>s d l. agrees s d l \<and> (s = READY \<or> s = RELEASED))"

lemma accepting_agrees: "view accepting c \<Longrightarrow> view agrees c"
  by (erule viewed_mono) simp

lemma accepting_if_clean: "view accepting c \<Longrightarrow> view (if_clean agrees) c"
  by (erule viewed_mono) simp

text \<open>What only observes or audits leaves an accepting controller accepting.\<close>

lemma triple_accepting:
  assumes "keeps (view accepting) m"
  shows "triple (view accepting) m (\<lambda>_. view accepting) (\<lambda>_. view (if_clean agrees))"
  by (rule triple_conseq [OF triple_keeps [OF assms]]) (auto intro: accepting_if_clean)

lemma accepting_returns:
  "triple (view accepting) (sq m (sq n (ret x))) (\<lambda>_. view agrees) (\<lambda>_. view (if_clean agrees))"
  if "keeps (view accepting) m" "keeps (view accepting) n"
  by (rule triple_sq [OF triple_accepting [OF that(1)]],
      rule triple_sq [OF triple_accepting [OF that(2)]], rule triple_ret, rule accepting_agrees)

lemma respond_agrees:
  "triple (view accepting) (respond P outcome) (\<lambda>_. view agrees) (\<lambda>_. view (if_clean agrees))"
proof -
  have authorized: "triple (view accepting)
      (with_self (\<lambda>c. if ct_state c = RELEASED then ret x else release P))
      (\<lambda>_. view agrees) (\<lambda>_. view (if_clean agrees))" for x
  proof (rule triple_with_self)
    fix c assume v: "view accepting c"
    show "triple (\<lambda>t. t = c \<and> view accepting t)
        (if ct_state c = RELEASED then ret x else release P)
        (\<lambda>_. view agrees) (\<lambda>_. view (if_clean agrees))"
      by (rule triple_if, rule triple_ret, use accepting_agrees in blast,
          rule triple_pre [OF release_agrees]) (auto simp: viewed_def agrees_def)
  qed
  show ?thesis
    unfolding respond_def
    by (intro triple_if accepting_returns keeps_view_audit keeps_view_suspicious
        triple_sq [OF triple_accepting authorized])
qed

lemma process_agrees:
  "triple (view agrees) (process P r) (\<lambda>_. view agrees) (\<lambda>_. view (if_clean agrees))"
proof -
  have parsed: "triple (view accepting) (process_parsed P cred)
      (\<lambda>_. view agrees) (\<lambda>_. view (if_clean agrees))" for cred
    unfolding process_parsed_def
    by (intro triple_bnd [OF triple_accepting] triple_sq [OF triple_accepting respond_agrees]
        keeps_view_ports keeps_modify)
      (simp add: viewed_def)
  have body: "triple (view accepting) (case r of
        MalformedRecord why \<Rightarrow>
          sq (audit P MALFORMED_RECORD SevWarning (reason_of (safe_reason why)))
         (sq (record_suspicious_activity P) (ret (AccessResult None NOT_REQUESTED)))
      | ParsedRecord cred \<Rightarrow> process_parsed P cred)
      (\<lambda>_. view agrees) (\<lambda>_. view (if_clean agrees))"
    using parsed accepting_returns [OF keeps_view_audit keeps_view_suspicious] by (cases r) simp_all
  show ?thesis
    unfolding process_def
  proof (rule triple_with_self)
    fix c assume "view agrees c"
    then show "triple (\<lambda>t. t = c \<and> view agrees t)
       (if ct_state c \<noteq> READY \<and> ct_state c \<noteq> RELEASED
        then throw (RuntimeError ''controller is not accepting credentials'')
        else (case r of
               MalformedRecord why \<Rightarrow>
                 sq (audit P MALFORMED_RECORD SevWarning (reason_of (safe_reason why)))
                (sq (record_suspicious_activity P) (ret (AccessResult None NOT_REQUESTED)))
             | ParsedRecord cred \<Rightarrow> process_parsed P cred))
        (\<lambda>_. view agrees) (\<lambda>_. view (if_clean agrees))"
      by (intro triple_if triple_throw triple_pre [OF body])
        (auto simp: viewed_def)
  qed
qed

lemma shutdown_from:
  assumes "\<And>d l. V STOPPED d l \<Longrightarrow> agrees STOPPED d l"
  shows "triple (view V) (shutdown P) (\<lambda>_. view agrees) (\<lambda>_. view agrees)"
proof -
  let ?D = "\<lambda>s d l. s = SHUTTING_DOWN"
  let ?N = "\<lambda>safe s d l. (s = SHUTTING_DOWN \<and> d = None) \<and> (safe \<longrightarrow> \<not> l)"
  have D: "view agrees c" if "view ?D c" for c
    using that by (auto simp: viewed_def agrees_def)
  have N: "view agrees c" if "view (?N b) c" for b c
    using that by (auto simp: viewed_def agrees_def)
  have closing: "triple (view V) (set_state SHUTTING_DOWN) (\<lambda>_. view ?D) (\<lambda>_. view agrees)" for V
    by (rule triple_set_state) simp
  have "triple (view ?D) (attempt_safe_state P)
      (\<lambda>safe. view (if safe then (\<lambda>s d l. s = SHUTTING_DOWN \<and> \<not> l) else ?D)) (\<lambda>_. view ?D)"
    by (rule triple_attempt_safe_state) auto
  then have safe: "triple (view ?D) (attempt_safe_state P)
      (\<lambda>safe. view (\<lambda>s d l. s = SHUTTING_DOWN \<and> (safe \<longrightarrow> \<not> l))) (\<lambda>_. view agrees)"
    by (rule triple_conseq) (use D in \<open>auto split: if_splits\<close>)
  have no_deadline: "triple (view (\<lambda>s d l. s = SHUTTING_DOWN \<and> (safe \<longrightarrow> \<not> l)))
      (modify (ct_deadline_update (\<lambda>_. None))) (\<lambda>_. view (?N safe)) (\<lambda>_. view agrees)" for safe
    by (rule triple_set_deadline) auto
  have k: "keeps (view (?N safe)) (env (p_relay_cleanup P))" for safe
    using keeps_view_low [OF ports_keepD(9) [OF keep_low], of "\<lambda>s d. s = SHUTTING_DOWN \<and> d = None"]
      keeps_view_state [OF cleanup_inv, of "\<lambda>s d. s = SHUTTING_DOWN \<and> d = None"]
    by (cases safe) simp_all
  have cleanup: "triple (view (?N safe))
      (try_except is_exception (sq (env (p_relay_cleanup P)) (ret True))
         (\<lambda>_. sq (audit P et sev corr) (ret False)))
      (\<lambda>_. view (?N safe)) (\<lambda>_. view agrees)" for safe et sev corr
  proof -
    have "keeps (view (?N safe)) (try_except is_exception (sq (env (p_relay_cleanup P)) (ret True))
         (\<lambda>_. sq (audit P et sev corr) (ret False)))"
      by (intro keeps_rules k keeps_view_audit)
    from triple_keeps [OF this] show ?thesis
      by (rule triple_conseq) (use N in blast)+
  qed
  have finish: "triple (view (?N safe)) (if safe \<and> ok
      then sq (set_state STOPPED) (audit P SERVICE_SHUTDOWN SevInfo []) else set_state FAULTED)
      (\<lambda>_. view agrees) (\<lambda>_. view agrees)" for safe ok
    by (intro triple_if triple_enter triple_set_state) (auto simp: agrees_def)
  have body: "triple (view V) (sq (set_state SHUTTING_DOWN)
      (bnd (attempt_safe_state P) (\<lambda>safe. sq (modify (ct_deadline_update (\<lambda>_. None)))
        (bnd (try_except is_exception (sq (env (p_relay_cleanup P)) (ret True))
               (\<lambda>_. sq (audit P RELAY_CONTROL_ERROR SevCritical (reason_of ''cleanup_failed''))
                      (ret False)))
             (\<lambda>ok. if safe \<and> ok
                then sq (set_state STOPPED) (audit P SERVICE_SHUTDOWN SevInfo [])
                else set_state FAULTED)))))
      (\<lambda>_. view agrees) (\<lambda>_. view agrees)"
    by (rule triple_sq [OF closing], rule triple_bnd [OF safe], rule triple_sq [OF no_deadline],
        rule triple_bnd [OF cleanup finish])
  show ?thesis
    unfolding shutdown_def
    by (rule triple_with_self)
      (intro triple_if triple_skip triple_pre [OF body]; use assms in \<open>auto simp: viewed_def\<close>)
qed

lemma shutdown_agrees:
  "triple (view agrees) (shutdown P) (\<lambda>_. view agrees) (\<lambda>_. view agrees)"
  by (rule shutdown_from)

lemma perform_agrees:
  "triple (view agrees) (perform P x) (\<lambda>_. view agrees) (\<lambda>_. view (if_clean agrees))"
proof (cases x)
  case (Process r)
  then show ?thesis
    by (auto intro!: triple_bnd [OF process_agrees] triple_skip)
qed (auto intro: triple_conseq [OF start_agrees] triple_conseq [OF shutdown_agrees]
    tick_agrees recoverable_failure_agrees agrees_if_clean)

lemma perform_keeps_agrees: "clean \<Longrightarrow> keeps (view agrees) (perform P x)"
proof (rule keepsI)
  fix c r c' assume clean and v: "view agrees c" and run: "perform P x c = (r, c')"
  show "view agrees c'"
  proof (cases r)
    case (Inl e)
    then have "view (if_clean agrees) c'" using triple_raises [OF perform_agrees v] run by blast
    with \<open>clean\<close> show ?thesis by (simp add: viewed_def)
  next
    case (Inr y)
    then show ?thesis using triple_returns [OF perform_agrees v] run by blast
  qed
qed

text \<open>
  A controller that has not been started knows nothing of the relay, which an earlier process may
  have left high. Its first call either brings the two into agreement or leaves it unstarted.
\<close>

abbreviation "unstarted \<equiv> (\<lambda>s d l. s = INITIALIZING \<and> d = None)"
abbreviation "settled \<equiv> (\<lambda>s d l. agrees s d l \<or> s = INITIALIZING \<and> d = None)"

lemma agrees_settled: "view agrees c \<Longrightarrow> view settled c"
  by (erule viewed_mono) simp

lemma unstarted_settled: "view unstarted c \<Longrightarrow> view settled c"
  by (erule viewed_mono) simp

lemma start_settles: "triple (view unstarted) (start P) (\<lambda>_. view settled) (\<lambda>_. view settled)"
proof -
  let ?low = "\<lambda>s d l. s = INITIALIZING \<and> d = None \<and> \<not> l"
  have fails: "triple (view unstarted) (sq (set_state FAULTED) (sq (audit P et sev corr) (throw e)))
      Q (\<lambda>_. view settled)" for et sev corr e Q
    by (rule triple_conseq [OF triple_fault_throw [of unstarted]]) (simp, assumption, erule agrees_settled)
  have relay_set_up: "triple (view unstarted) (try_except is_exception (env (p_relay_setup P ''BCM'' ch))
      (\<lambda>e. sq (set_state FAULTED) (sq (audit P et sev corr) (throw e))))
      (\<lambda>_. view unstarted) (\<lambda>_. view settled)" for ch et sev corr
    by (rule triple_try_except [OF triple_keeps [OF keeps_view_state [OF setup_inv]] fails])
      (erule unstarted_settled)
  have low: "triple (view unstarted) (try_except is_exception (command_relay P False)
      (\<lambda>e. sq (set_state FAULTED) (sq (audit P et sev corr) (throw e))))
      (\<lambda>_. view ?low) (\<lambda>_. view settled)" for et sev corr
    by (rule triple_try_except [OF triple_command [where F = unstarted] fails])
      (auto dest: unstarted_settled)
  have ready: "triple (view ?low) (sq (set_state READY) (audit P SERVICE_STARTED SevInfo []))
      (\<lambda>_. view settled) (\<lambda>_. view settled)"
    by (rule triple_conseq [OF triple_enter [where V = ?low]])
      (auto simp: agrees_def [of READY] intro: agrees_settled)
  show ?thesis
    unfolding start_def
    by (rule triple_with_self)
      (intro triple_if triple_skip triple_throw
        triple_pre [OF triple_sq [OF relay_set_up triple_sq [OF low ready]]];
        auto simp: viewed_def)
qed

lemma perform_settles:
  "triple (view unstarted) (perform P x) (\<lambda>_. view settled) (\<lambda>_. view settled)"
proof (cases x)
  case Start
  then show ?thesis using start_settles by simp
next
  case (Process r)
  have "keeps (view unstarted) (process P r)"
    by (rule keepsI) (auto simp: process_def with_self_def throw_def viewed_def split: if_splits)
  then have "keeps (view unstarted) (perform P x)"
    using Process by (auto intro: keeps_rules)
  from triple_keeps [OF this] show ?thesis
    by (rule triple_conseq) (auto intro: unstarted_settled)
next
  case Tick
  have "keeps (view unstarted) (tick P)"
    by (rule keepsI) (auto simp: tick_def with_self_def skip_def viewed_def split: if_splits)
  from triple_keeps [OF this] show ?thesis
    using Tick by (auto intro: triple_conseq unstarted_settled)
next
  case RecoverableFailure
  have "triple (view unstarted) (attempt_safe_state P)
      (\<lambda>safe. view (if safe then unstarted else unstarted)) (\<lambda>_. view unstarted)"
    by (rule triple_attempt_safe_state) auto
  then have safe: "triple (view unstarted) (attempt_safe_state P) (\<lambda>_. view unstarted) (\<lambda>_. view settled)"
    by (rule triple_conseq) (auto intro: unstarted_settled)
  have fault: "triple (view unstarted) (sq (set_state FAULTED) (audit P RELAY_CONTROL_ERROR SevError []))
      (\<lambda>_. view settled) (\<lambda>_. view settled)"
    by (rule triple_conseq [OF triple_fault [where V = unstarted]])
      (auto intro: agrees_settled faulted_agrees)
  show ?thesis
    unfolding RecoverableFailure perform.simps recoverable_failure_def
    by (rule triple_bnd [OF safe], rule triple_sq [OF triple_set_deadline fault]) simp
next
  case Shutdown
  have "triple (view unstarted) (shutdown P) (\<lambda>_. view agrees) (\<lambda>_. view agrees)"
    by (rule shutdown_from) simp
  then show ?thesis
    using Shutdown by (auto intro: triple_conseq agrees_settled)
qed

text \<open>From any settled state, a call settles the controller again if it returns or the ports fail cleanly.\<close>

lemma settled_cases: "view settled c \<Longrightarrow> view agrees c \<or> view unstarted c"
  by (auto simp: viewed_def)

lemma perform_settled:
  assumes v: "view settled c" and run: "perform P x c = (r, c')" and "clean \<or> (\<exists>u. r = Inr u)"
  shows "view settled c'"
  using settled_cases [OF v]
proof
  assume a: "view agrees c"
  have "view agrees c'"
    using assms(3) keepsD [OF perform_keeps_agrees run a] triple_returns [OF perform_agrees a] run
    by blast
  then show ?thesis by (rule agrees_settled)
next
  assume u: "view unstarted c"
  show ?thesis
    using triple_returns [OF perform_settles u] triple_raises [OF perform_settles u] run
    by (cases r) blast+
qed

text \<open>During a release a record changes neither the state, nor the deadline, nor the relay.\<close>

lemma process_during_release:
  "keeps (view (\<lambda>s d l. s = RELEASED \<and> d = Some t \<and> l = high)) (process P r)"
proof -
  let ?V = "view (\<lambda>s d l. s = RELEASED \<and> d = Some t \<and> l = high)"
  have released: "?V c \<Longrightarrow> ct_state c = RELEASED" for c by (simp add: viewed_def)
  have k: "keeps ?V (modify (ct_last_processed_update f))" for f
    by (rule keeps_modify) (simp add: viewed_def)
  have "keeps ?V (with_self (\<lambda>c. if ct_state c = RELEASED then ret x else release P))" for x
    by (intro keeps_with_self keeps_if keeps_ret) (simp add: released)
  then have parsed: "keeps ?V (process_parsed P cred)" for cred
    unfolding process_parsed_def respond_def
    by (intro keeps_bnd keeps_sq keeps_if keeps_ret keeps_view_ports keeps_view_audit
        keeps_view_suspicious k)
  then show ?thesis
    unfolding process_def
    by (cases r) (auto intro!: keeps_with_self keeps_if keeps_throw keeps_sq keeps_ret
        keeps_view_audit keeps_view_suspicious)
qed

text \<open>A tick at or after the deadline ends the release, even when it raises.\<close>

lemma tick_ends_release:
  assumes "ct_state c = RELEASED" and "ct_deadline c = Some t"
    and "p_monotonic P (ct_env c) = (Inr now, w)" and "t \<le> now"
    and "tick P c = (Inr u, c')"
  shows "ct_state c' = READY \<or> ct_state c' = FAULTED"
proof -
  let ?b = "try_except is_exception (sq (command_relay P False) (ret True))
      (\<lambda>_. sq (set_state FAULTED) (sq (audit P RELAY_CONTROL_ERROR SevCritical
         (reason_of ''low_failed'')) (ret False)))"
  let ?k = "\<lambda>ok. if \<not> ok then skip
      else sq (modify (ct_deadline_update (\<lambda>_. None)))
          (sq (set_state READY) (audit P RELAY_RESTORED SevInfo []))"
  have run: "bnd ?b ?k (c\<lparr>ct_env := w\<rparr>) = (Inr u, c')"
    using assms by (simp add: tick_def with_self_def bnd_def env_def zoom_def)
  have fault: "triple (\<lambda>_. True) (sq (set_state FAULTED) (sq (audit P et sev corr) (ret False)))
      (\<lambda>ok c. \<not> ok \<and> ct_state c = FAULTED) (\<lambda>_ c. True)" for et sev corr
  proof (rule triple_sq)
    show "triple (\<lambda>_. True) (set_state FAULTED) (\<lambda>_ c. ct_state c = FAULTED) (\<lambda>_ c. True)"
      unfolding set_state_def by (rule triple_modify) simp
    have "keeps (\<lambda>c. ct_state c = FAULTED) (audit P et sev corr)"
      by (rule preserves_keeps_part [OF preserves_audit]) simp
    then show "triple (\<lambda>c. ct_state c = FAULTED) (sq (audit P et sev corr) (ret False))
        (\<lambda>ok c. \<not> ok \<and> ct_state c = FAULTED) (\<lambda>_ c. True)"
      by (intro triple_sq [OF triple_conseq [OF triple_keeps]] triple_ret) auto
  qed
  have b: "triple (\<lambda>_. True) ?b (\<lambda>ok c. ok \<or> ct_state c = FAULTED) (\<lambda>_ _. True)"
  proof (rule triple_try_except [where F = "\<lambda>_ _. True"])
    have "triple (\<lambda>_. True) (command_relay P False) (\<lambda>_ _. True) (\<lambda>_ _. True)"
      by (simp add: triple_def split: prod.splits sum.splits)
    then show "triple (\<lambda>_. True) (sq (command_relay P False) (ret True))
        (\<lambda>ok c. ok \<or> ct_state c = FAULTED) (\<lambda>_ _. True)"
      by (rule triple_sq) (rule triple_ret, simp)
  qed (rule triple_conseq [OF fault], simp_all)
  have k: "triple (\<lambda>c. ok \<or> ct_state c = FAULTED) (?k ok)
      (\<lambda>_ c. ct_state c = READY \<or> ct_state c = FAULTED) (\<lambda>_ _. True)" for ok
  proof (cases ok)
    case True
    have "keeps (\<lambda>c. ct_state c = READY \<or> ct_state c = FAULTED) (audit P et sev corr)" for et sev corr
      by (rule preserves_keeps_part [OF preserves_audit]) simp
    from triple_keeps [OF this] have a: "triple (\<lambda>c. ct_state c = READY \<or> ct_state c = FAULTED)
        (audit P et sev corr) (\<lambda>_ c. ct_state c = READY \<or> ct_state c = FAULTED) (\<lambda>_ _. True)"
      for et sev corr
      by (rule triple_conseq) simp_all
    have "triple (\<lambda>_. True) (sq (set_state READY) (audit P et sev corr))
        (\<lambda>_ c. ct_state c = READY \<or> ct_state c = FAULTED) (\<lambda>_ _. True)" for et sev corr
      unfolding set_state_def by (rule triple_sq [OF triple_modify a]) simp
    then show ?thesis
      using True by (auto intro!: triple_sq [OF triple_modify])
  qed (simp add: triple_skip)
  show ?thesis
    using triple_returns [OF triple_bnd [OF b k] _ run] by simp
qed

end

section \<open>The state machine\<close>

text \<open>
  A step of the controller: one call, whether it returns or raises, or a change of the world
  around it that \<open>W\<close> allows (time passes, the authorization file is reloaded).
\<close>

inductive controller_step ::
  "'w ports \<Rightarrow> ('w \<Rightarrow> 'w \<Rightarrow> bool) \<Rightarrow> 'w controller \<Rightarrow> 'w controller \<Rightarrow> bool" for P W where
  call: "perform P x c = (r, c') \<Longrightarrow> controller_step P W c c'"
| environment: "W (ct_env c) w \<Longrightarrow> controller_step P W c (c\<lparr>ct_env := w\<rparr>)"

inductive_cases controller_stepE: "controller_step P W c c'"

text \<open>The steps of a run in which every call returns.\<close>

inductive returning_step ::
  "'w ports \<Rightarrow> ('w \<Rightarrow> 'w \<Rightarrow> bool) \<Rightarrow> 'w controller \<Rightarrow> 'w controller \<Rightarrow> bool" for P W where
  returns: "perform P x c = (Inr u, c') \<Longrightarrow> returning_step P W c c'"
| environment: "W (ct_env c) w \<Longrightarrow> returning_step P W c (c\<lparr>ct_env := w\<rparr>)"

definition gave_up :: "controller_state set" where
  "gave_up = {FAULTED, SHUTTING_DOWN, STOPPED}"

fun allowed_transitions :: "controller_state \<Rightarrow> controller_state set" where
  "allowed_transitions INITIALIZING = {INITIALIZING, READY} \<union> gave_up"
| "allowed_transitions READY = {READY, RELEASED} \<union> gave_up"
| "allowed_transitions RELEASED = {RELEASED, READY} \<union> gave_up"
| "allowed_transitions FAULTED = gave_up"
| "allowed_transitions SHUTTING_DOWN = gave_up"
| "allowed_transitions STOPPED = {STOPPED, FAULTED}"

lemma allowed_transitions_refl: "s \<in> allowed_transitions s"
  by (cases s) (auto simp: gave_up_def)

lemma state_env: "keeps (\<lambda>c. ct_state c \<in> S) (env m)"
  by (rule preserves_keeps_part [OF preserves_env]) simp

lemma state_audit: "keeps (\<lambda>c. ct_state c \<in> S) (audit P et sev corr)"
  by (rule preserves_keeps_part [OF preserves_audit]) simp

lemma state_command_relay: "keeps (\<lambda>c. ct_state c \<in> S) (command_relay P high)"
  by (rule preserves_keeps_part [OF preserves_command_relay]) simp_all

lemma state_attempt_safe_state: "keeps (\<lambda>c. ct_state c \<in> S) (attempt_safe_state P)"
  by (rule preserves_keeps_part [OF preserves_attempt_safe_state]) simp_all

lemma state_suspicious: "keeps (\<lambda>c. ct_state c \<in> S) (record_suspicious_activity P)"
  by (rule preserves_keeps_part [OF preserves_record_suspicious_activity]) simp_all

lemma keeps_set_state: "s \<in> S \<Longrightarrow> keeps (\<lambda>c. ct_state c \<in> S) (set_state s)"
  unfolding set_state_def by (rule keeps_modify) simp

lemmas state_rules =
  keeps_rules state_env state_audit state_command_relay state_attempt_safe_state
  state_suspicious keeps_set_state

lemma with_self_state:
  "with_self f c = (r, c') \<Longrightarrow> keeps (\<lambda>d. ct_state d \<in> S) (f c) \<Longrightarrow> ct_state c \<in> S \<Longrightarrow> ct_state c' \<in> S"
  by (auto simp: with_self_def dest: keepsD)

lemma start_transition:
  "start P c = (r, c') \<Longrightarrow> ct_state c' \<in> allowed_transitions (ct_state c)"
  unfolding start_def
  by (erule with_self_state, intro state_rules)
    (auto simp: gave_up_def allowed_transitions_refl)

lemma tick_transition:
  "tick P c = (r, c') \<Longrightarrow> ct_state c' \<in> allowed_transitions (ct_state c)"
  unfolding tick_def
  by (erule with_self_state, intro state_rules)
    (auto simp: gave_up_def allowed_transitions_refl)

lemma process_transition:
  assumes "process P r c = (x, c')"
  shows "ct_state c' \<in> allowed_transitions (ct_state c)"
proof -
  define S where "S = {RELEASED, READY, FAULTED}"
  have "keeps (\<lambda>c. ct_state c \<in> S) (process_parsed P cred)" for cred
    unfolding process_parsed_def respond_def release_def
    by (intro state_rules) (auto simp: S_def)
  then have k: "keeps (\<lambda>c. ct_state c \<in> S) (process P r)"
    unfolding process_def by (cases r) (auto intro!: state_rules)
  show ?thesis
    using keepsD [OF k assms] assms
    by (cases "ct_state c")
      (auto simp: process_def with_self_def throw_def gave_up_def S_def)
qed

lemma recoverable_failure_transition:
  assumes "recoverable_failure P c = (r, c')"
  shows "ct_state c' \<in> {ct_state c, FAULTED}"
proof -
  have "keeps (\<lambda>d. ct_state d \<in> {ct_state c, FAULTED}) (recoverable_failure P)"
    unfolding recoverable_failure_def by (intro state_rules) auto
  from keepsD [OF this assms] show ?thesis by simp
qed

lemma shutdown_transition:
  assumes "shutdown P c = (r, c')"
  shows "ct_state c' \<in> (if ct_state c = STOPPED then {STOPPED} else gave_up)"
proof (cases "ct_state c = STOPPED")
  case False
  have body: "keeps (\<lambda>d. ct_state d \<in> gave_up)
      (bnd (attempt_safe_state P) (\<lambda>safe. sq (modify (ct_deadline_update (\<lambda>_. None)))
        (bnd (try_except is_exception (sq (env (p_relay_cleanup P)) (ret True))
               (\<lambda>_. sq (audit P RELAY_CONTROL_ERROR SevCritical (reason_of ''cleanup_failed''))
                      (ret False)))
             (\<lambda>ok. if safe \<and> ok
                then sq (set_state STOPPED) (audit P SERVICE_SHUTDOWN SevInfo [])
                else set_state FAULTED))))"
    by (intro state_rules) (auto simp: gave_up_def)
  show ?thesis
    using assms False keepsD [OF body, of "c\<lparr>ct_state := SHUTTING_DOWN\<rparr>" r c']
    by (simp add: shutdown_def with_self_def set_state_def [of SHUTTING_DOWN] sq_modify gave_up_def)
qed (use assms in \<open>simp add: shutdown_def with_self_def skip_def\<close>)

lemma perform_transition:
  "perform P x c = (r, c') \<Longrightarrow> ct_state c' \<in> allowed_transitions (ct_state c)"
proof (cases x)
  case (Process rc)
  assume run: "perform P x c = (r, c')"
  then obtain y where "process P rc c = (y, c')"
    using Process by (auto simp: bnd_def skip_def split: prod.splits sum.splits)
  then show ?thesis by (rule process_transition)
next
  case RecoverableFailure
  assume "perform P x c = (r, c')"
  with RecoverableFailure have "ct_state c' \<in> {ct_state c, FAULTED}"
    using recoverable_failure_transition by simp
  then show ?thesis using allowed_transitions_refl by (cases "ct_state c") (auto simp: gave_up_def)
next
  case Shutdown
  assume "perform P x c = (r, c')"
  with Shutdown have "ct_state c' \<in> (if ct_state c = STOPPED then {STOPPED} else gave_up)"
    by (simp only: perform.simps shutdown_transition)
  then show ?thesis by (cases "ct_state c") (auto simp: gave_up_def)
qed (simp_all add: start_transition tick_transition)

lemma step_transition:
  "controller_step P W c c' \<Longrightarrow> ct_state c' \<in> allowed_transitions (ct_state c)"
  by (erule controller_stepE) (auto simp: perform_transition allowed_transitions_refl)

lemma gave_up_forever:
  "(controller_step P W)\<^sup>*\<^sup>* c c' \<Longrightarrow> ct_state c \<in> gave_up \<Longrightarrow> ct_state c' \<in> gave_up"
proof (induction rule: rtranclp_induct)
  case (step c1 c2)
  then show ?case
    using step_transition [OF step.hyps(2)] by (auto simp: gave_up_def)
qed

context controller_ports begin

text \<open>
  Once the controller has given up, a low relay stays low whatever is called and whatever
  happens around it that does not itself raise the relay.
\<close>

lemma fail_secure:
  assumes W: "\<And>w w'. W w w' \<Longrightarrow> inv w \<and> \<not> level w \<Longrightarrow> inv w' \<and> \<not> level w'"
  shows "(controller_step P W)\<^sup>*\<^sup>* c c' \<Longrightarrow> ct_state c \<in> gave_up \<Longrightarrow>
    inv (ct_env c) \<and> \<not> level (ct_env c) \<Longrightarrow> inv (ct_env c') \<and> \<not> level (ct_env c')"
proof (induction rule: rtranclp_induct)
  case (step c1 c2)
  then have low: "inv (ct_env c1) \<and> \<not> level (ct_env c1)" by blast
  have s: "ct_state c1 \<in> gave_up" using gave_up_forever step by blast
  from step.hyps(2) show ?case
  proof (cases rule: controller_step.cases)
    case (call x r)
    have "inv (ct_env c2)" using keepsD [OF keeps_perform [OF keep_inv] call] low by blast
    moreover have "\<not> level (ct_env c2)"
    proof
      assume up: "level (ct_env c2)"
      then obtain cred where x: "x = Process (ParsedRecord cred)"
        using keepsD [OF call_keeps_low call] low by blast
      then obtain y where "process P (ParsedRecord cred) c1 = (y, c2)"
        using call by (auto simp: bnd_def skip_def split: prod.splits sum.splits)
      from raise_needs_authorization [OF _ _ this up] low have "ct_state c1 = READY" by blast
      with s show False by (simp add: gave_up_def)
    qed
    ultimately show ?thesis by blast
  next
    case (environment w)
    then show ?thesis using W low by simp
  qed
qed

lemma reachable_agrees:
  assumes W: "\<And>w w'. W w w' \<Longrightarrow> inv w \<Longrightarrow> inv w' \<and> level w' = level w" and clean
  shows "(controller_step P W)\<^sup>*\<^sup>* c c' \<Longrightarrow> view agrees c \<Longrightarrow> view agrees c'"
proof (induction rule: rtranclp_induct)
  case (step c1 c2)
  then have v: "view agrees c1" by blast
  from step.hyps(2) show ?case
  proof (cases rule: controller_step.cases)
    case (call x r)
    then show ?thesis using keepsD [OF perform_keeps_agrees [OF \<open>clean\<close>] call] v by blast
  next
    case (environment w)
    then show ?thesis using W v by (simp add: viewed_def)
  qed
qed

text \<open>The same for a controller that begins unstarted, and for runs in which every call returns.\<close>

lemma environment_settled:
  "W (ct_env c) w \<Longrightarrow> (\<And>w w'. W w w' \<Longrightarrow> inv w \<Longrightarrow> inv w' \<and> level w' = level w) \<Longrightarrow>
   view settled c \<Longrightarrow> view settled (c\<lparr>ct_env := w\<rparr>)"
  by (simp add: viewed_def)

lemma reachable_settled:
  assumes W: "\<And>w w'. W w w' \<Longrightarrow> inv w \<Longrightarrow> inv w' \<and> level w' = level w" and clean
  shows "(controller_step P W)\<^sup>*\<^sup>* c c' \<Longrightarrow> view settled c \<Longrightarrow> view settled c'"
proof (induction rule: rtranclp_induct)
  case (step c1 c2)
  then show ?case
    using \<open>clean\<close> W by (elim controller_stepE) (blast intro: perform_settled environment_settled)+
qed

lemma returning_settled:
  assumes W: "\<And>w w'. W w w' \<Longrightarrow> inv w \<Longrightarrow> inv w' \<and> level w' = level w"
  shows "(returning_step P W)\<^sup>*\<^sup>* c c' \<Longrightarrow> view settled c \<Longrightarrow> view settled c'"
proof (induction rule: rtranclp_induct)
  case (step c1 c2)
  from step.hyps(2) show ?case
    by (cases rule: returning_step.cases)
      (use step W in \<open>blast intro: perform_settled environment_settled\<close>)+
qed

lemma reachable_trail:
  assumes W: "\<And>w w'. W w w' \<Longrightarrow> trail w' = trail w" 
    and Q: "\<And>ev. public_event (drawn_ids P) ev \<Longrightarrow> Q (entry ev)"
  shows "(controller_step P W)\<^sup>*\<^sup>* c c' \<Longrightarrow> \<forall>x\<in>set (trail (ct_env c)). Q x \<Longrightarrow>
    \<forall>x\<in>set (trail (ct_env c')). Q x"
proof (induction rule: rtranclp_induct)
  case (step c1 c2)
  then have t: "\<forall>x\<in>set (trail (ct_env c1)). Q x" by blast
  from step.hyps(2) show ?case
  proof (cases rule: controller_step.cases)
    case (call x r)
    then show ?thesis
      using keepsD [OF keeps_perform [OF keep_trail [of Q, OF Q]] call] t by blast
  next
    case (environment w)
    then show ?thesis using W t by simp
  qed
qed

text \<open>The one call that can raise the relay, as a single statement about all calls.\<close>

lemma rising_call:
  assumes "inv (ct_env c)" and "\<not> level (ct_env c)"
    and run: "perform P x c = (r, c')" and up: "level (ct_env c')"
  shows "\<exists>cred w. x = Process (ParsedRecord cred) \<and> ct_state c = READY \<and>
    p_classify P cred (ct_env c) = (Inr AUTHORIZED, w) \<and>
    authorization_audited trail entry (trail (ct_env c)) (ct_env c')"
proof -
  obtain cred where x: "x = Process (ParsedRecord cred)"
    using keepsD [OF call_keeps_low run] assms by blast
  then obtain y where "process P (ParsedRecord cred) c = (y, c')"
    using run by (auto simp: bnd_def skip_def split: prod.splits sum.splits)
  from raise_needs_authorization [OF assms(1,2) this up] x show ?thesis by simp
qed

end

end
