(* ===== verification/Audit_Storage.thy ===== *)
theory Audit_Storage
  imports Ports Json_Text
begin

text \<open>
  The audit sinks and the in-memory queue of \<open>audit.py\<close>: \<open>InMemoryAuditSink\<close>,
  \<open>SQLiteAuditSink\<close> and \<open>InMemoryNotificationQueue\<close>. SQLite is represented by the table the sink
  creates and a schedule of failures; the column \<open>correlation\<close> holds the object whose JSON text is
  stored. Both sinks are interpretations of \<open>audit_port\<close>.
\<close>

section \<open>InMemoryAuditSink and InMemoryNotificationQueue\<close>

definition memory_append :: "audit_event \<Rightarrow> (audit_event list, unit) prog" where
  "memory_append ev = modify (\<lambda>events. events @ [ev])"

definition memory_latest_event_time :: "audit_event list \<Rightarrow> datetime option" where
  "memory_latest_event_time events =
     (if events = [] then None else Some (ev_timestamp (last events)))"

definition memory_enqueue :: "audit_event \<Rightarrow> (audit_event list, unit) prog" where
  "memory_enqueue ev = modify (\<lambda>events. events @ [ev])"

definition memory_pending_count :: "audit_event list \<Rightarrow> nat" where
  "memory_pending_count events = length events"

interpretation memory_sink: audit_port memory_append "\<lambda>events. events" "\<lambda>ev. ev"
  by unfold_locales (auto simp: memory_append_def modify_def)

section \<open>SQLiteAuditSink\<close>

text \<open>A row of the table \<open>audit_events\<close>.\<close>

record audit_row =
  row_event_id :: string
  row_timestamp :: string
  row_event_type :: string
  row_severity :: string
  row_correlation :: json_object
  row_reader_state :: "string option"
  row_controller_state :: "string option"
  row_delivery_status :: "string option"

text \<open>
  The database: its committed rows in the order of insertion, and the outcome of the coming
  transactions. A transaction that fails is rolled back.
\<close>

record sqlite_sink =
  sq_rows :: "audit_row list"
  sq_faults :: "exn option list"

definition row_of_event :: "audit_event \<Rightarrow> audit_row" where
  "row_of_event ev =
     \<lparr>row_event_id = ev_event_id ev, row_timestamp = isoformat (ev_timestamp ev),
      row_event_type = event_type_value (ev_event_type ev),
      row_severity = severity_value (ev_severity ev),
      row_correlation = sorted_object (ev_correlation ev),
      row_reader_state = ev_reader_state ev, row_controller_state = ev_controller_state ev,
      row_delivery_status = ev_delivery_status ev\<rparr>"

text \<open>\<open>event_id\<close> is the primary key.\<close>

definition sqlite_append :: "audit_event \<Rightarrow> (sqlite_sink, unit) prog" where
  "sqlite_append ev db =
     (let db' = db\<lparr>sq_faults := tl (sq_faults db)\<rparr>
      in case sq_faults db of
           Some e # _ \<Rightarrow> (Inl e, db')
         | _ \<Rightarrow>
             if ev_event_id ev \<in> row_event_id ` set (sq_rows db)
             then (Inl (DatabaseError ''UNIQUE constraint failed: audit_events.event_id''), db')
             else (Inr (), db'\<lparr>sq_rows := sq_rows db @ [row_of_event ev]\<rparr>))"

definition sqlite_count :: "sqlite_sink \<Rightarrow> nat" where
  "sqlite_count db = length (sq_rows db)"

text \<open>The text that \<open>SELECT timestamp ... ORDER BY timestamp DESC LIMIT 1\<close> finds.\<close>

definition sqlite_latest_timestamp :: "sqlite_sink \<Rightarrow> string option" where
  "sqlite_latest_timestamp db =
     (case rev (sort (map row_timestamp (sq_rows db))) of [] \<Rightarrow> None | t # _ \<Rightarrow> Some t)"

interpretation sqlite_port: audit_port sqlite_append sq_rows row_of_event
  by unfold_locales (auto simp: sqlite_append_def Let_def split: list.splits option.splits if_splits)

text \<open>The primary key stays a key.\<close>

lemma sqlite_append_keeps_key:
  "keeps (\<lambda>db. distinct (map row_event_id (sq_rows db))) (sqlite_append ev)"
  by (rule keepsI)
    (auto simp: sqlite_append_def row_of_event_def Let_def
      split: list.splits option.splits if_splits)

text \<open>In a symbolic run a row stays folded, only its key is read.\<close>

lemma row_event_id_row [run_simps]: "row_event_id (row_of_event ev) = ev_event_id ev"
  by (simp add: row_of_event_def)

lemmas [run_simps] = sqlite_append_def

end
