(* ===== verification/Json_Laws.thy ===== *)
theory Json_Laws
  imports Json_Text
begin

text \<open>
  The two laws of the \<open>json\<close> model: a scanner finds the same value when more text follows, and
  \<open>json.loads\<close> reads back what \<open>json.dumps\<close> has written.
\<close>

section \<open>The scanner stops where the value ends\<close>

lemma then_scan_simps [simp]:
  "then_scan (Scanned v rest) k = k v rest" "then_scan (Rejected e) k = Rejected e"
  "then_scan Beyond k = Beyond"
  by (simp_all add: then_scan_def)

lemma skip_blanks_Cons: "skip_blanks s = c # cs \<Longrightarrow> skip_blanks (s @ q) = c # cs @ q"
  unfolding skip_blanks_def by (metis append_Cons dropWhile_append dropWhile_eq_Nil_conv list.distinct(1))

lemma begins_one: "begins [c] s \<longleftrightarrow> s \<noteq> [] \<and> hd s = c"
  by (cases s) (auto simp: begins_def)

text \<open>\<open>carried q a b\<close>: what \<open>a\<close> found, \<open>b\<close> finds with \<open>q\<close> behind it.\<close>

definition carried :: "string \<Rightarrow> 'a scanned \<Rightarrow> 'a scanned \<Rightarrow> bool" where
  "carried q a b \<longleftrightarrow>
     (case a of Scanned v rest \<Rightarrow> b = Scanned v (rest @ q) | Rejected e \<Rightarrow> True | Beyond \<Rightarrow> b = Beyond)"

named_theorems carried_rules \<open>how scanning carries over to a longer text\<close>

lemma carried_simps [simp]:
  "carried q (Rejected e) b" "carried q (Scanned v rest) (Scanned v (rest @ q))"
  "carried q Beyond Beyond"
  by (simp_all add: carried_def)

lemma carried_map [carried_rules]: "carried q a b \<Longrightarrow> carried q (map_scanned f a) (map_scanned f b)"
  by (cases a) (auto simp: carried_def)

lemma carried_then [carried_rules]:
  "carried q a b \<Longrightarrow> (\<And>v rest. carried q (k v rest) (k' v (rest @ q))) \<Longrightarrow>
   carried q (then_scan a k) (then_scan b k')"
  by (cases a) (auto simp: carried_def)

lemma carried_next [carried_rules]:
  assumes "\<And>cs. carried q (at_end cs) (at_end' (cs @ q))"
    and "\<And>cs. carried q (cont (skip_blanks cs)) (cont' (skip_blanks (cs @ q)))"
  shows "carried q (next_or_end c at_end cont rest) (next_or_end c at_end' cont' (rest @ q))"
  using assms by (cases "skip_blanks rest") (simp_all add: next_or_end_def skip_blanks_Cons)

lemma four_cases:
  obtains h1 h2 h3 h4 rest where "es = h1 # h2 # h3 # h4 # rest"
  | "\<And>(f :: char \<Rightarrow> char \<Rightarrow> char \<Rightarrow> char \<Rightarrow> string \<Rightarrow> 'a) x.
      (case es of h1 # h2 # h3 # h4 # rest \<Rightarrow> f h1 h2 h3 h4 rest | _ \<Rightarrow> x) = x"
proof (cases "\<exists>h1 h2 h3 h4 rest. es = h1 # h2 # h3 # h4 # rest")
  case False
  show ?thesis by (rule that(2)) (use False in \<open>auto split: list.splits\<close>)
qed (use that(1) in blast)

lemma scan_string_carried: "carried q (scan_string s) (scan_string (s @ q))"
proof (induction s rule: scan_string.induct)
  case (2 c cs)
  show ?case
  proof (cases "c = CHR 0x5C \<and> cs \<noteq> [] \<and> hd cs = CHR ''u''")
    case True
    then obtain es where cs: "c = CHR 0x5C" "cs = CHR ''u'' # es" by (cases cs) auto
    show ?thesis
    proof (cases es rule: four_cases [where 'a = "string scanned"])
      case (1 h1 h2 h3 h4 tail)
      show ?thesis
      proof (cases "hex_value [h1, h2, h3, h4]")
        case (Some n)
        with 2(1) [of "CHR ''u''" es h1 "h2 # h3 # h4 # tail" h2 "h3 # h4 # tail" h3 "h4 # tail" h4 tail n] cs 1
        show ?thesis by (simp add: carried_map del: hex_value.simps)
      qed (simp add: cs 1 del: hex_value.simps)
    qed (simp add: cs)
  next
    case False
    then consider "c = CHR 0x22" | "c = CHR 0x5C" "cs = []"
      | e es where "c = CHR 0x5C" "cs = e # es" "e \<noteq> CHR ''u''"
      | "c \<noteq> CHR 0x22" "c \<noteq> CHR 0x5C"
      by (cases cs) auto
    then show ?thesis
    proof cases
      case (3 e es)
      then show ?thesis
        using 2(2) [of e es] by (simp add: carried_map split: option.split)
    next
      case 4
      then show ?thesis using 2(3) by (simp add: carried_map)
    qed simp_all
  qed
qed simp

definition ends_number :: "string \<Rightarrow> bool" where
  "ends_number rest \<longleftrightarrow> rest \<noteq> [] \<and> \<not> is_digit (hd rest) \<and> hd rest \<notin> set ''.eE''"

definition value_ended :: "json \<Rightarrow> string \<Rightarrow> bool" where
  "value_ended v rest \<longleftrightarrow> (case v of JInt i \<Rightarrow> ends_number rest | _ \<Rightarrow> True)"

lemma float_follows_append: "float_follows rest \<Longrightarrow> float_follows (rest @ q)"
  by (auto simp: float_follows_def split: list.splits if_splits)

lemma float_follows_ended: "ends_number rest \<Longrightarrow> \<not> float_follows (rest @ q)"
  by (cases rest) (simp_all add: float_follows_def ends_number_def)

lemma whole_digits_append:
  assumes "takeWhile is_digit ds \<noteq> []" "drop (length (whole_digits ds)) ds \<noteq> []"
  shows "whole_digits (ds @ q) = whole_digits ds" "takeWhile is_digit (ds @ q) \<noteq> []"
    "drop (length (whole_digits ds)) (ds @ q) = drop (length (whole_digits ds)) ds @ q"
proof -
  obtain d ts where ds: "ds = d # ts" "is_digit d" using assms(1) by (cases ds) (auto split: if_splits)
  show "takeWhile is_digit (ds @ q) \<noteq> []" using ds by simp
  show "drop (length (whole_digits ds)) (ds @ q) = drop (length (whole_digits ds)) ds @ q"
    using assms(2) by simp
  show "whole_digits (ds @ q) = whole_digits ds"
  proof (cases "d = CHR ''0''")
    case False
    then have "takeWhile is_digit ds \<noteq> ds" using assms(2) ds(1)
      by (metis drop_eq_Nil2 list.sel(1) order_refl whole_digits_def)
    then obtain x where "x \<in> set ds" "\<not> is_digit x" using takeWhile_eq_all_conv by blast
    then have "takeWhile is_digit (ds @ q) = takeWhile is_digit ds" by (rule takeWhile_append1)
    then show ?thesis using False ds(1) by (simp add: whole_digits_def del: takeWhile.simps)
  qed (simp add: whole_digits_def ds(1))
qed

lemma scan_digits_carried:
  assumes "\<And>v rest. scan_digits negative ds = Scanned v rest \<Longrightarrow> ends_number rest"
  shows "carried q (scan_digits negative ds) (scan_digits negative (ds @ q))"
proof (cases "takeWhile is_digit ds \<noteq> [] \<and> drop (length (whole_digits ds)) ds \<noteq> []")
  case True
  note w = whole_digits_append [of ds q]
  show ?thesis
    using assms True w float_follows_append float_follows_ended [of _ q]
    by (auto simp: scan_digits_def Let_def)
next
  case False
  then have "float_follows (drop (length (whole_digits ds)) ds) \<Longrightarrow> takeWhile is_digit ds = []"
    by (auto simp: float_follows_def)
  moreover have "\<not> ends_number (drop (length (whole_digits ds)) ds)" if "takeWhile is_digit ds \<noteq> []"
    using that False by (auto simp: ends_number_def)
  ultimately show ?thesis using assms by (auto simp: scan_digits_def Let_def split: if_splits)
qed

lemma scan_number_carried:
  assumes "\<And>v rest. scan_number s = Scanned v rest \<Longrightarrow> ends_number rest"
  shows "carried q (scan_number s) (scan_number (s @ q))"
proof (cases s)
  case Nil
  then show ?thesis by (simp add: scan_number_def scan_digits_def begins_one)
next
  case (Cons c cs)
  then show ?thesis
    using assms scan_digits_carried [of True cs q] scan_digits_carried [of False s q]
    by (simp add: scan_number_def begins_one)
qed

lemma scan_digits_start: "scan_digits negative ds = Rejected json_error \<or> (\<exists>d ts. ds = d # ts \<and> is_digit d)"
  by (cases ds) (auto simp: scan_digits_def)

lemma not_digit [simp]:
  "\<not> is_digit (CHR ''n'')" "\<not> is_digit (CHR ''t'')" "\<not> is_digit (CHR ''f'')"
  "\<not> is_digit (CHR ''N'')" "\<not> is_digit (CHR ''I'')" "\<not> is_digit (CHR ''-'')"
  "\<not> is_digit (CHR 0x22)" "\<not> is_digit (CHR ''['')" "\<not> is_digit (CHR ''{'')"
  by (simp_all add: is_digit_def)

lemma scan_number_start:
  "scan_number s = Rejected json_error \<or>
   (\<exists>d ts. is_digit d \<and> (s = d # ts \<or> s = CHR ''-'' # d # ts))"
  using scan_digits_start [of True "tl s"] scan_digits_start [of False s]
  by (cases s) (auto simp: scan_number_def begins_one)

lemma scan_atom_number:
  "is_digit d \<Longrightarrow> s = d # ts \<or> s = CHR ''-'' # d # ts \<Longrightarrow> scan_atom s = scan_number s"
  by (auto simp: scan_atom_def begins_def)

lemma scan_atom_carried:
  assumes "\<And>v rest. scan_atom s = Scanned v rest \<Longrightarrow> value_ended v rest"
  shows "carried q (scan_atom s) (scan_atom (s @ q))"
proof (cases "scan_number s = Rejected json_error")
  case False
  then obtain d ts where d: "is_digit d" "s = d # ts \<or> s = CHR ''-'' # d # ts"
    using scan_number_start by blast
  then have "scan_atom s = scan_number s" "scan_atom (s @ q) = scan_number (s @ q)"
    by (auto intro: scan_atom_number)
  moreover have "value_ended v rest \<Longrightarrow> ends_number rest" if "scan_number s = Scanned v rest" for v rest
    using that by (auto simp: scan_number_def scan_digits_def Let_def value_ended_def split: if_splits)
  ultimately show ?thesis using scan_number_carried [of s q] assms by simp
next
  case True
  let ?words = "[''null'', ''true'', ''false'', ''NaN'', ''Infinity'', ''-Infinity'']"
  show ?thesis
  proof (cases "begins [CHR 0x22] s")
    case True
    then show ?thesis
      using scan_string_carried [of q "tl s"] by (simp add: scan_atom_def begins_one carried_map)
  next
    case no_string: False
    show ?thesis
    proof (cases "\<exists>w\<in>set ?words. begins w s")
      case True
      then obtain w where "w \<in> set ?words" "s = w @ drop (length w) s"
        by (metis append_take_drop_id begins_def)
      then obtain t where w: "w = ''null'' \<or> w = ''true'' \<or> w = ''false'' \<or> w = ''NaN'' \<or>
          w = ''Infinity'' \<or> w = ''-Infinity''" and s: "s = w @ t" by auto
      from w show ?thesis unfolding s by (elim disjE) (simp_all add: scan_atom_def begins_def)
    next
      case False
      then have "scan_atom s = Rejected json_error"
        using no_string \<open>scan_number s = Rejected json_error\<close> by (simp add: scan_atom_def)
      then show ?thesis by simp
    qed
  qed
qed

text \<open>What holds of the scanner of the values inside holds of the loops around it.\<close>

definition steady :: "(string \<Rightarrow> json scanned) \<Rightarrow> bool" where
  "steady scan \<longleftrightarrow> scan [] = Rejected json_error \<and>
     (\<forall>s q. (\<forall>v rest. scan s = Scanned v rest \<longrightarrow> value_ended v rest) \<longrightarrow> carried q (scan s) (scan (s @ q)))"

lemma next_ended:
  assumes "\<not> value_ended v rest" "c \<in> set '']}''"
  shows "next_or_end c at_end cont rest = Rejected json_error"
proof -
  have e: "\<not> ends_number rest" using assms(1) by (auto simp: value_ended_def split: json.splits)
  show ?thesis
  proof (cases rest)
    case (Cons r rs)
    then have "is_digit r \<or> r \<in> set ''.eE''" using e by (auto simp: ends_number_def)
    then have "\<not> is_blank r" "r \<noteq> CHR '',''" "r \<noteq> c"
      using assms(2) by (auto simp: is_blank_def is_digit_def)
    then show ?thesis by (simp add: next_or_end_def skip_blanks_def Cons)
  qed (simp add: next_or_end_def skip_blanks_def)
qed

lemma carried_value [carried_rules]:
  assumes "steady scan" "c \<in> set '']}''"
    and "\<And>v rest. carried q (next_or_end c (at_end v) (cont v) rest)
      (next_or_end c (at_end' v) (cont' v) (rest @ q))"
  shows "carried q (then_scan (scan s) (\<lambda>v. next_or_end c (at_end v) (cont v)))
    (then_scan (scan (s @ q)) (\<lambda>v. next_or_end c (at_end' v) (cont' v)))"
proof (cases "\<exists>v rest. scan s = Scanned v rest \<and> \<not> value_ended v rest")
  case True
  then obtain v rest where "scan s = Scanned v rest" "\<not> value_ended v rest" by blast
  then show ?thesis using assms(2) by (simp add: next_ended)
next
  case False
  then have "carried q (scan s) (scan (s @ q))" using assms(1) by (auto simp: steady_def)
  then show ?thesis by (rule carried_then) (rule assms(3))
qed

lemma carried_blanks:
  assumes "carried q (scan (skip_blanks cs)) (scan' (skip_blanks cs @ q))" "scan [] = Rejected json_error"
  shows "carried q (scan (skip_blanks cs)) (scan' (skip_blanks (cs @ q)))"
  using assms by (cases "skip_blanks cs") (simp_all add: skip_blanks_Cons)

lemma scan_items_Nil: "scan [] = Rejected json_error \<Longrightarrow> scan_items scan n [] = Rejected json_error"
  by (cases n) simp_all

lemma scan_members_Nil: "scan_members scan n [] = Rejected json_error"
  by (cases n) (simp_all add: begins_one)

lemma scan_items_carried:
  assumes "steady scan"
  shows "n \<le> m \<Longrightarrow> carried q (scan_items scan n s) (scan_items scan m (s @ q))"
proof (induction n arbitrary: m s)
  case (Suc n)
  then obtain k where m: "m = Suc k" "n \<le> k" by (cases m) auto
  have "carried q (map_scanned ((#) v) (scan_items scan n (skip_blanks cs)))
      (map_scanned ((#) v) (scan_items scan k (skip_blanks (cs @ q))))" for v cs
    by (rule carried_map, rule carried_blanks [where scan = "scan_items scan n"
          and scan' = "scan_items scan k"])
      (use assms Suc.IH [OF m(2)] scan_items_Nil in \<open>auto simp: steady_def\<close>)
  then show ?case unfolding m(1)
    by (simp, intro carried_value [OF assms] carried_next) simp_all
qed simp

lemma scan_members_carried:
  assumes "steady scan"
  shows "n \<le> m \<Longrightarrow> carried q (scan_members scan n s) (scan_members scan m (s @ q))"
proof (induction n arbitrary: m s)
  case (Suc n)
  then obtain k where m: "m = Suc k" "n \<le> k" by (cases m) auto
  have cont: "carried q (map_scanned ((#) kv) (scan_members scan n (skip_blanks cs)))
      (map_scanned ((#) kv) (scan_members scan k (skip_blanks (cs @ q))))" for kv cs
    by (rule carried_map, rule carried_blanks [where scan = "scan_members scan n"
          and scan' = "scan_members scan k"])
      (use Suc.IH [OF m(2)] scan_members_Nil in auto)
  let ?k = "\<lambda>n key v. next_or_end (CHR ''}'') (Scanned [(key, v)])
      (\<lambda>t. map_scanned ((#) (key, v)) (scan_members scan n t))"
  have v: "carried q (then_scan (scan (skip_blanks u)) (?k n key))
      (then_scan (scan (skip_blanks (u @ q))) (?k k key))" for u key
    by (rule carried_blanks [where scan = "\<lambda>s. then_scan (scan s) (?k n key)"
          and scan' = "\<lambda>s. then_scan (scan s) (?k k key)"])
      (use assms in \<open>auto simp: steady_def cont intro!: carried_value [OF assms] carried_next\<close>)
  have "carried q
      (if \<not> begins '':'' (skip_blanks t) then Rejected json_error
       else then_scan (scan (skip_blanks (tl (skip_blanks t)))) (?k n key))
      (if \<not> begins '':'' (skip_blanks (t @ q)) then Rejected json_error
       else then_scan (scan (skip_blanks (tl (skip_blanks (t @ q))))) (?k k key))" for t key
    using v by (cases "skip_blanks t") (simp_all add: begins_one skip_blanks_Cons)
  then show ?case unfolding m(1)
    by (cases s) (simp_all add: begins_one carried_then [OF scan_string_carried])
qed simp

lemma scan_list_carried:
  assumes "steady scan"
  shows "carried q (scan_list scan s) (scan_list scan (s @ q))"
proof (cases "skip_blanks s")
  case Nil
  then show ?thesis by (simp add: scan_list_def begins_one)
next
  case (Cons c cs)
  show ?thesis
    using scan_items_carried [OF assms, of "length (c # cs)" "length (c # cs @ q)" q "c # cs"]
    by (simp add: scan_list_def Cons skip_blanks_Cons [OF Cons] Let_def begins_one carried_map
        del: scan_items.simps)
qed

lemma scan_object_carried:
  assumes "steady scan"
  shows "carried q (scan_object scan s) (scan_object scan (s @ q))"
proof (cases "skip_blanks s")
  case Nil
  then show ?thesis by (simp add: scan_object_def begins_one)
next
  case (Cons c cs)
  show ?thesis
    using scan_members_carried [OF assms, of "length (c # cs)" "length (c # cs @ q)" q "c # cs"]
    by (simp add: scan_object_def Cons skip_blanks_Cons [OF Cons] Let_def begins_one carried_map
        del: scan_members.simps)
qed

lemma scan_atom_Nil [simp]: "scan_atom [] = Rejected json_error"
  by (simp add: scan_atom_def scan_number_def scan_digits_def begins_def)

lemma steady_scan_value: "steady (scan_value d)"
proof (induction d)
  case 0
  have "carried q (scan_value 0 s) (scan_value 0 (s @ q))"
    if "\<forall>v rest. scan_value 0 s = Scanned v rest \<longrightarrow> value_ended v rest" for s q
    using that scan_atom_carried [of s q] by (cases s) (auto simp: begins_one)
  then show ?case by (auto simp: steady_def begins_one)
next
  case (Suc d)
  have "carried q (scan_value (Suc d) s) (scan_value (Suc d) (s @ q))"
    if "\<forall>v rest. scan_value (Suc d) s = Scanned v rest \<longrightarrow> value_ended v rest" for s q
    using that scan_atom_carried [of s q] scan_list_carried [OF Suc, of q "tl s"]
      scan_object_carried [OF Suc, of q "tl s"]
    by (cases s) (auto simp: begins_one)
  then show ?case by (auto simp: steady_def begins_one)
qed

section \<open>Reading back\<close>

text \<open>Strings.\<close>

lemma special_chars:
  "char_of (34 :: nat) = CHR 0x22" "char_of (92 :: nat) = CHR 0x5C" "char_of (10 :: nat) = CHR 0x0A"
  "char_of (13 :: nat) = CHR 0x0D" "char_of (9 :: nat) = CHR 0x09" "char_of (8 :: nat) = CHR 0x08"
  "char_of (12 :: nat) = CHR 0x0C"
  by code_simp+

lemma hex_digit_inverse: "v < 16 \<Longrightarrow> hex_digit_value (hex_digit v) = Some v"
  by (simp add: hex_digit_value_def hex_digit_def)

lemma scan_json_char: "scan_string (json_char c @ t) = map_scanned ((#) c) (scan_string t)"
proof -
  define n where "n = (of_char c :: nat)"
  have c: "c = char_of n" and n: "n < 256"
    using nat_of_char_less_256 [of c] by (simp_all add: n_def)
  consider "n \<in> {34, 92, 10, 13, 9, 8, 12}" | "n \<notin> {34, 92, 10, 13, 9, 8, 12}" "32 \<le> n" "n < 127"
    | "n \<notin> {34, 92, 10, 13, 9, 8, 12}" "n < 32 \<or> 127 \<le> n"
    by linarith
  then show ?thesis
  proof cases
    case 1
    then show ?thesis
      unfolding c by (auto simp: json_char_def special_chars escaped_def)
  next
    case 2
    then have "c \<noteq> CHR 0x22" "c \<noteq> CHR 0x5C" by (auto simp: n_def)
    with 2 show ?thesis by (simp add: json_char_def n_def)
  next
    case 3
    then have "json_char c = [CHR 0x5C, CHR ''u'', CHR ''0'', CHR ''0'', hex_digit (n div 16), hex_digit (n mod 16)]"
      by (auto simp: json_char_def Let_def simp flip: n_def)
    moreover have "hex_value [CHR ''0'', CHR ''0'', hex_digit (n div 16), hex_digit (n mod 16)] = Some n"
      using n by (simp add: hex_digit_inverse hex_digit_value_def [of "CHR ''0''"])
    ultimately show ?thesis using n c by (simp del: hex_value.simps)
  qed
qed

lemma scan_json_text: "scan_string (concat (map json_char s) @ CHR 0x22 # rest) = Scanned s rest"
  by (induction s) (simp_all add: scan_json_char)

lemma scan_json_string: "scan_string (tl (json_string s) @ rest) = Scanned s rest"
  using scan_json_text by (simp add: json_string_def)

text \<open>Numbers.\<close>

declare decimal.simps [simp del]

lemma digit_char_value:
  "n < 10 \<Longrightarrow> is_digit (char_of (48 + n))" "n < 10 \<Longrightarrow> of_char (char_of (48 + n :: nat)) = (48 + n :: nat)"
  by (simp_all add: is_digit_def)

lemma digits_value_snoc: "digits_value (ds @ [c]) = digits_value ds * 10 + (of_char c - 48)"
  by (simp add: digits_value_def)

lemma decimal_digits:
  "decimal n \<noteq> [] \<and> list_all is_digit (decimal n) \<and> digits_value (decimal n) = n \<and>
   (hd (decimal n) = CHR ''0'' \<longleftrightarrow> n = 0)"
proof (induction n rule: decimal.induct)
  case (1 n)
  show ?case
  proof (cases "n < 10")
    case True
    then have "decimal n = [char_of (48 + n)]" by (simp add: decimal.simps [of n])
    moreover have "char_of (48 + n) = CHR ''0'' \<longleftrightarrow> n = 0"
    proof
      assume "char_of (48 + n) = CHR ''0''"
      then have "of_char (char_of (48 + n)) = (of_char (CHR ''0'') :: nat)" by (rule arg_cong)
      then show "n = 0" unfolding digit_char_value(2) [OF True] by simp
    qed (simp add: digit_chars)
    ultimately show ?thesis using digit_char_value [OF True] by (simp add: digits_value_def)
  next
    case False
    then have d: "decimal n = decimal (n div 10) @ [char_of (48 + n mod 10)]"
      by (simp add: decimal.simps [of n])
    have m: "n mod 10 < 10" by simp
    show ?thesis
      using 1 False digit_char_value [OF m] unfolding d digits_value_snoc by auto
  qed
qed

lemma takeWhile_all: "list_all P xs \<Longrightarrow> ys = [] \<or> \<not> P (hd ys) \<Longrightarrow> takeWhile P (xs @ ys) = xs"
  by (induction xs) (auto simp: neq_Nil_conv takeWhile_eq_Nil_iff)

definition value_closed :: "string \<Rightarrow> bool" where
  "value_closed rest \<longleftrightarrow> rest = [] \<or> hd rest \<in> set '',]}'' \<or> is_blank (hd rest)"

lemma scan_decimal:
  assumes "value_closed rest" "length (decimal n) \<le> 4300"
  shows "scan_digits negative (decimal n @ rest) =
    Scanned (JInt ((if negative then - 1 else 1) * int n)) rest"
proof -
  note d = decimal_digits [of n]
  have "takeWhile is_digit (decimal n @ rest) = decimal n"
    using d assms(1) by (intro takeWhile_all) (auto simp: value_closed_def is_digit_def is_blank_def)
  moreover have "decimal 0 = ''0''" by code_simp
  then have "whole_digits (decimal n @ rest) = decimal n"
    using calculation d by (auto simp: whole_digits_def)
  moreover have "\<not> float_follows rest"
    using assms(1) by (cases rest) (auto simp: value_closed_def is_blank_def float_follows_def)
  ultimately show ?thesis using d assms(2) by (simp add: scan_digits_def)
qed

lemma scan_int_text:
  assumes "value_closed rest" "length (decimal (nat \<bar>i\<bar>)) \<le> 4300"
  shows "scan_number (int_text i @ rest) = Scanned (JInt i) rest"
proof (cases "i < 0")
  case True
  then show ?thesis using scan_decimal [OF assms, of True] by (simp add: int_text_def scan_number_def begins_one)
next
  case False
  have "hd (decimal n @ rest) \<noteq> CHR ''-''" for n
    using decimal_digits [of n] by (cases "decimal n") auto
  then show ?thesis
    using False scan_decimal [OF assms, of False] by (simp add: int_text_def scan_number_def begins_one)
qed

text \<open>Values: no floats, short numbers, distinct keys, nested at most \<open>d\<close> deep.\<close>

fun rereadable :: "nat \<Rightarrow> json \<Rightarrow> bool" where
  "rereadable d (JFloat x) \<longleftrightarrow> False"
| "rereadable d (JInt i) \<longleftrightarrow> length (decimal (nat \<bar>i\<bar>)) \<le> 4300"
| "rereadable 0 (JList vs) \<longleftrightarrow> False"
| "rereadable (Suc d) (JList vs) \<longleftrightarrow> list_all (rereadable d) vs"
| "rereadable 0 (JObj kvs) \<longleftrightarrow> False"
| "rereadable (Suc d) (JObj kvs) \<longleftrightarrow>
     distinct (map fst kvs) \<and> list_all (\<lambda>(k, v). rereadable d v) kvs"
| "rereadable d v \<longleftrightarrow> True"

definition separators :: "string \<Rightarrow> string \<Rightarrow> bool" where
  "separators commas colons \<longleftrightarrow>
     commas \<noteq> [] \<and> hd commas = CHR '','' \<and> list_all is_blank (tl commas) \<and>
     colons \<noteq> [] \<and> hd colons = CHR '':'' \<and> list_all is_blank (tl colons)"

lemma separatorsE:
  assumes "separators commas colons"
  obtains b1 b2 where "commas = CHR '','' # b1" "list_all is_blank b1"
    "colons = CHR '':'' # b2" "list_all is_blank b2"
  using assms by (cases commas; cases colons) (auto simp: separators_def)

lemma skip_blanks_blanks: "list_all is_blank b \<Longrightarrow> skip_blanks (b @ s) = skip_blanks s"
  by (induction b) (simp_all add: skip_blanks_def)

text \<open>How the text of a value begins.\<close>

definition begins_value :: "string \<Rightarrow> bool" where
  "begins_value s \<longleftrightarrow> s \<noteq> [] \<and> \<not> is_blank (hd s) \<and> hd s \<notin> set '']}''"

lemma skip_blanks_value: "begins_value s \<Longrightarrow> skip_blanks (s @ t) = s @ t"
  by (cases s) (auto simp: begins_value_def skip_blanks_def)

lemma int_text_start: "\<exists>c cs. int_text i = c # cs \<and> (is_digit c \<or> c = CHR ''-'')"
proof -
  obtain c cs where "decimal (nat \<bar>i\<bar>) = c # cs" "is_digit c"
    using decimal_digits [of "nat \<bar>i\<bar>"] by (cases "decimal (nat \<bar>i\<bar>)") auto
  then show ?thesis by (auto simp: int_text_def)
qed

lemma dumps_begins_value:
  assumes "rereadable d v"
  shows "begins_value (json_dumps J commas colons v)"
proof (cases v)
  case (JInt i)
  then show ?thesis
    using int_text_start [of i] by (auto simp: begins_value_def is_digit_def is_blank_def)
qed (use assms in \<open>auto simp: begins_value_def is_blank_def json_string_def\<close>)

lemma next_closed:
  "next_or_end c at_end cont (c # rest) = at_end rest"
  if "\<not> is_blank c"
  using that by (simp add: next_or_end_def skip_blanks_def)

lemma next_comma:
  assumes "list_all is_blank b" "begins_value s" "c \<noteq> CHR '',''"
  shows "next_or_end c at_end cont (CHR '','' # b @ s @ t) = cont (s @ t)"
proof -
  have "skip_blanks (CHR '','' # b @ s @ t) = CHR '','' # b @ s @ t"
    by (simp add: skip_blanks_def is_blank_def)
  then show ?thesis
    using assms by (simp add: next_or_end_def skip_blanks_blanks skip_blanks_value)
qed

lemma separated_Cons: "xs \<noteq> [] \<Longrightarrow> separated sep (x # xs) = x @ sep @ separated sep xs"
  by (cases xs) simp_all

lemma separated_begins: "xs \<noteq> [] \<Longrightarrow> list_all begins_value xs \<Longrightarrow> begins_value (separated sep xs)"
  by (cases xs; cases "tl xs") (auto simp: begins_value_def)

lemma length_separated: "list_all begins_value xs \<Longrightarrow> length xs \<le> length (separated sep xs)"
proof (induction xs)
  case (Cons x xs)
  then show ?case by (cases x; cases "xs = []") (auto simp: begins_value_def separated_Cons)
qed simp

text \<open>The loops read the elements, given that the scanner inside reads each of them.\<close>

definition reads_back :: "(string \<Rightarrow> 'a scanned) \<Rightarrow> ('a \<Rightarrow> string) \<Rightarrow> 'a \<Rightarrow> bool" where
  "reads_back scan show_value v \<longleftrightarrow>
     begins_value (show_value v) \<and>
     (\<forall>rest. value_closed rest \<longrightarrow> scan (show_value v @ rest) = Scanned v rest)"

lemma scan_items_separated:
  assumes "list_all is_blank b"
  shows "vs \<noteq> [] \<Longrightarrow> list_all (reads_back scan show_value) vs \<Longrightarrow> length vs \<le> n \<Longrightarrow>
    scan_items scan n (separated (CHR '','' # b) (map show_value vs) @ CHR '']'' # rest) = Scanned vs rest"
proof (induction vs arbitrary: n)
  case (Cons v vs)
  then obtain m where n: "n = Suc m" "length vs \<le> m" by (cases n) auto
  have v: "scan (show_value v @ t) = Scanned v t" if "value_closed t" for t
    using Cons.prems that by (auto simp: reads_back_def)
  show ?case
  proof (cases "vs = []")
    case True
    then show ?thesis
      using v by (simp add: n value_closed_def next_closed is_blank_def)
  next
    case False
    have "begins_value (separated (CHR '','' # b) (map show_value vs))"
      using Cons.prems False by (intro separated_begins) (auto simp: list_all_iff reads_back_def)
    then show ?thesis
      using Cons False v n
      by (simp add: separated_Cons value_closed_def next_comma [OF assms])
  qed
qed simp

lemma scan_members_separated:
  assumes "list_all is_blank b" "list_all is_blank b'"
  shows "kvs \<noteq> [] \<Longrightarrow> list_all (\<lambda>(k, v). reads_back scan show_value v) kvs \<Longrightarrow> length kvs \<le> n \<Longrightarrow>
    scan_members scan n
      (separated (CHR '','' # b) (map (\<lambda>(k, v). json_string k @ CHR '':'' # b' @ show_value v) kvs) @
       CHR ''}'' # rest) = Scanned kvs rest"
proof (induction kvs arbitrary: n)
  case (Cons kv kvs)
  obtain k v where kv: "kv = (k, v)" by force
  obtain m where n: "n = Suc m" "length kvs \<le> m" using Cons.prems by (cases n) auto
  have v: "scan (skip_blanks (b' @ show_value v @ t)) = Scanned v t" if "value_closed t" for t
    using Cons.prems that assms(2) by (auto simp: kv reads_back_def skip_blanks_blanks skip_blanks_value)
  have key: "begins [CHR 0x22] (json_string k @ t)" "scan_string (tl (json_string k @ t)) = Scanned k t" for t
    using scan_json_string [of k t] by (simp_all add: json_string_def begins_one)
  have colon: "skip_blanks (CHR '':'' # t) = CHR '':'' # t" "begins '':'' (CHR '':'' # t)" for t
    by (simp_all add: skip_blanks_def is_blank_def begins_one)
  show ?case
  proof (cases "kvs = []")
    case True
    then show ?thesis
      using v by (simp add: n kv key colon value_closed_def next_closed is_blank_def)
  next
    case False
    let ?show = "\<lambda>(k, v). json_string k @ CHR '':'' # b' @ show_value v"
    have "begins_value (separated (CHR '','' # b) (map ?show kvs))"
      using False by (intro separated_begins)
        (auto simp: list_all_iff begins_value_def json_string_def is_blank_def)
    then show ?thesis
      using Cons False v n
      by (simp add: separated_Cons kv key colon value_closed_def next_comma [OF assms(1)])
  qed
qed simp

lemma object_of_distinct: "distinct (map fst kvs) \<Longrightarrow> object_of kvs = kvs"
proof -
  have new: "k \<notin> fst ` set d \<Longrightarrow> AList.update k v d = d @ [(k, v)]" for k v and d :: json_object
    by (induction d) auto
  have "distinct (map fst (d @ kvs)) \<Longrightarrow> foldl (\<lambda>d (k, v). AList.update k v d) d kvs = d @ kvs" for d
  proof (induction kvs arbitrary: d)
    case (Cons kv kvs)
    then show ?case by (cases kv) (simp add: new)
  qed simp
  from this [of "[]"] show "distinct (map fst kvs) \<Longrightarrow> object_of kvs = kvs" by (simp add: object_of_def)
qed

lemma scan_list_separated:
  assumes "list_all is_blank b" "vs \<noteq> []" "list_all (reads_back scan show_value) vs"
  shows "scan_list scan (separated (CHR '','' # b) (map show_value vs) @ CHR '']'' # rest) =
    Scanned (JList vs) rest"
proof -
  let ?s = "separated (CHR '','' # b) (map show_value vs)"
  have b: "list_all begins_value (map show_value vs)"
    using assms(3) by (auto simp: list_all_iff reads_back_def)
  have s: "begins_value ?s" "length vs \<le> length ?s"
    using separated_begins [OF _ b] length_separated [OF b] assms(2) by simp_all
  then have "\<not> begins '']'' (?s @ CHR '']'' # rest)" by (auto simp: begins_one begins_value_def)
  moreover have "scan_items scan (length (?s @ CHR '']'' # rest)) (?s @ CHR '']'' # rest) = Scanned vs rest"
    using s(2) by (intro scan_items_separated assms) simp
  ultimately show ?thesis
    unfolding scan_list_def skip_blanks_value [OF s(1)] Let_def by simp
qed

lemma scan_object_separated:
  assumes "list_all is_blank b" "list_all is_blank b'" "kvs \<noteq> []" "distinct (map fst kvs)"
    and "list_all (\<lambda>(k, v). reads_back scan show_value v) kvs"
  shows "scan_object scan
      (separated (CHR '','' # b) (map (\<lambda>(k, v). json_string k @ CHR '':'' # b' @ show_value v) kvs) @
       CHR ''}'' # rest) = Scanned (JObj kvs) rest"
proof -
  let ?s = "separated (CHR '','' # b) (map (\<lambda>(k, v). json_string k @ CHR '':'' # b' @ show_value v) kvs)"
  have b: "list_all begins_value (map (\<lambda>(k, v). json_string k @ CHR '':'' # b' @ show_value v) kvs)"
    by (auto simp: list_all_iff begins_value_def json_string_def is_blank_def)
  have s: "begins_value ?s" "length kvs \<le> length ?s"
    using separated_begins [OF _ b] length_separated [OF b] assms(3) by simp_all
  then have "\<not> begins ''}'' (?s @ CHR ''}'' # rest)" by (auto simp: begins_one begins_value_def)
  moreover have "scan_members scan (length (?s @ CHR ''}'' # rest)) (?s @ CHR ''}'' # rest) = Scanned kvs rest"
    using s(2) by (intro scan_members_separated assms) simp
  ultimately show ?thesis
    unfolding scan_object_def skip_blanks_value [OF s(1)] Let_def
    by (simp add: object_of_distinct assms(4))
qed

lemma scan_atom_of_number: "scan_number s = Scanned v rest \<Longrightarrow> scan_atom s = Scanned v rest"
  using scan_number_start [of s] scan_atom_number [of _ s] by auto

lemma scan_value_atom:
  "s \<noteq> [] \<Longrightarrow> hd s \<noteq> CHR ''['' \<Longrightarrow> hd s \<noteq> CHR ''{'' \<Longrightarrow> scan_value d s = scan_atom s"
  by (cases d) (simp_all add: begins_one)

lemma scan_value_open:
  "scan_value (Suc d) (CHR ''['' # s) = scan_list (scan_value d) s"
  "scan_value (Suc d) (CHR ''{'' # s) = scan_object (scan_value d) s"
  by (simp_all add: begins_one)

lemma scan_dumps:
  assumes "separators commas colons"
  shows "rereadable d v \<Longrightarrow> value_closed rest \<Longrightarrow>
    scan_value d (json_dumps J commas colons v @ rest) = Scanned v rest"
proof -
  obtain b b' where sep: "commas = CHR '','' # b" "list_all is_blank b"
    "colons = CHR '':'' # b'" "list_all is_blank b'"
    using assms by (rule separatorsE)
  let ?show = "json_dumps J commas colons"
  show "rereadable d v \<Longrightarrow> value_closed rest \<Longrightarrow> scan_value d (?show v @ rest) = Scanned v rest"
  proof (induction d v arbitrary: rest rule: rereadable.induct)
    case (2 d i)
    obtain c cs where i: "int_text i = c # cs" "is_digit c \<or> c = CHR ''-''" using int_text_start by blast
    then have "scan_value d (int_text i @ rest) = scan_atom (int_text i @ rest)"
      by (intro scan_value_atom) (auto simp: is_digit_def)
    moreover have "scan_number (int_text i @ rest) = Scanned (JInt i) rest"
      using 2 by (intro scan_int_text) simp_all
    ultimately show ?case using scan_atom_of_number by simp
  next
    case (4 d vs)
    have r: "list_all (reads_back (scan_value d) ?show) vs"
      using 4 dumps_begins_value by (auto simp: list_all_iff reads_back_def)
    show ?case
    proof (cases "vs = []")
      case True
      then show ?thesis
        by (simp add: scan_value_open scan_list_def skip_blanks_def is_blank_def begins_one del: scan_value.simps)
    qed (use scan_list_separated [OF sep(2) _ r] in \<open>simp add: scan_value_open sep(1) del: scan_value.simps\<close>)
  next
    case (6 d kvs)
    have r: "list_all (\<lambda>(k, v). reads_back (scan_value d) ?show v) kvs"
      using 6 dumps_begins_value by (fastforce simp: list_all_iff reads_back_def)
    show ?case
    proof (cases "kvs = []")
      case True
      then show ?thesis
        by (simp add: scan_value_open scan_object_def skip_blanks_def is_blank_def begins_one del: scan_value.simps)
    qed (use scan_object_separated [OF sep(2,4) _ _ r] 6 in
        \<open>simp add: scan_value_open sep(1,3) del: scan_value.simps\<close>)
  qed (simp_all add: scan_value_atom scan_atom_def begins_def json_string_def
      scan_json_text del: scan_value.simps)
qed

section \<open>The laws\<close>

lemma json_loads_dumps_blanks:
  assumes "separators commas colons" "rereadable (jp_depth J) v" "list_all is_blank b"
  shows "json_loads J (json_dumps J commas colons v @ b) = Inr v"
proof -
  have "skip_blanks (json_dumps J commas colons v @ b) = json_dumps J commas colons v @ b"
    by (rule skip_blanks_value) (rule dumps_begins_value [OF assms(2)])
  moreover have "value_closed b" "skip_blanks b = []"
    using assms(3) by (cases b; auto simp: value_closed_def is_blank_def skip_blanks_def list_all_iff)+
  ultimately show ?thesis
    using scan_dumps [OF assms(1,2), of b] by (simp add: json_loads_def)
qed

lemma json_loads_dumps:
  "separators commas colons \<Longrightarrow> rereadable (jp_depth J) v \<Longrightarrow>
   json_loads J (json_dumps J commas colons v) = Inr v"
  using json_loads_dumps_blanks [of commas colons J v "[]"] by simp

text \<open>The text of an object is refused when its end is missing.\<close>

lemma json_loads_cut_short:
  assumes "separators commas colons" "rereadable (jp_depth J) (JObj kvs)"
    and "json_dumps J commas colons (JObj kvs) = p @ q" "q \<noteq> []"
  shows "\<exists>e. json_loads J p = Inl e"
proof (cases p)
  case Nil
  have "scan_value d [] = Rejected json_error" for d using steady_scan_value by (simp add: steady_def)
  then show ?thesis by (simp add: Nil json_loads_def skip_blanks_def)
next
  case (Cons c t)
  obtain d where d: "jp_depth J = Suc d" using assms(2) by (cases "jp_depth J") auto
  have c: "c = CHR ''{''" using assms(3) Cons by simp
  have "scan_value (jp_depth J) (json_dumps J commas colons (JObj kvs) @ []) = Scanned (JObj kvs) []"
    by (rule scan_dumps [OF assms(1,2)]) (simp add: value_closed_def)
  then have "scan_value (Suc d) (p @ q) = Scanned (JObj kvs) []"
    unfolding assms(3) d by (simp only: append_Nil2)
  then have "scan_object (scan_value d) (t @ q) = Scanned (JObj kvs) []"
    by (simp only: Cons c append_Cons scan_value_open)
  moreover have "carried q (scan_object (scan_value d) t) (scan_object (scan_value d) (t @ q))"
    by (rule scan_object_carried [OF steady_scan_value])
  ultimately obtain e where "scan_object (scan_value d) t = Rejected e"
    using assms(4) by (cases "scan_object (scan_value d) t") (auto simp: carried_def)
  moreover have "skip_blanks p = p" by (simp add: Cons c skip_blanks_def is_blank_def)
  ultimately show ?thesis
    by (simp add: json_loads_def d Cons c scan_value_open del: scan_value.simps)
qed

text \<open>What is written is printable ASCII, on one line.\<close>

definition printable :: "char \<Rightarrow> bool" where
  "printable c \<longleftrightarrow> 32 \<le> (of_char c :: nat) \<and> (of_char c :: nat) < 127"

lemma printable_hex_digit: "v < 16 \<Longrightarrow> printable (hex_digit v)"
  by (simp add: printable_def hex_digit_def)

lemma printable_json_char: "list_all printable (json_char c)"
proof -
  have "(of_char c :: nat) < 256" using nat_of_char_less_256 [of c] by simp
  then have h: "printable (hex_digit ((of_char c :: nat) div 16))" "printable (hex_digit ((of_char c :: nat) mod 16))"
    by (intro printable_hex_digit; simp add: less_mult_imp_div_less)+
  have p: "printable (CHR 0x5C)" "printable (CHR 0x22)" "printable (CHR ''n'')" "printable (CHR ''r'')"
    "printable (CHR ''t'')" "printable (CHR ''b'')" "printable (CHR ''f'')" "printable (CHR ''u'')"
    "printable (CHR ''0'')"
    by (simp_all add: printable_def)
  have "printable c" if "32 \<le> (of_char c :: nat)" "(of_char c :: nat) < 127"
    using that by (simp add: printable_def)
  then show ?thesis using h
    by (simp add: json_char_def Let_def p)
qed

lemma printable_string: "list_all printable (json_string s)"
  using printable_json_char by (auto simp: json_string_def list_all_iff printable_def)

lemma printable_separated:
  "list_all printable sep \<Longrightarrow> list_all (list_all printable) xs \<Longrightarrow> list_all printable (separated sep xs)"
proof (induction xs)
  case (Cons x xs)
  then show ?case by (cases "xs = []") (simp_all add: separated_Cons)
qed simp

lemma printable_int_text: "list_all printable (int_text i)"
proof -
  have "list_all is_digit (decimal (nat \<bar>i\<bar>))" using decimal_digits by blast
  then have "list_all printable (decimal (nat \<bar>i\<bar>))"
    by (auto simp: list_all_iff is_digit_def printable_def Let_def)
  then show ?thesis by (simp add: int_text_def printable_def)
qed

lemma printable_dumps:
  assumes "list_all printable commas" "list_all printable colons"
  shows "rereadable d v \<Longrightarrow> list_all printable (json_dumps J commas colons v)"
proof (induction d v rule: rereadable.induct)
  case (4 d vs)
  then show ?case
    using printable_separated [OF assms(1), of "map (json_dumps J commas colons) vs"]
    by (auto simp: list_all_iff printable_def)
next
  case (6 d kvs)
  then have "list_all (list_all printable)
      (map (\<lambda>(k, v). json_string k @ colons @ json_dumps J commas colons v) kvs)"
    using printable_string assms(2) by (fastforce simp: list_all_iff)
  then have "list_all printable (separated commas
      (map (\<lambda>(k, v). json_string k @ colons @ json_dumps J commas colons v) kvs))"
    by (rule printable_separated [OF assms(1)])
  moreover have "printable (CHR ''{'')" "printable (CHR ''}'')" by (simp_all add: printable_def)
  ultimately show ?case by simp
qed (simp_all add: printable_string printable_int_text, simp_all add: printable_def)

lemma json_loads_bytes_dumps:
  assumes "separators commas colons" "rereadable (jp_depth J) v"
    and "list_all printable commas" "list_all printable colons"
  shows "json_loads_bytes J (map of_char (json_dumps J commas colons v)) = Inr v"
proof -
  have "list_all (\<lambda>b. 0 < b \<and> b < 128) (map of_char (json_dumps J commas colons v) :: nat list)"
    using printable_dumps [OF assms(3,4,2), of J] by (auto simp: list_all_iff printable_def)
  moreover have "map char_of (map of_char s :: nat list) = s" for s :: string
    by (induction s) simp_all
  ultimately show ?thesis
    using json_loads_dumps [OF assms(1,2)] unfolding json_loads_bytes_def by simp
qed

declare decimal.simps [simp]

section \<open>Lines with sorted keys\<close>

lemma line_separators: "separators '', '' '': ''" "list_all printable '', ''" "list_all printable '': ''"
  by (simp_all add: separators_def is_blank_def printable_def)

lemma json_sorted_idem: "json_sorted (json_sorted v) = json_sorted v"
proof (induction v rule: json_sorted.induct)
  case (2 kvs)
  let ?f = "\<lambda>(k, v). (k, json_sorted v)"
  have "map ?f (sort_key fst (map ?f kvs)) = sort_key fst (map ?f kvs)"
    using 2 by (intro map_idI) force
  then show ?case by (simp add: sort_key_id_if_sorted)
qed simp_all

lemma rereadable_sorted: "rereadable d v \<Longrightarrow> rereadable d (json_sorted v)"
proof (induction d v rule: rereadable.induct)
  case (6 d kvs)
  have "distinct (map fst (sort_key fst (map (\<lambda>(k, v). (k, json_sorted v)) kvs)))"
    using 6 by (simp add: distinct_map inj_on_def) (force simp: distinct_map)
  then show ?case using 6 by (fastforce simp: list_all_iff)
qed (auto simp: list_all_iff)

lemma map_of_sort_key: "map_of (sort_key fst kvs) k = map_of kvs k"
  for kvs :: "('k::linorder \<times> 'v) list"
proof -
  have "map_of xs k = map_of (filter (\<lambda>p. fst p = k) xs) k" for xs
    by (induction xs) auto
  from this [of "sort_key fst kvs"] this [of kvs] show ?thesis by (simp add: sort_key_stable)
qed

lemma map_of_json_sorted:
  "map_of (map (\<lambda>(k, v). (k, json_sorted v)) kvs) k = map_option json_sorted (map_of kvs k)"
  by (induction kvs) auto

lemma json_loads_line:
  "rereadable (jp_depth J) v \<Longrightarrow> json_loads J (json_line J v) = Inr (json_sorted v)"
  unfolding json_line_def
  by (rule json_loads_dumps_blanks [OF line_separators(1) rereadable_sorted]) (simp_all add: is_blank_def)

section \<open>Deep nesting\<close>

lemma scan_value_nested: "scan_value d (replicate (Suc d) (CHR ''['')) = Rejected recursion_error"
proof (induction d)
  case (Suc d)
  have blanks: "skip_blanks (replicate (Suc d) (CHR ''['')) = replicate (Suc d) (CHR ''['')"
    by (simp add: skip_blanks_def is_blank_def)
  have "scan_list (scan_value d) (replicate (Suc d) (CHR ''['')) = Rejected recursion_error"
    unfolding scan_list_def Let_def blanks using Suc by (simp add: begins_one)
  then show ?case by (simp add: begins_one)
qed (simp add: begins_one)

lemma json_loads_nested:
  "json_loads J (replicate (Suc (jp_depth J)) (CHR ''['')) = Inl recursion_error"
proof -
  have "skip_blanks (replicate (Suc n) (CHR ''['')) = replicate (Suc n) (CHR ''['')" for n
    by (simp add: skip_blanks_def is_blank_def)
  then show ?thesis by (simp only: json_loads_def scan_value_nested scanned.case)
qed

text \<open>A platform for the witnesses.\<close>

definition sample_json :: json_platform where
  "sample_json =
     \<lparr>jp_float_text = (\<lambda>x. int_text \<lfloor>x\<rfloor> @ ''.0''), jp_other = (\<lambda>_. Inl json_error),
      jp_other_bytes = (\<lambda>_. Inl json_error), jp_str = (\<lambda>_. ''...''), jp_depth = 900\<rparr>"

end
