(* ===== verification/Notification_Queue.thy ===== *)
theory Notification_Queue
  imports Audit_Storage Json_Laws
begin

text \<open>
  \<open>DurableNotificationQueue\<close> and \<open>NotificationWorker\<close> of \<open>audit.py\<close>, down to the text of the queue
  file: one JSON object per line. A write that fails may leave a part of its text in the file.
\<close>

section \<open>The lines of a text\<close>

definition is_line_break :: "char \<Rightarrow> bool" where
  "is_line_break c \<longleftrightarrow>
     (let n = of_char c :: nat in 10 \<le> n \<and> n \<le> 13 \<or> 28 \<le> n \<and> n \<le> 30 \<or> n = 133)"

text \<open>\<open>str.splitlines\<close>; a carriage return and the line feed behind it are one break.\<close>

fun splitlines :: "string \<Rightarrow> string \<Rightarrow> string list" where
  "splitlines acc [] = (if acc = [] then [] else [acc])"
| "splitlines acc (c # cs) =
     (if is_line_break c
      then acc # splitlines [] (if c = CHR 0x0D \<and> cs \<noteq> [] \<and> hd cs = CHR 0x0A then tl cs else cs)
      else splitlines (acc @ [c]) cs)"

section \<open>DurableNotificationQueue\<close>

text \<open>
  The text of the queue file, if it exists; the number of temporary siblings left behind; the
  schedule of the coming operating-system calls, where \<open>Some (e, n)\<close> is a call that raises \<open>e\<close>, and
  if it is a write, after \<open>n\<close> characters have reached the file; and Python's \<open>json\<close>.
\<close>

record durable_queue =
  dq_text :: "string option"
  dq_temporaries :: nat
  dq_faults :: "(exn \<times> nat) option list"
  dq_json :: json_platform

definition new_queue :: "json_platform \<Rightarrow> durable_queue" where
  "new_queue J = \<lparr>dq_text = None, dq_temporaries = 0, dq_faults = [], dq_json = J\<rparr>"

definition next_fault :: "(durable_queue, (exn \<times> nat) option) prog" where
  "next_fault q =
     (Inr (case dq_faults q of [] \<Rightarrow> None | f # _ \<Rightarrow> f), q\<lparr>dq_faults := tl (dq_faults q)\<rparr>)"

definition queue_call :: "(durable_queue, unit) prog" where
  "queue_call = bnd next_fault (\<lambda>f. case f of None \<Rightarrow> skip | Some (e, n) \<Rightarrow> throw e)"

text \<open>The file opened for appending, and a text written to its end.\<close>

definition append_text :: "string \<Rightarrow> durable_queue \<Rightarrow> durable_queue" where
  "append_text t q =
     q\<lparr>dq_text := Some (case dq_text q of None \<Rightarrow> t | Some s \<Rightarrow> s @ t)\<rparr>"

definition queue_write :: "string \<Rightarrow> (durable_queue, unit) prog" where
  "queue_write t =
     bnd next_fault (\<lambda>f.
       case f of
         None \<Rightarrow> modify (append_text t)
       | Some (e, n) \<Rightarrow> sq (modify (append_text (take n t))) (throw e))"

text \<open>The steps are: make the directory, open for appending, write and flush, fsync.\<close>

definition enqueue :: "audit_event \<Rightarrow> (durable_queue, unit) prog" where
  "enqueue ev =
     sq queue_call
    (sq queue_call
    (sq (modify (append_text []))
    (with_self (\<lambda>q.
      sq (queue_write (json_line (dq_json q) (JObj (as_dict ev)))) queue_call))))"

fun read_lines :: "json_platform \<Rightarrow> string list \<Rightarrow> exn + json list" where
  "read_lines J [] = Inr []"
| "read_lines J (l # ls) =
     chain (json_loads J l) (\<lambda>v. chain (read_lines J ls) (\<lambda>vs. Inr (v # vs)))"

definition pending :: "(durable_queue, json list) prog" where
  "pending =
     with_self (\<lambda>q.
       case dq_text q of
         None \<Rightarrow> ret []
       | Some s \<Rightarrow>
           sq queue_call
             (raise_or_return (read_lines (dq_json q) (filter (\<lambda>l. l \<noteq> []) (splitlines [] s)))))"

definition pending_count :: "(durable_queue, nat) prog" where
  "pending_count = bnd pending (\<lambda>events. ret (length events))"

text \<open>\<open>str(event.get("event_id"))\<close>; only dictionaries have \<open>get\<close>.\<close>

definition event_id_text :: "json_platform \<Rightarrow> json \<Rightarrow> exn + string" where
  "event_id_text J v =
     (case v of
        JObj kvs \<Rightarrow>
          Inr (json_str J (case map_of kvs ''event_id'' of None \<Rightarrow> JNull | Some x \<Rightarrow> x))
      | _ \<Rightarrow> Inl (OtherError ''AttributeError''))"

fun other_events :: "json_platform \<Rightarrow> string \<Rightarrow> json list \<Rightarrow> exn + json list" where
  "other_events J event_id [] = Inr []"
| "other_events J event_id (v # vs) =
     chain (event_id_text J v) (\<lambda>i.
     chain (other_events J event_id vs) (\<lambda>rest.
       Inr (if i \<noteq> event_id then v # rest else rest)))"

text \<open>The queue file replaced, after making the directory.\<close>

definition rewrite_queue :: "json_platform \<Rightarrow> json list \<Rightarrow> (durable_queue, unit) prog" where
  "rewrite_queue J remaining =
     sq queue_call
       (replace_staged queue_call dq_temporaries_update
         (\<lambda>q. q\<lparr>dq_text := Some (concat (map (json_line J) remaining))\<rparr>))"

definition mark_delivered :: "string \<Rightarrow> (durable_queue, unit) prog" where
  "mark_delivered event_id =
     with_self (\<lambda>q.
       bnd pending (\<lambda>events.
       bnd (raise_or_return (other_events (dq_json q) event_id events)) (\<lambda>remaining.
         rewrite_queue (dq_json q) remaining)))"

section \<open>NotificationWorker\<close>

text \<open>\<open>str(event["event_id"])\<close>: only dictionaries have text keys.\<close>

definition event_id_item :: "json_platform \<Rightarrow> json \<Rightarrow> exn + string" where
  "event_id_item J v =
     (case v of
        JObj kvs \<Rightarrow>
          (case map_of kvs ''event_id'' of
             None \<Rightarrow> Inl (KeyError ''event_id'') | Some x \<Rightarrow> Inr (json_str J x))
      | _ \<Rightarrow> Inl (TypeError ''indices must be integers''))"

text \<open>The endpoint is a parameter: \<open>deliver\<close> over the state \<open>'e\<close> behind it.\<close>

definition deliver_one :: "(json \<Rightarrow> ('e, unit) prog) \<Rightarrow> ('e \<times> durable_queue, bool) prog" where
  "deliver_one deliver =
     bnd (zoom snd apsnd pending) (\<lambda>events.
       case events of
         [] \<Rightarrow> ret False
       | event # _ \<Rightarrow>
           sq (zoom fst apfst (deliver event))
          (with_self (\<lambda>(w, q).
             bnd (raise_or_return (event_id_item (dq_json q) event)) (\<lambda>event_id.
               sq (zoom snd apsnd (mark_delivered event_id)) (ret True)))))"

lemmas queue_code [code] =
  queue_call_def [THEN fun_cong] queue_write_def [THEN fun_cong] enqueue_def [THEN fun_cong]
  pending_def [THEN fun_cong] rewrite_queue_def [THEN fun_cong] replace_staged_def [THEN fun_cong]
  mark_delivered_def [THEN fun_cong] deliver_one_def [THEN fun_cong]

lemmas [run_simps] = next_fault_def queue_call_def [THEN fun_cong] queue_write_def [THEN fun_cong]
  enqueue_def [THEN fun_cong]

section \<open>What the text of the file holds\<close>

text \<open>
  Values that a line of the file can stand for: they can be read back, their keys are sorted, and
  they have the identifier that the worker asks for.
\<close>

definition queueable :: "json_platform \<Rightarrow> json \<Rightarrow> bool" where
  "queueable J v \<longleftrightarrow>
     rereadable (jp_depth J) v \<and> json_sorted v = v \<and>
     (case v of
        JObj kvs \<Rightarrow> (case map_of kvs ''event_id'' of Some (JStr s) \<Rightarrow> True | _ \<Rightarrow> False)
      | _ \<Rightarrow> False)"

definition queue_text :: "json_platform \<Rightarrow> json list \<Rightarrow> string" where
  "queue_text J ds = concat (map (json_line J) ds)"

definition holds :: "json list \<Rightarrow> durable_queue \<Rightarrow> bool" where
  "holds ds q \<longleftrightarrow>
     (case dq_text q of None \<Rightarrow> ds = [] | Some s \<Rightarrow> s = queue_text (dq_json q) ds) \<and>
     list_all (queueable (dq_json q)) ds"

definition event_key :: "json \<Rightarrow> string" where
  "event_key v =
     (case v of JObj kvs \<Rightarrow> (case map_of kvs ''event_id'' of Some (JStr s) \<Rightarrow> s | _ \<Rightarrow> []) | _ \<Rightarrow> [])"

lemma printable_no_break: "printable c \<Longrightarrow> \<not> is_line_break c"
  by (auto simp: printable_def is_line_break_def Let_def)

text \<open>Lines of printable characters come back as they are; an open last line comes back, too.\<close>

lemma splitlines_line: "list_all printable l \<Longrightarrow> splitlines acc (l @ s) = splitlines (acc @ l) s"
  by (induction l arbitrary: acc) (simp_all add: printable_no_break)

lemma splitlines_end: "splitlines acc (CHR 0x0A # s) = acc # splitlines [] s"
  by (simp add: is_line_break_def)

lemma splitlines_lines:
  "list_all (list_all printable) ls \<Longrightarrow> list_all printable p \<Longrightarrow>
   splitlines [] (concat (map (\<lambda>l. l @ [CHR 0x0A]) ls) @ p) = ls @ (if p = [] then [] else [p])"
proof (induction ls)
  case Nil
  then show ?case using splitlines_line [of p "[]" "[]"] by simp
qed (simp add: splitlines_line splitlines_end del: splitlines.simps)

definition object_line :: "json_platform \<Rightarrow> json \<Rightarrow> string" where
  "object_line J v = json_dumps J '', '' '': '' v"

lemma json_line_object: "queueable J v \<Longrightarrow> json_line J v = object_line J v @ [CHR 0x0A]"
  by (simp add: json_line_def object_line_def queueable_def)

lemma object_line_printable: "queueable J v \<Longrightarrow> list_all printable (object_line J v)"
  unfolding object_line_def queueable_def by (blast intro: printable_dumps [OF line_separators(2,3)])

lemma object_line_loads: "queueable J v \<Longrightarrow> json_loads J (object_line J v) = Inr v"
  using json_loads_dumps line_separators by (simp add: object_line_def queueable_def)

lemma object_line_nonempty: "queueable J v \<Longrightarrow> object_line J v \<noteq> []"
  by (auto simp: queueable_def object_line_def split: json.splits)

lemma queue_text_lines:
  assumes "list_all (queueable J) ds" "list_all printable p"
  shows "splitlines [] (queue_text J ds @ p) = map (object_line J) ds @ (if p = [] then [] else [p])"
proof -
  have "queue_text J ds = concat (map (\<lambda>l. l @ [CHR 0x0A]) (map (object_line J) ds))"
    using assms(1) by (simp add: queue_text_def comp_def list_all_iff json_line_object cong: map_cong)
  moreover have "list_all (list_all printable) (map (object_line J) ds)"
    using assms(1) by (simp add: list_all_iff [of _ ds] list_all_iff [of _ "map _ ds"] object_line_printable)
  ultimately show ?thesis using splitlines_lines [OF _ assms(2)] by metis
qed

lemma read_lines_append:
  "list_all (queueable J) ds \<Longrightarrow>
   read_lines J (map (object_line J) ds @ ls) = chain (read_lines J ls) (\<lambda>vs. Inr (ds @ vs))"
proof (induction ds)
  case Nil
  then show ?case by (cases "read_lines J ls") simp_all
next
  case (Cons d ds)
  then show ?case by (cases "read_lines J ls") (simp_all add: object_line_loads)
qed

section \<open>What the operations do to it\<close>

definition queue_file :: "durable_queue \<Rightarrow> string option \<times> json_platform" where
  "queue_file q = (dq_text q, dq_json q)"

lemma holds_file: "queue_file q = queue_file q' \<Longrightarrow> holds ds q = holds ds q'"
  by (simp add: holds_def queue_file_def split: option.split)

lemma preserves_queue_call [preserves_rules]: "preserves queue_file queue_call"
  by (rule preservesI)
    (auto simp: queue_call_def next_fault_def queue_file_def prog_simps split: list.splits option.splits)

lemma preserves_pending [preserves_rules]: "preserves queue_file pending"
  unfolding pending_def by (intro preserves_rules)

lemma pending_run:
  assumes "dq_text q = Some s" "pending q = (Inr vs, q')"
  shows "read_lines (dq_json q) (filter (\<lambda>l. l \<noteq> []) (splitlines [] s)) = Inr vs"
  using assms by (auto simp: pending_def raise_or_return_def prog_simps split: sum.splits prod.splits)

lemma pending_holds:
  assumes "holds ds q" "pending q = (Inr vs, q')"
  shows "vs = ds"
proof (cases "dq_text q")
  case None
  then show ?thesis using assms by (simp add: pending_def holds_def prog_simps)
next
  case (Some s)
  then have s: "s = queue_text (dq_json q) ds" "list_all (queueable (dq_json q)) ds"
    using assms(1) by (simp_all add: holds_def)
  then have "filter (\<lambda>l. l \<noteq> []) (splitlines [] s) = map (object_line (dq_json q)) ds"
    using queue_text_lines [OF s(2), of "[]"] object_line_nonempty by (auto simp: list_all_iff)
  then show ?thesis
    using pending_run [OF Some assms(2)] read_lines_append [OF s(2), of "[]"] by simp
qed

lemma triple_holds:
  assumes "preserves queue_file m"
  shows "triple (\<lambda>q. holds ds q \<and> dq_json q = J) m
    (\<lambda>_ q. holds ds q \<and> dq_json q = J) (\<lambda>_ q. holds ds q \<and> dq_json q = J)"
proof (rule triple_keeps, rule keepsI)
  fix q r q' assume "holds ds q \<and> dq_json q = J" "m q = (r, q')"
  moreover from this have "queue_file q' = queue_file q" by (blast intro: preservesD [OF assms])
  ultimately show "holds ds q' \<and> dq_json q' = J"
    using holds_file [of q' q] by (auto simp: queue_file_def)
qed

text \<open>An event in the form its line gives it back.\<close>

definition event_json :: "audit_event \<Rightarrow> json" where
  "event_json ev = json_sorted (JObj (as_dict ev))"

lemma event_json_queueable:
  assumes "rereadable (jp_depth J) (JObj (as_dict ev))"
  shows "queueable J (event_json ev)" "event_key (event_json ev) = ev_event_id ev"
proof -
  let ?kvs = "sort_key fst (map (\<lambda>(k, v). (k, json_sorted v)) (as_dict ev))"
  have ev: "event_json ev = JObj ?kvs" by (simp add: event_json_def)
  have key: "map_of ?kvs ''event_id'' = Some (JStr (ev_event_id ev))"
    by (simp add: map_of_sort_key map_of_json_sorted as_dict_def)
  show "queueable J (event_json ev)"
    using rereadable_sorted [OF assms] json_sorted_idem [of "JObj (as_dict ev)"] key
    unfolding queueable_def event_json_def [symmetric] by (simp add: ev del: json_sorted.simps)
  show "event_key (event_json ev) = ev_event_id ev"
    by (simp add: ev event_key_def key)
qed

text \<open>
  An enqueue that returns has added the event at the end. One that raises has left the lines of
  the queue as they were, with a part of the new line behind them, possibly none or all of it.
\<close>

lemma queue_text_snoc: "queue_text J (ds @ [d]) = queue_text J ds @ json_line J d"
  by (simp add: queue_text_def)

lemma json_line_sorted: "json_line J (json_sorted v) = json_line J v"
  by (simp add: json_line_def json_sorted_idem)

definition torn_at :: "json_platform \<Rightarrow> json list \<Rightarrow> json \<Rightarrow> durable_queue \<Rightarrow> bool" where
  "torn_at J ds v q \<longleftrightarrow> (\<exists>n. dq_text q = Some (queue_text J ds @ take n (json_line J v)) \<and> dq_json q = J)"

lemma torn_at_whole:
  "queueable J v \<Longrightarrow> holds (ds @ [v]) q \<and> dq_json q = J \<Longrightarrow> torn_at J ds v q"
  by (auto simp: torn_at_def holds_def queue_text_snoc intro: exI [of _ "length (json_line J v)"]
      split: option.splits)

lemma queue_write_outcome:
  assumes "list_all (queueable J) ds" "queueable J v"
  shows "triple (\<lambda>q. dq_text q = Some (queue_text J ds) \<and> dq_json q = J) (queue_write (json_line J v))
    (\<lambda>_ q. holds (ds @ [v]) q \<and> dq_json q = J) (\<lambda>_. torn_at J ds v)"
proof (rule tripleI)
  fix q x q' assume "dq_text q = Some (queue_text J ds) \<and> dq_json q = J"
    and "queue_write (json_line J v) q = (Inr x, q')"
  then show "holds (ds @ [v]) q' \<and> dq_json q' = J"
    using assms by (auto simp: queue_write_def next_fault_def append_text_def prog_simps holds_def
        queue_text_snoc split: list.splits option.splits)
next
  fix q e q' assume "dq_text q = Some (queue_text J ds) \<and> dq_json q = J"
    and "queue_write (json_line J v) q = (Inl e, q')"
  then show "torn_at J ds v q'"
    using assms unfolding torn_at_def
    by (auto simp: queue_write_def next_fault_def append_text_def prog_simps
        split: list.splits option.splits) blast+
qed

lemma enqueue_outcome:
  assumes "queueable J (event_json ev)"
  shows "triple (\<lambda>q. holds ds q \<and> dq_json q = J) (enqueue ev)
    (\<lambda>_ q. holds (ds @ [event_json ev]) q \<and> dq_json q = J)
    (\<lambda>_ q. holds ds q \<and> dq_json q = J \<or> torn_at J ds (event_json ev) q)"
proof -
  let ?v = "event_json ev" and ?P = "\<lambda>q. holds ds q \<and> dq_json q = J"
  let ?O = "\<lambda>q. dq_text q = Some (queue_text J ds) \<and> dq_json q = J \<and> list_all (queueable J) ds"
  let ?Q = "\<lambda>q. holds (ds @ [?v]) q \<and> dq_json q = J"
  let ?E = "\<lambda>(_ :: exn) q. ?P q \<or> torn_at J ds ?v q"
  have call: "triple ?P queue_call (\<lambda>_. ?P) ?E"
    by (rule triple_conseq [OF triple_holds [OF preserves_queue_call]]) auto
  have open_file: "triple ?P (modify (append_text [])) (\<lambda>_. ?O) ?E"
    by (rule triple_modify) (auto simp: append_text_def holds_def queue_text_def split: option.splits)
  have sync: "triple ?Q queue_call (\<lambda>_. ?Q) ?E"
    by (rule triple_conseq [OF triple_holds [OF preserves_queue_call]])
      (use torn_at_whole [OF assms] in auto)
  have put: "triple ?O (queue_write (json_line J ?v)) (\<lambda>_. ?Q) ?E"
  proof (cases "list_all (queueable J) ds")
    case True
    show ?thesis
      by (rule triple_conseq [OF queue_write_outcome [OF True assms]]) auto
  qed (simp add: triple_def)
  have "triple ?O (with_self (\<lambda>q. sq (queue_write (json_line (dq_json q) (JObj (as_dict ev)))) queue_call))
      (\<lambda>_. ?Q) ?E"
    using triple_sq [OF put sync] json_line_sorted [of J "JObj (as_dict ev)"]
    by (auto simp: triple_def with_self_def event_json_def simp del: json_sorted.simps)
  then show ?thesis
    unfolding enqueue_def by (intro triple_sq [OF call] triple_sq [OF open_file])
qed

text \<open>
  C22. An enqueue that returns has appended the event to the queue. One that raises has left the
  queue as it was, or with a part of the new line behind its lines; it has lost nothing.
\<close>

theorem enqueue_appends_or_tears:
  assumes "holds ds q" and "rereadable (jp_depth (dq_json q)) (JObj (as_dict ev))"
  shows "case enqueue ev q of
      (Inr u, q') \<Rightarrow> holds (ds @ [event_json ev]) q'
    | (Inl e, q') \<Rightarrow> holds ds q' \<or> torn_at (dq_json q) ds (event_json ev) q'"
proof -
  note out = enqueue_outcome [OF event_json_queueable(1) [OF assms(2)], of ds]
  have q: "holds ds q \<and> dq_json q = dq_json q" using assms(1) by simp
  obtain x q' where run: "enqueue ev q = (x, q')" by force
  show ?thesis
    using triple_returns [OF out q] triple_raises [OF out q] run by (cases x) auto
qed

lemma other_events_run:
  "list_all (queueable J) ds \<Longrightarrow>
   other_events J i ds = Inr (filter (\<lambda>d. event_key d \<noteq> i) ds)"
  by (induction ds)
    (auto simp: queueable_def event_id_text_def event_key_def split: json.splits option.splits)

lemma rewrite_queue_outcome:
  assumes "list_all (queueable J) ds"
  shows "triple (\<lambda>q. holds old q \<and> dq_json q = J) (rewrite_queue J ds)
    (\<lambda>_ q. holds ds q) (\<lambda>_ q. holds old q)"
proof -
  let ?V = "\<lambda>(k :: nat) q. holds old q \<and> dq_json q = J"
  have call: "keeps (?V k) queue_call" for k
    by (rule preserves_keepsI [OF preserves_queue_call]) (metis holds_file queue_file_def prod.inject)
  have "triple (?V 0) (replace_staged queue_call dq_temporaries_update
      (\<lambda>q. q\<lparr>dq_text := Some (concat (map (json_line J) ds))\<rparr>)) (\<lambda>_. holds ds) (\<lambda>_ q. ?V 0 q \<or> ?V (Suc 0) q)"
    by (rule triple_replace_staged [where V = ?V, OF call])
      (use assms in \<open>auto simp: holds_def queue_text_def split: option.splits\<close>)
  from triple_sq [OF triple_keeps [OF call] triple_conseq [OF this]] show ?thesis
    unfolding rewrite_queue_def by (rule triple_conseq [where E = "\<lambda>_ q. ?V 0 q"]) auto
qed

lemma mark_delivered_outcome:
  assumes "holds old q"
  shows "case mark_delivered i q of
      (Inl e, q') \<Rightarrow> holds old q'
    | (Inr u, q') \<Rightarrow> holds (filter (\<lambda>d. event_key d \<noteq> i) old) q'"
proof -
  let ?J = "dq_json q" and ?ds = "filter (\<lambda>d. event_key d \<noteq> i) old"
  obtain x q1 where p: "pending q = (x, q1)" by force
  have f: "queue_file q1 = queue_file q" using preservesD [OF preserves_pending p] .
  have q1: "holds old q1 \<and> dq_json q1 = ?J"
    using assms holds_file [OF f] f by (simp add: queue_file_def)
  show ?thesis
  proof (cases x)
    case (Inl e)
    then show ?thesis using q1 by (simp add: mark_delivered_def with_self_def bnd_def p)
  next
    case (Inr vs)
    then have vs: "vs = old" using pending_holds assms p by blast
    have old: "list_all (queueable ?J) old" using assms by (simp add: holds_def)
    obtain y q2 where r: "rewrite_queue ?J ?ds q1 = (y, q2)" by force
    have "list_all (queueable ?J) ?ds" using old by (auto simp: list_all_iff)
    note out = rewrite_queue_outcome [OF this, of old]
    have "mark_delivered i q = (y, q2)"
      using r other_events_run [OF old] Inr vs p
      by (simp add: mark_delivered_def with_self_def bnd_def raise_or_return_def ret_def)
    then show ?thesis
      using triple_returns [OF out q1] triple_raises [OF out q1] r by (cases y) auto
  qed
qed

lemma deliver_one_head:
  assumes "pending q = (Inr (event # rest), q1)" "deliver event w = (y, w1)"
    and "queueable (dq_json q1) event" "mark_delivered (event_key event) q1 = (z, q2)"
  shows "deliver_one deliver (w, q) =
    (case y of
       Inl e \<Rightarrow> (Inl e, (w1, q1))
     | Inr _ \<Rightarrow> (case z of Inl e \<Rightarrow> (Inl e, (w1, q2)) | Inr _ \<Rightarrow> (Inr True, (w1, q2))))"
proof -
  have "event_id_item (dq_json q1) event = Inr (event_key event)"
    using assms(3)
    by (auto simp: queueable_def event_id_item_def event_key_def split: json.splits option.splits)
  then show ?thesis
    using assms
    by (simp add: deliver_one_def bnd_def sq_def zoom_def ret_def with_self_def raise_or_return_def
        split: sum.split)
qed

text \<open>
  C21. The worker takes the oldest pending event and no other; the event leaves the queue only
  after the endpoint has accepted it, and with it only lines of the same identifier. When
  anything fails, the endpoint included, the file still holds every event it held, in order,
  for a later attempt.
\<close>

theorem delivery_loses_nothing:
  assumes "holds ds q"
  shows "case deliver_one deliver (w, q) of
     (Inl e, (w', q')) \<Rightarrow> holds ds q'
   | (Inr False, (w', q')) \<Rightarrow> ds = [] \<and> w' = w \<and> holds ds q'
   | (Inr True, (w', q')) \<Rightarrow>
       (\<exists>event rest u. ds = event # rest \<and> deliver event w = (Inr u, w') \<and>
          holds (filter (\<lambda>d. event_key d \<noteq> event_key event) rest) q')"
proof -
  obtain x q1 where p: "pending q = (x, q1)" by force
  have "queue_file q1 = queue_file q" using preservesD [OF preserves_pending p] .
  then have q1: "holds ds q1" using assms holds_file by blast
  show ?thesis
  proof (cases x)
    case (Inl e)
    then show ?thesis using p q1 by (simp add: deliver_one_def bnd_def zoom_def)
  next
    case (Inr events)
    then have events: "events = ds" using pending_holds assms p by blast
    show ?thesis
    proof (cases ds)
      case Nil
      then show ?thesis
        using p Inr events q1 by (simp add: deliver_one_def bnd_def zoom_def ret_def)
    next
      case (Cons event rest)
      obtain y w1 where d: "deliver event w = (y, w1)" by force
      obtain z q2 where m: "mark_delivered (event_key event) q1 = (z, q2)" by force
      have "queueable (dq_json q1) event" using q1 Cons by (simp add: holds_def)
      note run = deliver_one_head [where deliver = deliver, OF _ d this m]
      show ?thesis
        using mark_delivered_outcome [OF q1, of "event_key event"] p Inr events Cons d q1
        by (cases y; cases z) (simp_all add: run m)
    qed
  qed
qed

section \<open>A torn line\<close>

text \<open>
  A queue whose last line is cut short: what remains when the write of a line fails in the middle,
  as on a full disk.
\<close>

definition torn :: "durable_queue \<Rightarrow> bool" where
  "torn q \<longleftrightarrow>
     (\<exists>ds v p r. dq_text q = Some (queue_text (dq_json q) ds @ p) \<and>
        list_all (queueable (dq_json q)) ds \<and> queueable (dq_json q) v \<and>
        object_line (dq_json q) v = p @ r \<and> p \<noteq> [] \<and> r \<noteq> [])"

lemma torn_file: "queue_file q = queue_file q' \<Longrightarrow> torn q = torn q'"
  by (simp add: torn_def queue_file_def)

lemma enqueue_tears:
  assumes "queueable J v" "list_all (queueable J) ds" "dq_json q = J"
    and "dq_text q = Some (queue_text J ds @ take n (json_line J v))"
    and "0 < n" "n < length (object_line J v)"
  shows "torn q"
proof -
  let ?l = "object_line J v"
  have "take n (json_line J v) = take n ?l" using assms(1,6) by (simp add: json_line_object)
  then show ?thesis
    using assms unfolding torn_def
    by (intro exI [of _ ds] exI [of _ v] exI [of _ "take n ?l"] exI [of _ "drop n ?l"]) auto
qed

lemma torn_pending:
  assumes "torn q"
  shows "\<exists>e q'. pending q = (Inl e, q') \<and> torn q'"
proof -
  let ?J = "dq_json q"
  obtain ds v p r where t: "dq_text q = Some (queue_text ?J ds @ p)" "list_all (queueable ?J) ds"
    "queueable ?J v" "object_line ?J v = p @ r" "p \<noteq> []" "r \<noteq> []"
    using assms unfolding torn_def by blast
  obtain kvs where v: "v = JObj kvs" using t(3) by (auto simp: queueable_def split: json.splits)
  have "list_all printable p" using object_line_printable [OF t(3)] t(4) by simp
  then have "filter (\<lambda>l. l \<noteq> []) (splitlines [] (queue_text ?J ds @ p)) = map (object_line ?J) ds @ [p]"
    using queue_text_lines [OF t(2)] object_line_nonempty t(2,5) by (auto simp: list_all_iff)
  moreover obtain e where "json_loads ?J p = Inl e"
    using json_loads_cut_short [OF line_separators(1), of ?J kvs p r] t(3,4,6) v
    by (auto simp: queueable_def object_line_def)
  ultimately have lines: "read_lines ?J (filter (\<lambda>l. l \<noteq> [])
      (splitlines [] (queue_text ?J ds @ p))) = Inl e"
    using read_lines_append [OF t(2), of "[p]"] by simp
  obtain x q' where run: "pending q = (x, q')" by force
  then have "torn q'" using preservesD [OF preserves_pending] torn_file assms by blast
  moreover have "\<exists>e. x = Inl e"
    using run pending_run [OF t(1), of _ q'] lines by (cases x) auto
  ultimately show ?thesis using run by blast
qed

text \<open>
  C23. A torn line stops the queue: the worker raises without delivering anything, and the count of
  pending events raises, too; neither repairs the file, so it stays that way.
\<close>

theorem torn_queue_is_stuck:
  assumes "torn q"
  shows "(\<exists>e q'. deliver_one deliver (w, q) = (Inl e, (w, q')) \<and> torn q') \<and>
    (\<exists>e q'. pending_count q = (Inl e, q') \<and> torn q')"
  using torn_pending [OF assms]
  by (auto simp: deliver_one_def pending_count_def bnd_def zoom_def split: prod.splits)

section \<open>Delivering everything\<close>

text \<open>The rounds of a worker, and an endpoint that keeps what it gets.\<close>

fun deliver_rounds ::
  "nat \<Rightarrow> (json \<Rightarrow> ('e, unit) prog) \<Rightarrow> ('e \<times> durable_queue, unit) prog" where
  "deliver_rounds 0 deliver = skip"
| "deliver_rounds (Suc n) deliver = sq (deliver_one deliver) (deliver_rounds n deliver)"

definition collect :: "json \<Rightarrow> (json list, unit) prog" where
  "collect event = modify (\<lambda>sent. sent @ [event])"

lemma queue_call_faultless: "dq_faults q = [] \<Longrightarrow> queue_call q = (Inr (), q)"
  by (simp add: queue_call_def next_fault_def prog_simps)

lemma pending_faultless: "holds ds q \<Longrightarrow> dq_faults q = [] \<Longrightarrow> pending q = (Inr ds, q)"
proof (cases "dq_text q")
  case (Some s)
  assume q: "holds ds q" "dq_faults q = []"
  then have s: "s = queue_text (dq_json q) ds" "list_all (queueable (dq_json q)) ds"
    using Some by (simp_all add: holds_def)
  have "filter (\<lambda>l. l \<noteq> []) (splitlines [] s) = map (object_line (dq_json q)) ds"
    using queue_text_lines [OF s(2), of "[]"] object_line_nonempty s by (auto simp: list_all_iff)
  then show ?thesis
    using read_lines_append [OF s(2), of "[]"] q(2) Some
    by (simp add: pending_def queue_call_faultless with_self_def sq_def bnd_def raise_or_return_def ret_def)
qed (simp add: pending_def holds_def prog_simps)

lemma deliver_one_faultless:
  assumes "holds (event # rest) q" "dq_faults q = []" "distinct (map event_key (event # rest))"
  shows "\<exists>q'. deliver_one collect (sent, q) = (Inr True, (sent @ [event], q')) \<and>
    holds rest q' \<and> dq_faults q' = []"
proof -
  have all: "list_all (queueable (dq_json q)) (event # rest)" using assms(1) by (simp add: holds_def)
  have "other_events (dq_json q) (event_key event) (event # rest) = Inr rest"
    unfolding other_events_run [OF all] using assms(3) by (auto intro!: filter_True) (metis image_eqI)
  then have m: "mark_delivered (event_key event) q =
      (Inr (), q\<lparr>dq_text := Some (queue_text (dq_json q) rest)\<rparr>)"
    by (simp add: mark_delivered_def rewrite_queue_def replace_staged_def queue_text_def queue_call_faultless assms(2)
        pending_faultless [OF assms(1,2)] raise_or_return_def prog_simps)
  have "holds rest (q\<lparr>dq_text := Some (queue_text (dq_json q) rest)\<rparr>)"
    using all by (simp add: holds_def)
  moreover have "queueable (dq_json q) event" using all by simp
  ultimately show ?thesis
    using deliver_one_head [where deliver = collect, OF pending_faultless [OF assms(1,2)] _ _ m] assms(2)
    by (simp add: collect_def modify_def)
qed

text \<open>
  C24. When nothing fails and the events have distinct identifiers, as \<open>uuid4\<close> gives them, as many
  rounds as there are events deliver all of them, in order, each exactly once, and leave the
  queue empty.
\<close>

theorem queue_drains:
  assumes "holds ds q" and "dq_faults q = []" and "distinct (map event_key ds)"
  shows "\<exists>q'. deliver_rounds (length ds) collect (sent, q) = (Inr (), (sent @ ds, q')) \<and> holds [] q'"
  using assms
proof (induction ds arbitrary: q sent)
  case (Cons event rest)
  obtain q' where q': "deliver_one collect (sent, q) = (Inr True, (sent @ [event], q'))"
    "holds rest q'" "dq_faults q' = []"
    using deliver_one_faultless [OF Cons.prems] by blast
  then show ?case
    using Cons.IH [OF q'(2,3), of "sent @ [event]"] Cons.prems(3) by (simp add: sq_def bnd_def)
qed (simp add: skip_def)

section \<open>A queue\<close>

definition sample_alarm :: "string \<Rightarrow> audit_event" where
  "sample_alarm i =
     \<lparr>ev_event_type = ESCALATION_CRITICAL, ev_severity = SevCritical, ev_timestamp = epoch_2026,
      ev_correlation = [], ev_reader_state = None, ev_controller_state = Some ''ready'',
      ev_delivery_status = None, ev_event_id = i\<rparr>"

definition two_alarms :: durable_queue where
  "two_alarms = final (sq (enqueue (sample_alarm ''a'')) (enqueue (sample_alarm ''b'')) (new_queue sample_json))"

text \<open>The second write fails after 20 characters; the third alarm is written behind them.\<close>

definition torn_alarms :: "(exn \<times> nat) option list \<Rightarrow> durable_queue" where
  "torn_alarms faults =
     final (try_except (\<lambda>_. True) (sq (enqueue (sample_alarm ''a'')) (enqueue (sample_alarm ''b''))) (\<lambda>_. skip)
       ((new_queue sample_json)\<lparr>dq_faults := [None, None, None, None, None, None] @ faults\<rparr>))"

lemma torn_run_later:
  "fst (pending (final (enqueue (sample_alarm ''c'') (torn_alarms [Some (OSError ''No space left on device'', 20)]))))
     = Inl json_error"
  by code_simp

lemma two_alarms_hold:
  "holds [event_json (sample_alarm ''a''), event_json (sample_alarm ''b'')] two_alarms"
  "dq_faults two_alarms = []"
  by code_simp+

text \<open>The platform is the same throughout.\<close>

lemma queue_call_same_json [preserves_rules]: "preserves dq_json queue_call"
  using preserves_queue_call by (simp add: preserves_def queue_file_def)

lemma queue_write_same_json [preserves_rules]: "preserves dq_json (queue_write t)"
  by (rule preservesI)
    (auto simp: queue_write_def next_fault_def append_text_def prog_simps split: option.splits)

lemma enqueue_same_json [preserves_rules]: "preserves dq_json (enqueue ev)"
  unfolding enqueue_def by (intro preserves_rules) (simp add: append_text_def)

lemma same_json:
  assumes "preserves dq_json m"
  shows "dq_json (final (m q)) = dq_json q"
  using preservesD [OF assms] run_pair [of "m q"] by blast

lemma sample_same_json: "dq_json two_alarms = sample_json" "dq_json (torn_alarms faults) = sample_json"
proof -
  have "preserves dq_json (sq (enqueue a) (enqueue b))"
    "preserves dq_json (try_except C (sq (enqueue a) (enqueue b)) (\<lambda>_. skip))" for a b C
    by (intro preserves_rules)+
  then show "dq_json two_alarms = sample_json" "dq_json (torn_alarms faults) = sample_json"
    unfolding two_alarms_def torn_alarms_def by (simp_all add: same_json new_queue_def)
qed

lemma alarm_rereadable: "rereadable (jp_depth sample_json) (JObj (as_dict (sample_alarm ''c'')))"
  by code_simp

lemma enqueue_appends_or_tears_witness:
  "case enqueue (sample_alarm ''c'') two_alarms of
      (Inr u, q') \<Rightarrow>
        holds ([event_json (sample_alarm ''a''), event_json (sample_alarm ''b'')] @
               [event_json (sample_alarm ''c'')]) q'
    | (Inl e, q') \<Rightarrow>
        holds [event_json (sample_alarm ''a''), event_json (sample_alarm ''b'')] q' \<or>
        torn_at sample_json [event_json (sample_alarm ''a''), event_json (sample_alarm ''b'')]
          (event_json (sample_alarm ''c'')) q'"
  using enqueue_appends_or_tears [OF two_alarms_hold(1), of "sample_alarm ''c''"] alarm_rereadable
  by (simp only: sample_same_json(1) simp_thms)

lemma delivery_loses_nothing_witness:
  "case deliver_one (\<lambda>_. skip) ((), two_alarms) of
     (Inl e, (w', q')) \<Rightarrow>
       holds [event_json (sample_alarm ''a''), event_json (sample_alarm ''b'')] q'
   | (Inr False, (w', q')) \<Rightarrow>
       [event_json (sample_alarm ''a''), event_json (sample_alarm ''b'')] = [] \<and> w' = () \<and>
       holds [event_json (sample_alarm ''a''), event_json (sample_alarm ''b'')] q'
   | (Inr True, (w', q')) \<Rightarrow>
       (\<exists>event rest u.
          [event_json (sample_alarm ''a''), event_json (sample_alarm ''b'')] = event # rest \<and>
          skip () = (Inr u, w') \<and>
          holds (filter (\<lambda>d. event_key d \<noteq> event_key event) rest) q')"
  by (rule delivery_loses_nothing [OF two_alarms_hold(1)])

lemma queue_drains_witness:
  "\<exists>q'. deliver_rounds (length [event_json (sample_alarm ''a''), event_json (sample_alarm ''b'')])
      collect ([], two_alarms) =
    (Inr (), ([] @ [event_json (sample_alarm ''a''), event_json (sample_alarm ''b'')], q')) \<and> holds [] q'"
  by (rule queue_drains [OF two_alarms_hold(1,2)]) code_simp

lemma torn_alarms_torn: "torn (torn_alarms [Some (OSError ''No space left on device'', 20)])"
proof (rule enqueue_tears)
  show "queueable sample_json (event_json (sample_alarm ''b''))" by code_simp
  show "list_all (queueable sample_json) [event_json (sample_alarm ''a'')]" by code_simp
  show "dq_json (torn_alarms [Some (OSError ''No space left on device'', 20)]) = sample_json"
    by (rule sample_same_json)
  show "dq_text (torn_alarms [Some (OSError ''No space left on device'', 20)]) =
      Some (queue_text sample_json [event_json (sample_alarm ''a'')] @
        take 20 (json_line sample_json (event_json (sample_alarm ''b''))))" by code_simp
  show "20 < length (object_line sample_json (event_json (sample_alarm ''b'')))" by code_simp
qed simp

lemma torn_queue_is_stuck_witness:
  "(\<exists>e q'. deliver_one (\<lambda>_. skip) ((), torn_alarms [Some (OSError ''No space left on device'', 20)]) =
      (Inl e, ((), q')) \<and> torn q') \<and>
    (\<exists>e q'. pending_count (torn_alarms [Some (OSError ''No space left on device'', 20)]) = (Inl e, q') \<and> torn q')"
  by (rule torn_queue_is_stuck [OF torn_alarms_torn])

end
