(* ===== verification/Authorization_File.thy ===== *)
theory Authorization_File
  imports Ports Reader_Records "HOL-Library.List_Lexorder" "HOL-Library.Char_ord"
    "HOL-Library.Product_Lexorder" "HOL-Library.Option_ord"
begin

text \<open>
  \<open>AuthorizationFile\<close> of \<open>authorization.py\<close>: the CSV reader the source calls (the state
  machine of Python's \<open>csv\<close> module for the default dialect with \<open>strict=True\<close>), the row
  dictionaries of \<open>DictReader\<close>, the validation against the schema, key normalization and the
  duplicate check. Text is a list of characters with code points below 256. The validator
  package is a parameter; the locale \<open>row_validator\<close> says what is relied on and is
  interpreted on the rules of \<open>schemas/authorization-file/schema.json\<close>.
\<close>

section \<open>The CSV reader\<close>

datatype csv_state =
  START_RECORD | START_FIELD | IN_FIELD | IN_QUOTED_FIELD | QUOTE_IN_QUOTED_FIELD | EAT_CRNL

record csv_parser =
  cp_state :: csv_state
  cp_field :: string
  cp_row :: "string list"

definition new_csv_parser :: csv_parser where
  "new_csv_parser = \<lparr>cp_state = START_RECORD, cp_field = [], cp_row = []\<rparr>"

definition field_limit :: int where "field_limit = 131072"

definition csv_save :: "csv_state \<Rightarrow> csv_parser \<Rightarrow> csv_parser" where
  "csv_save s p = p\<lparr>cp_state := s, cp_field := [], cp_row := cp_row p @ [cp_field p]\<rparr>"

definition csv_add :: "char \<Rightarrow> csv_state \<Rightarrow> csv_parser \<Rightarrow> exn + csv_parser" where
  "csv_add c s p =
     (if field_limit \<le> int (length (cp_field p))
      then Inl (CsvError ''field larger than field limit (131072)'')
      else Inr (p\<lparr>cp_state := s, cp_field := cp_field p @ [c]\<rparr>))"

definition is_newline :: "char \<Rightarrow> bool" where
  "is_newline c \<longleftrightarrow> c = CHR 0x0A \<or> c = CHR 0x0D"

text \<open>One character; \<open>None\<close> is the end of the line that the iterator yielded.\<close>

definition csv_start_field :: "char option \<Rightarrow> csv_parser \<Rightarrow> exn + csv_parser" where
  "csv_start_field x p =
     (case x of
        None \<Rightarrow> Inr (csv_save START_RECORD p)
      | Some c \<Rightarrow>
          if is_newline c then Inr (csv_save EAT_CRNL p)
          else if c = CHR 0x22 then Inr (p\<lparr>cp_state := IN_QUOTED_FIELD\<rparr>)
          else if c = CHR '','' then Inr (csv_save START_FIELD p)
          else csv_add c IN_FIELD p)"

definition csv_process :: "char option \<Rightarrow> csv_parser \<Rightarrow> exn + csv_parser" where
  "csv_process x p =
     (case cp_state p of
        START_RECORD \<Rightarrow>
          (case x of
             None \<Rightarrow> Inr p
           | Some c \<Rightarrow>
               if is_newline c then Inr (p\<lparr>cp_state := EAT_CRNL\<rparr>) else csv_start_field x p)
      | START_FIELD \<Rightarrow> csv_start_field x p
      | IN_FIELD \<Rightarrow>
          (case x of
             None \<Rightarrow> Inr (csv_save START_RECORD p)
           | Some c \<Rightarrow>
               if is_newline c then Inr (csv_save EAT_CRNL p)
               else if c = CHR '','' then Inr (csv_save START_FIELD p)
               else csv_add c IN_FIELD p)
      | IN_QUOTED_FIELD \<Rightarrow>
          (case x of
             None \<Rightarrow> Inr p
           | Some c \<Rightarrow>
               if c = CHR 0x22 then Inr (p\<lparr>cp_state := QUOTE_IN_QUOTED_FIELD\<rparr>)
               else csv_add c IN_QUOTED_FIELD p)
      | QUOTE_IN_QUOTED_FIELD \<Rightarrow>
          (case x of
             None \<Rightarrow> Inr (csv_save START_RECORD p)
           | Some c \<Rightarrow>
               if c = CHR 0x22 then csv_add c IN_QUOTED_FIELD p
               else if c = CHR '','' then Inr (csv_save START_FIELD p)
               else if is_newline c then Inr (csv_save EAT_CRNL p)
               else Inl (CsvError ''delimiter expected after quote''))
      | EAT_CRNL \<Rightarrow>
          (case x of
             None \<Rightarrow> Inr (p\<lparr>cp_state := START_RECORD\<rparr>)
           | Some c \<Rightarrow>
               if is_newline c then Inr p
               else Inl (CsvError ''new-line character seen in unquoted field'')))"

fun csv_process_all :: "char option list \<Rightarrow> csv_parser \<Rightarrow> exn + csv_parser" where
  "csv_process_all [] p = Inr p"
| "csv_process_all (x # xs) p =
     (case csv_process x p of Inl e \<Rightarrow> Inl e | Inr p' \<Rightarrow> csv_process_all xs p')"

definition csv_line :: "string \<Rightarrow> csv_parser \<Rightarrow> exn + csv_parser" where
  "csv_line line p = csv_process_all (map Some line @ [None]) p"

text \<open>
  \<open>next(reader)\<close>: lines are consumed until a record is complete. \<open>None\<close> is
  \<open>StopIteration\<close>; in strict mode the data may not end inside a field.
\<close>

fun csv_next ::
  "csv_parser \<Rightarrow> string list \<Rightarrow> exn + (string list \<times> string list) option" where
  "csv_next p [] =
     (if cp_field p \<noteq> [] \<or> cp_state p = IN_QUOTED_FIELD
      then Inl (CsvError ''unexpected end of data'')
      else Inr None)"
| "csv_next p (line # lines) =
     (case csv_line line p of
        Inl e \<Rightarrow> Inl e
      | Inr p' \<Rightarrow>
          if cp_state p' = START_RECORD then Inr (Some (cp_row p', lines)) else csv_next p' lines)"

lemma csv_next_shorter: "csv_next p lines = Inr (Some (row, rest)) \<Longrightarrow> length rest < length lines"
  by (induction p lines rule: csv_next.induct) (fastforce split: sum.splits if_splits)+

text \<open>All the records that follow.\<close>

function csv_rows :: "string list \<Rightarrow> exn + string list list" where
  "csv_rows lines =
     (case csv_next new_csv_parser lines of
        Inl e \<Rightarrow> Inl e
      | Inr None \<Rightarrow> Inr []
      | Inr (Some (row, rest)) \<Rightarrow>
          (case csv_rows rest of Inl e \<Rightarrow> Inl e | Inr rows \<Rightarrow> Inr (row # rows)))"
  by pat_completeness auto

termination csv_rows
  by (relation "measure length") (auto dest: csv_next_shorter)

declare csv_rows.simps [simp del]

text \<open>The lines of a text file opened with \<open>newline=""\<close>: each keeps its \<open>\n\<close>, \<open>\r\<close> or \<open>\r\n\<close>.\<close>

fun split_lines :: "string \<Rightarrow> string \<Rightarrow> string list" where
  "split_lines acc [] = (if acc = [] then [] else [acc])"
| "split_lines acc (c # cs) =
     (if c = CHR 0x0A then (acc @ [c]) # split_lines [] cs
      else if c = CHR 0x0D
      then (case cs of
              d # ds \<Rightarrow>
                if d = CHR 0x0A then (acc @ [c, d]) # split_lines [] ds
                else (acc @ [c]) # split_lines [] cs
            | [] \<Rightarrow> [acc @ [c]])
      else split_lines (acc @ [c]) cs)"

section \<open>DictReader\<close>

text \<open>
  The dictionary of a row under the header \<open>KEY,NAME,ALLOW\<close>. A short row has \<open>None\<close> for
  the missing values; the values beyond the third are under the key \<open>None\<close>.
\<close>

record raw_row =
  rr_key :: "string option"
  rr_name :: "string option"
  rr_allow :: "string option"
  rr_extra :: "string list"

definition nth_option :: "'a list \<Rightarrow> nat \<Rightarrow> 'a option" where
  "nth_option xs i = (if i < length xs then Some (xs ! i) else None)"

definition raw_row_of :: "string list \<Rightarrow> raw_row" where
  "raw_row_of row =
     \<lparr>rr_key = nth_option row 0, rr_name = nth_option row 1, rr_allow = nth_option row 2,
      rr_extra = drop 3 row\<rparr>"

text \<open>Blank rows are skipped.\<close>

definition raw_rows :: "string list list \<Rightarrow> raw_row list" where
  "raw_rows rows = map raw_row_of (filter (\<lambda>r. r \<noteq> []) rows)"

section \<open>AuthorizationFile.load\<close>

record authorization_record =
  au_key :: string
  au_name :: string
  au_allow :: bool

text \<open>\<open>records: dict[str, AuthorizationRecord]\<close>, in the order of insertion.\<close>

type_synonym authorization_records = "(string \<times> authorization_record) list"

definition normalize_key :: "string \<Rightarrow> string" where
  "normalize_key key = map upper_char (filter (\<lambda>c. c \<noteq> CHR ''-'') key)"

text \<open>
  The path of a validation error: \<open>[]\<close>, \<open>[row]\<close> or \<open>[row, column]\<close>; paths are compared as
  Python compares these lists.
\<close>

type_synonym error_path = "(nat \<times> string option) option"

type_synonym validator = "raw_row list \<Rightarrow> (error_path \<times> string) list"

text \<open>The loop over the validated rows.\<close>

fun collect_records ::
  "raw_row list \<Rightarrow> authorization_records \<Rightarrow> exn + authorization_records" where
  "collect_records [] records = Inr records"
| "collect_records (raw # raws) records =
     (case (rr_key raw, rr_name raw, rr_allow raw) of
        (Some key, Some name, Some allow) \<Rightarrow>
          (let normalized = normalize_key key
           in if map_of records normalized \<noteq> None
              then Inl (AuthorizationError ''duplicate authorization key'')
              else collect_records raws
                (records @ [(normalized, \<lparr>au_key = normalized, au_name = name,
                   au_allow = (map lower_char allow = ''y'')\<rparr>)]))
      | _ \<Rightarrow> Inl (OtherError ''NoneType has no attribute''))"

definition load_stream :: "validator \<Rightarrow> string list \<Rightarrow> exn + authorization_records" where
  "load_stream validate lines =
     (case csv_next new_csv_parser lines of
        Inl _ \<Rightarrow> Inl (AuthorizationError ''authorization CSV is malformed'')
      | Inr None \<Rightarrow>
          Inl (AuthorizationError ''authorization header must be exactly KEY,NAME,ALLOW'')
      | Inr (Some (header, rest)) \<Rightarrow>
          if header \<noteq> [''KEY'', ''NAME'', ''ALLOW'']
          then Inl (AuthorizationError ''authorization header must be exactly KEY,NAME,ALLOW'')
          else (case csv_rows rest of
                  Inl _ \<Rightarrow> Inl (AuthorizationError ''authorization CSV is malformed'')
                | Inr rows \<Rightarrow>
                    (case sort_key fst (validate (raw_rows rows)) of
                       (_, message) # _ \<Rightarrow> Inl (AuthorizationError message)
                     | [] \<Rightarrow> collect_records (raw_rows rows) [])))"

text \<open>What opening and reading a path gives.\<close>

datatype reading = Contents string | NotUtf8 | CannotRead string

definition load :: "validator \<Rightarrow> reading \<Rightarrow> exn + authorization_records" where
  "load validate r =
     (case r of
        Contents text \<Rightarrow> load_stream validate (split_lines [] text)
      | NotUtf8 \<Rightarrow> Inl (AuthorizationError ''authorization file has invalid UTF-8 encoding'')
      | CannotRead why \<Rightarrow> Inl (AuthorizationError why))"

section \<open>The schema\<close>

text \<open>
  The rules of \<open>schema.json\<close>. Its patterns end in \<open>$\<close>, which Python's \<open>re.search\<close> also
  matches before a newline at the end of the text.
\<close>

definition before_final_newline :: "string \<Rightarrow> string" where
  "before_final_newline s = (if s \<noteq> [] \<and> last s = CHR 0x0A then butlast s else s)"

definition is_hex :: "char \<Rightarrow> bool" where
  "is_hex c \<longleftrightarrow> upper_char c \<in> set hex_digits"

fun hex_groups :: "nat \<Rightarrow> string \<Rightarrow> bool" where
  "hex_groups 0 s = (s = [])"
| "hex_groups (Suc n) s =
     (case s of
        h # a # b # rest \<Rightarrow> h = CHR ''-'' \<and> is_hex a \<and> is_hex b \<and> hex_groups n rest
      | _ \<Rightarrow> False)"

definition key_pattern :: "string \<Rightarrow> bool" where
  "key_pattern s =
     (let body = before_final_newline s
      in length body = 10 \<and> list_all is_hex body \<or> hex_groups 5 (CHR ''-'' # body))"

definition name_pattern :: "string \<Rightarrow> bool" where
  "name_pattern s =
     (let body = before_final_newline s
      in CHR 0x0A \<notin> set body \<and> list_ex (\<lambda>c. \<not> is_space c) body)"

definition allow_pattern :: "string \<Rightarrow> bool" where
  "allow_pattern s \<longleftrightarrow> before_final_newline s \<in> {''Y'', ''y'', ''N'', ''n''}"

definition text_matches :: "(string \<Rightarrow> bool) \<Rightarrow> string option \<Rightarrow> bool" where
  "text_matches f x = (case x of None \<Rightarrow> False | Some s \<Rightarrow> f s)"

definition row_valid :: "raw_row \<Rightarrow> bool" where
  "row_valid r \<longleftrightarrow>
     rr_extra r = [] \<and> text_matches key_pattern (rr_key r) \<and>
     text_matches (\<lambda>s. name_pattern s \<and> length s \<le> 120) (rr_name r) \<and>
     text_matches allow_pattern (rr_allow r)"

text \<open>The errors of one row, with their paths.\<close>

definition row_errors :: "nat \<Rightarrow> raw_row \<Rightarrow> (error_path \<times> string) list" where
  "row_errors i r =
     (if rr_extra r \<noteq> [] then [(Some (i, None), ''additional properties are not allowed'')] else []) @
     (if text_matches key_pattern (rr_key r) then [] else [(Some (i, Some ''KEY''), ''KEY is invalid'')]) @
     (if text_matches (\<lambda>s. name_pattern s \<and> length s \<le> 120) (rr_name r) then []
      else [(Some (i, Some ''NAME''), ''NAME is invalid'')]) @
     (if text_matches allow_pattern (rr_allow r) then []
      else [(Some (i, Some ''ALLOW''), ''ALLOW is invalid'')])"

fun rows_errors :: "nat \<Rightarrow> raw_row list \<Rightarrow> (error_path \<times> string) list" where
  "rows_errors i [] = []"
| "rows_errors i (r # rs) = row_errors i r @ rows_errors (i + 1) rs"

definition schema_validator :: validator where
  "schema_validator rows =
     (if rows = [] then [(None, ''the array is too short'')] else rows_errors 0 rows)"

text \<open>
  What is relied on of the validator package: it finds no error exactly in the arrays that the
  schema allows.
\<close>

locale row_validator =
  fixes validate :: validator
  assumes no_errors: "validate rows = [] \<longleftrightarrow> rows \<noteq> [] \<and> (\<forall>r\<in>set rows. row_valid r)"

lemma rows_errors_Nil: "rows_errors i rows = [] \<longleftrightarrow> (\<forall>r\<in>set rows. row_valid r)"
  by (induction rows arbitrary: i) (auto simp: row_errors_def row_valid_def split: if_splits)

interpretation schema: row_validator schema_validator
  by unfold_locales (simp add: schema_validator_def rows_errors_Nil)

section \<open>The accepted files\<close>

text \<open>The entry of the dictionary that a complete row stands for.\<close>

definition row_key :: "raw_row \<Rightarrow> string" where
  "row_key r = normalize_key (the (rr_key r))"

definition row_allows :: "raw_row \<Rightarrow> bool" where
  "row_allows r \<longleftrightarrow> map lower_char (the (rr_allow r)) = ''y''"

definition entry_of :: "raw_row \<Rightarrow> string \<times> authorization_record" where
  "entry_of r =
     (row_key r, \<lparr>au_key = row_key r, au_name = the (rr_name r), au_allow = row_allows r\<rparr>)"

lemma fst_entry_of [simp]: "fst (entry_of r) = row_key r"
  by (simp add: entry_of_def)

definition complete_row :: "raw_row \<Rightarrow> bool" where
  "complete_row r \<longleftrightarrow> rr_key r \<noteq> None \<and> rr_name r \<noteq> None \<and> rr_allow r \<noteq> None"

lemma row_valid_complete: "row_valid r \<Longrightarrow> complete_row r"
  by (auto simp: row_valid_def complete_row_def text_matches_def split: option.splits)

lemma collect_records_step:
  "complete_row r \<Longrightarrow> collect_records (r # rows) acc =
     (if row_key r \<in> fst ` set acc
      then Inl (AuthorizationError ''duplicate authorization key'')
      else collect_records rows (acc @ [entry_of r]))"
proof -
  assume "complete_row r"
  then obtain k n a where r: "rr_key r = Some k" "rr_name r = Some n" "rr_allow r = Some a"
    by (auto simp: complete_row_def)
  then have k: "row_key r = normalize_key k" by (simp add: row_key_def)
  have "(map_of acc (normalize_key k) = None) = (normalize_key k \<notin> fst ` set acc)"
    by (rule map_of_eq_None_iff)
  with r k show ?thesis
    by (cases "normalize_key k \<in> fst ` set acc")
      (simp_all add: entry_of_def row_allows_def Let_def del: not_None_eq)
qed

lemma collect_records_complete:
  "\<forall>r\<in>set rows. complete_row r \<Longrightarrow> distinct (map fst acc) \<Longrightarrow>
   collect_records rows acc = Inr recs \<longleftrightarrow>
     distinct (map fst acc @ map row_key rows) \<and> recs = acc @ map entry_of rows"
proof (induction rows arbitrary: acc)
  case (Cons r rows)
  have r: "complete_row r" and rows: "\<forall>r\<in>set rows. complete_row r" using Cons.prems by auto
  show ?case
  proof (cases "row_key r \<in> fst ` set acc")
    case True
    then show ?thesis by (simp add: collect_records_step [OF r] del: collect_records.simps)
  next
    case False
    then have "distinct (map fst (acc @ [entry_of r]))" using Cons.prems(2) by simp
    from Cons.IH [OF rows this] False Cons.prems(2) show ?thesis
      by (simp add: collect_records_step [OF r] del: collect_records.simps)
  qed
qed auto

text \<open>The records of the text below the header.\<close>

definition parsed_rows :: "string \<Rightarrow> raw_row list option" where
  "parsed_rows text =
     (case csv_rows (split_lines [] text) of
        Inr (header # rows) \<Rightarrow>
          if header = [''KEY'', ''NAME'', ''ALLOW''] then Some (raw_rows rows) else None
      | _ \<Rightarrow> None)"

context row_validator begin

lemma load_Inr:
  "load validate (Contents text) = Inr recs \<longleftrightarrow>
     (\<exists>rows. parsed_rows text = Some rows \<and> rows \<noteq> [] \<and> (\<forall>r\<in>set rows. row_valid r) \<and>
        distinct (map row_key rows) \<and> recs = map entry_of rows)"
proof -
  have errs: "(case sort_key fst (validate rows) of (_, m) # _ \<Rightarrow> Inl (AuthorizationError m)
       | [] \<Rightarrow> collect_records rows []) = Inr recs \<longleftrightarrow>
      rows \<noteq> [] \<and> (\<forall>r\<in>set rows. row_valid r) \<and> distinct (map row_key rows) \<and>
      recs = map entry_of rows" for rows
  proof (cases "validate rows")
    case Nil
    then have "\<forall>r\<in>set rows. complete_row r" using no_errors row_valid_complete by blast
    then show ?thesis
      using Nil no_errors [of rows] collect_records_complete [of rows "[]" recs] by simp
  next
    case (Cons x xs)
    then have "sort_key fst (validate rows) \<noteq> []"
      by (metis length_0_conv length_sort list.distinct(1))
    then have "(case sort_key fst (validate rows) of (_, m) # _ \<Rightarrow> Inl (AuthorizationError m)
       | [] \<Rightarrow> collect_records rows []) \<noteq> Inr recs"
      by (auto split: list.split)
    then show ?thesis using Cons no_errors [of rows] by auto
  qed
  show ?thesis
  proof (cases "csv_next new_csv_parser (split_lines [] text)")
    case (Inl e)
    then show ?thesis by (simp add: load_def load_stream_def parsed_rows_def csv_rows.simps)
  next
    case (Inr x)
    then show ?thesis
      by (auto simp: load_def load_stream_def parsed_rows_def
          csv_rows.simps [of "split_lines [] text"] errs
          split: option.splits sum.splits if_splits)
  qed
qed

end

section \<open>Files in the documented form\<close>

text \<open>
  The form of \<open>docs/authorization-updates.md\<close>: a header and one line per record, no quoting.
\<close>

definition plain_field :: "string \<Rightarrow> bool" where
  "plain_field f \<longleftrightarrow>
     f \<noteq> [] \<and> hd f \<noteq> CHR 0x22 \<and> int (length f) \<le> field_limit \<and>
     (\<forall>c\<in>set f. c \<noteq> CHR '','' \<and> \<not> is_newline c)"

definition render_row :: "string \<times> string \<times> string \<Rightarrow> string" where
  "render_row r = (case r of (k, n, a) \<Rightarrow> k @ '','' @ n @ '','' @ a @ [CHR 0x0A])"

definition render_file :: "(string \<times> string \<times> string) list \<Rightarrow> string" where
  "render_file rows = concat (map render_row ((''KEY'', ''NAME'', ''ALLOW'') # rows))"

lemma plain_fieldD:
  assumes "plain_field f"
  shows "f \<noteq> []" "hd f \<noteq> CHR 0x22" "int (length f) \<le> field_limit"
    "\<forall>c\<in>set f. c \<noteq> CHR '','' \<and> \<not> is_newline c" "\<forall>c\<in>set f. \<not> is_newline c"
  using assms by (simp_all add: plain_field_def)

lemma csv_in_field:
  "\<forall>c\<in>set f. c \<noteq> CHR '','' \<and> \<not> is_newline c \<Longrightarrow> cp_state p = IN_FIELD \<Longrightarrow>
   int (length (cp_field p) + length f) \<le> field_limit \<Longrightarrow>
   csv_process_all (map Some f @ xs) p =
   csv_process_all xs (p\<lparr>cp_field := cp_field p @ f\<rparr>)"
proof (induction f arbitrary: p)
  case (Cons c f)
  let ?q = "p\<lparr>cp_field := cp_field p @ [c]\<rparr>"
  have "csv_process (Some c) p = Inr (p\<lparr>cp_state := IN_FIELD, cp_field := cp_field p @ [c]\<rparr>)"
    using Cons.prems by (simp add: csv_process_def csv_add_def)
  also have "p\<lparr>cp_state := IN_FIELD, cp_field := cp_field p @ [c]\<rparr> = ?q"
    using Cons.prems(2) by (cases p) simp
  finally have "csv_process_all (map Some (c # f) @ xs) p = csv_process_all (map Some f @ xs) ?q"
    by simp
  also have "\<dots> = csv_process_all xs (?q\<lparr>cp_field := cp_field ?q @ f\<rparr>)"
    by (rule Cons.IH) (use Cons.prems in simp_all)
  finally show ?case by simp
qed simp

lemma csv_plain_field:
  assumes "plain_field f" and "cp_state p = START_RECORD \<or> cp_state p = START_FIELD"
    and "cp_field p = []"
  shows "csv_process_all (map Some f @ xs) p =
    csv_process_all xs (p\<lparr>cp_state := IN_FIELD, cp_field := f\<rparr>)"
proof -
  obtain c g where f: "f = c # g" using plain_fieldD(1) [OF assms(1)] by (cases f) simp
  let ?q = "p\<lparr>cp_state := IN_FIELD, cp_field := [c]\<rparr>"
  have c: "c \<noteq> CHR '',''" "\<not> is_newline c" "c \<noteq> CHR 0x22"
    using plain_fieldD(2,4) [OF assms(1)] f by simp_all
  have "csv_start_field (Some c) p = Inr ?q"
    using c assms(3) by (simp add: csv_start_field_def csv_add_def field_limit_def)
  then have "csv_process (Some c) p = Inr ?q"
    using assms(2) c(2) by (auto simp: csv_process_def)
  then have "csv_process_all (map Some f @ xs) p = csv_process_all (map Some g @ xs) ?q"
    by (simp add: f)
  also have "\<dots> = csv_process_all xs (?q\<lparr>cp_field := cp_field ?q @ g\<rparr>)"
    by (rule csv_in_field) (use plain_fieldD(3,4) [OF assms(1)] f in simp_all)
  finally show ?thesis by (simp add: f)
qed

lemma csv_comma:
  "cp_state p = IN_FIELD \<Longrightarrow>
   csv_process_all (Some (CHR '','') # xs) p = csv_process_all xs (csv_save START_FIELD p)"
  by (simp add: csv_process_def is_newline_def)

lemma csv_line_end:
  "cp_state p = IN_FIELD \<Longrightarrow>
   csv_process_all [Some (CHR 0x0A), None] p = Inr (csv_save START_RECORD p)"
  by (simp add: csv_process_def is_newline_def csv_save_def)

lemma csv_line_render:
  assumes "plain_field k" "plain_field n" "plain_field a"
  shows "csv_line (render_row (k, n, a)) new_csv_parser =
    Inr \<lparr>cp_state = START_RECORD, cp_field = [], cp_row = [k, n, a]\<rparr>"
  using assms
  by (simp add: csv_line_def render_row_def csv_plain_field csv_comma csv_line_end csv_save_def
      new_csv_parser_def del: csv_process_all.simps)

lemma split_lines_line:
  "\<forall>c\<in>set f. \<not> is_newline c \<Longrightarrow>
   split_lines acc (f @ CHR 0x0A # rest) = (acc @ f @ [CHR 0x0A]) # split_lines [] rest"
  by (induction f arbitrary: acc) (auto simp: is_newline_def)

lemma split_lines_render:
  assumes "plain_field k" "plain_field n" "plain_field a"
  shows "split_lines [] (render_row (k, n, a) @ rest) = render_row (k, n, a) # split_lines [] rest"
proof -
  have "\<forall>c\<in>set (k @ '','' @ n @ '','' @ a). \<not> is_newline c"
    using assms [THEN plain_fieldD(5)] is_newline_def by (simp add: ball_Un)
  from split_lines_line [OF this, of "[]" rest] show ?thesis by (simp add: render_row_def)
qed

lemma csv_rows_render:
  "\<forall>(k, n, a)\<in>set rows. plain_field k \<and> plain_field n \<and> plain_field a \<Longrightarrow>
   csv_rows (split_lines [] (concat (map render_row rows))) =
   Inr (map (\<lambda>(k, n, a). [k, n, a]) rows)"
proof (induction rows)
  case Nil
  then show ?case by (simp add: csv_rows.simps new_csv_parser_def)
next
  case (Cons r rows)
  obtain k n a where r: "r = (k, n, a)" by (cases r)
  with Cons.prems have plain: "plain_field k" "plain_field n" "plain_field a" by auto
  let ?rest = "split_lines [] (concat (map render_row rows))"
  have "csv_next new_csv_parser (render_row (k, n, a) # ?rest) = Inr (Some ([k, n, a], ?rest))"
    using csv_line_render [OF plain] by simp
  then have "csv_rows (render_row (k, n, a) # ?rest) =
      (case csv_rows ?rest of Inl e \<Rightarrow> Inl e | Inr rs \<Rightarrow> Inr ([k, n, a] # rs))"
    by (subst csv_rows.simps) simp
  moreover have "csv_rows ?rest = Inr (map (\<lambda>(k, n, a). [k, n, a]) rows)"
    using Cons.IH Cons.prems by simp
  ultimately show ?case
    using split_lines_render [OF plain] by (simp add: r)
qed

text \<open>
  A key is written as its ten hexadecimal digits, or as five groups of two digits with hyphens
  between them.
\<close>

fun hyphenated :: "string \<Rightarrow> string" where
  "hyphenated (a # b # c # rest) = a # b # CHR ''-'' # hyphenated (c # rest)"
| "hyphenated s = s"

definition written_key :: "bool \<Rightarrow> string \<Rightarrow> string" where
  "written_key hyphens k = (if hyphens then hyphenated k else k)"

text \<open>
  A record in the documented form: the ten digits of the key, whether it is written with
  hyphens, the name, and \<open>Y\<close> or \<open>N\<close> in either case.
\<close>

type_synonym documented = "string \<times> bool \<times> string \<times> string"

definition documented_row :: "documented \<Rightarrow> bool" where
  "documented_row r \<longleftrightarrow>
     (case r of (k, h, n, a) \<Rightarrow>
        length k = 10 \<and> list_all is_hex k \<and>
        plain_field n \<and> length n \<le> 120 \<and> list_ex (\<lambda>c. \<not> is_space c) n \<and>
        a \<in> {''Y'', ''y'', ''N'', ''n''})"

definition documented_file :: "documented list \<Rightarrow> string" where
  "documented_file rows = render_file (map (\<lambda>(k, h, n, a). (written_key h k, n, a)) rows)"

text \<open>What the loaded file holds for a record.\<close>

definition documented_entry :: "documented \<Rightarrow> string \<times> authorization_record" where
  "documented_entry r =
     (case r of (k, h, n, a) \<Rightarrow>
        (map upper_char k,
         \<lparr>au_key = map upper_char k, au_name = n, au_allow = (a \<in> {''Y'', ''y''})\<rparr>))"

lemma is_hex_not: "\<not> is_hex (CHR '','')" "\<not> is_hex (CHR 0x0A)" "\<not> is_hex (CHR 0x0D)"
  "\<not> is_hex (CHR 0x22)" "\<not> is_hex (CHR ''-'')"
  by (simp_all add: is_hex_def upper_char_def hex_digits_def)

text \<open>The ten digits of a key, one by one.\<close>

lemma ten_digits:
  assumes "length k = 10" and "list_all is_hex k"
  obtains a b c d e f g h i j where "k = [a, b, c, d, e, f, g, h, i, j]"
    "is_hex a" "is_hex b" "is_hex c" "is_hex d" "is_hex e" "is_hex f" "is_hex g" "is_hex h"
    "is_hex i" "is_hex j"
proof -
  have "length k = Suc (Suc (Suc (Suc (Suc (Suc (Suc (Suc (Suc (Suc 0)))))))))"
    using assms(1) by simp
  then show ?thesis using assms(2) that by (auto simp: length_Suc_conv)
qed

lemma plain_key:
  assumes "length k = 10" and "list_all is_hex k"
  shows "plain_field (written_key h k)"
proof -
  have hex: "\<forall>c\<in>set (written_key h k). is_hex c \<or> c = CHR ''-''" and "is_hex (hd (written_key h k))"
    and len: "written_key h k \<noteq> []" "length (written_key h k) \<le> 14"
    by (rule ten_digits [OF assms], simp add: written_key_def)+
  then have "c \<noteq> CHR '','' \<and> \<not> is_newline c" if "c \<in> set (written_key h k)" for c
    using that is_hex_not by (auto simp: is_newline_def)
  moreover have "hd (written_key h k) \<noteq> CHR 0x22"
    using \<open>is_hex (hd (written_key h k))\<close> is_hex_not(4) by auto
  ultimately show ?thesis using len by (simp add: plain_field_def field_limit_def)
qed

lemma normalize_written_key:
  assumes "length k = 10" and "list_all is_hex k"
  shows "normalize_key (written_key h k) = map upper_char k"
proof (rule ten_digits [OF assms])
  fix a b c d e f g h' i j
  assume "k = [a, b, c, d, e, f, g, h', i, j]"
    and "is_hex a" "is_hex b" "is_hex c" "is_hex d" "is_hex e" "is_hex f" "is_hex g" "is_hex h'"
    "is_hex i" "is_hex j"
  moreover have "x \<noteq> CHR ''-''" if "is_hex x" for x using that is_hex_not(5) by auto
  ultimately show ?thesis by (simp add: normalize_key_def written_key_def)
qed

lemma plain_no_final_newline: "plain_field f \<Longrightarrow> before_final_newline f = f"
  by (cases "last f = CHR 0x0A") (auto simp: before_final_newline_def plain_field_def is_newline_def)

lemma plain_letters:
  "plain_field ''Y''" "plain_field ''y''" "plain_field ''N''" "plain_field ''n''"
  "plain_field ''KEY''" "plain_field ''NAME''" "plain_field ''ALLOW''"
  by code_simp+

lemma written_key_pattern:
  assumes "length k = 10" and "list_all is_hex k"
  shows "key_pattern (written_key h k)"
proof -
  have "hex_groups 5 (CHR ''-'' # hyphenated k)"
    by (rule ten_digits [OF assms]) (simp add: eval_nat_numeral)
  moreover have "before_final_newline (written_key h k) = written_key h k"
    by (rule plain_no_final_newline [OF plain_key [OF assms]])
  ultimately show ?thesis
    unfolding key_pattern_def Let_def using assms by (cases h) (simp_all add: written_key_def)
qed

lemma documented_row_valid:
  assumes "documented_row (k, h, n, a)"
  shows "row_valid (raw_row_of [written_key h k, n, a])"
    and "plain_field (written_key h k)" "plain_field n" "plain_field a"
proof -
  have d: "length k = 10" "list_all is_hex k" "plain_field n" "length n \<le> 120"
    "list_ex (\<lambda>c. \<not> is_space c) n" "a \<in> {''Y'', ''y'', ''N'', ''n''}"
    using assms by (simp_all add: documented_row_def)
  show k: "plain_field (written_key h k)" using plain_key d(1,2) .
  show n: "plain_field n" by (rule d(3))
  show a: "plain_field a"
    using d(6) plain_letters by blast
  have "CHR 0x0A \<notin> set n" using plain_fieldD(5) [OF n] by (auto simp: is_newline_def)
  then have "name_pattern n"
    using d(5) by (simp add: name_pattern_def plain_no_final_newline [OF n])
  moreover have "key_pattern (written_key h k)"
    using d(1,2) by (rule written_key_pattern)
  moreover have "allow_pattern a"
    using d(6) by (simp only: allow_pattern_def plain_no_final_newline [OF a])
  ultimately show "row_valid (raw_row_of [written_key h k, n, a])"
    using d(4) by (simp add: row_valid_def raw_row_of_def nth_option_def text_matches_def)
qed

lemma allow_letter:
  "a \<in> {''Y'', ''y'', ''N'', ''n''} \<Longrightarrow> map lower_char a = ''y'' \<longleftrightarrow> a \<in> {''Y'', ''y''}"
proof -
  have "map lower_char ''Y'' = ''y''" "map lower_char ''y'' = ''y''"
    "map lower_char ''N'' \<noteq> ''y''" "map lower_char ''n'' \<noteq> ''y''"
    by code_simp+
  then show "a \<in> {''Y'', ''y'', ''N'', ''n''} \<Longrightarrow> map lower_char a = ''y'' \<longleftrightarrow> a \<in> {''Y'', ''y''}"
    by auto
qed

context row_validator begin

lemma load_documented:
  assumes "rows \<noteq> []" and rows: "\<forall>r\<in>set rows. documented_row r"
    and keys: "distinct (map (fst \<circ> documented_entry) rows)"
  shows "load validate (Contents (documented_file rows)) = Inr (map documented_entry rows)"
proof -
  let ?raw = "map (\<lambda>(k, h, n, a). raw_row_of [written_key h k, n, a]) rows"
  let ?rows = "map (\<lambda>(k, h, n, a). (written_key h k, n, a)) rows"
  have plain: "\<forall>(k, n, a)\<in>set ((''KEY'', ''NAME'', ''ALLOW'') # ?rows).
      plain_field k \<and> plain_field n \<and> plain_field a"
  proof -
    have "plain_field (written_key h k) \<and> plain_field n \<and> plain_field a"
      if "(k, h, n, a) \<in> set rows" for k h n a
      using rows that documented_row_valid(2-4) by blast
    then show ?thesis using plain_letters(5-7) by auto
  qed
  have parsed: "parsed_rows (documented_file rows) = Some ?raw"
    using csv_rows_render [OF plain]
    by (simp add: parsed_rows_def documented_file_def render_file_def raw_rows_def filter_map
        comp_def split_def)
  have valid: "\<forall>r\<in>set ?raw. row_valid r"
    using rows documented_row_valid(1) by auto
  have entry: "entry_of (raw_row_of [written_key h k, n, a]) = documented_entry (k, h, n, a)"
    if "(k, h, n, a) \<in> set rows" for k h n a
  proof -
    have d: "length k = 10" "list_all is_hex k" "a \<in> {''Y'', ''y'', ''N'', ''n''}"
      using rows that by (auto simp: documented_row_def)
    show ?thesis
      using allow_letter [OF d(3)] normalize_written_key [OF d(1,2)]
      by (simp add: entry_of_def row_key_def row_allows_def raw_row_of_def nth_option_def
          documented_entry_def)
  qed
  have entries: "map entry_of ?raw = map documented_entry rows"
    using entry by auto
  have "map row_key ?raw = map (fst \<circ> documented_entry) rows"
    using arg_cong [OF entries, of "map fst"] by (simp add: comp_def)
  with keys have "distinct (map row_key ?raw)" by argo
  moreover have "?raw \<noteq> []" using assms(1) by simp
  ultimately have "\<exists>rs. parsed_rows (documented_file rows) = Some rs \<and> rs \<noteq> [] \<and>
      (\<forall>r\<in>set rs. row_valid r) \<and> distinct (map row_key rs) \<and>
      map documented_entry rows = map entry_of rs"
    by - (rule exI [of _ ?raw], intro conjI parsed valid entries [symmetric])
  then show ?thesis unfolding load_Inr .
qed

end

text \<open>
  C20. A file in the documented form, with a line for each of a nonempty list of records, is
  accepted, and the records that come out are exactly the records that went in, in order: the
  ten digits of the key in upper case and without hyphens, whichever of the two ways the line
  writes it, the name as written, and allowed exactly where the line says \<open>Y\<close> or \<open>y\<close>. No
  two of the records may have the same key.
\<close>

theorem documented_file_loads:
  assumes "row_validator validate"
    and "rows \<noteq> []" and "\<forall>r\<in>set rows. documented_row r"
    and "distinct (map (fst \<circ> documented_entry) rows)"
  shows "load validate (Contents (documented_file rows)) = Inr (map documented_entry rows)"
  by (rule row_validator.load_documented [OF assms])

lemma documented_file_loads_witness:
  "load schema_validator (Contents (documented_file
      [(''0102030405'', True, ''Front door'', ''Y''), (''a1B2c3D4e5'', False, ''Side door'', ''n'')])) =
   Inr [(''0102030405'', \<lparr>au_key = ''0102030405'', au_name = ''Front door'', au_allow = True\<rparr>),
        (''A1B2C3D4E5'', \<lparr>au_key = ''A1B2C3D4E5'', au_name = ''Side door'', au_allow = False\<rparr>)]"
proof -
  let ?rows = "[(''0102030405'', True, ''Front door'', ''Y''), (''a1B2c3D4e5'', False, ''Side door'', ''n'')]"
  have "?rows \<noteq> []" by simp
  moreover have "\<forall>r\<in>set ?rows. documented_row r" by code_simp
  moreover have "distinct (map (fst \<circ> documented_entry) ?rows)" by code_simp
  moreover have "map documented_entry ?rows =
      [(''0102030405'', \<lparr>au_key = ''0102030405'', au_name = ''Front door'', au_allow = True\<rparr>),
       (''A1B2C3D4E5'', \<lparr>au_key = ''A1B2C3D4E5'', au_name = ''Side door'', au_allow = False\<rparr>)]"
    by code_simp
  ultimately show ?thesis
    using documented_file_loads [OF schema.row_validator_axioms, of ?rows] by simp
qed

text \<open>The first of these lines, as the file has it.\<close>

lemma hyphenated_line:
  "written_key True ''0102030405'' = ''01-02-03-04-05''"
  by code_simp

end
