(* ===== verification/Timestamps.thy ===== *)
theory Timestamps
  imports Wall_Clock "HOL-Library.List_Lexorder" "HOL-Library.Char_ord"
begin

text \<open>
  The texts of \<open>isoformat\<close>, as the SQL of the audit storage compares them: byte by byte. For UTC
  times of the years 1 to 9999 the order of the texts is the order of the times.
\<close>

section \<open>The calendar\<close>

definition leap_year :: "int \<Rightarrow> bool" where
  "leap_year y \<longleftrightarrow> y mod 4 = 0 \<and> (y mod 100 \<noteq> 0 \<or> y mod 400 = 0)"

definition month_length :: "int \<Rightarrow> int \<Rightarrow> int" where
  "month_length y m = days_in_month ! nat (m - 1) + (if m = 2 \<and> leap_year y then 1 else 0)"

definition days_before_year :: "int \<Rightarrow> int" where
  "days_before_year y = (y - 1) * 365 + (y - 1) div 4 - (y - 1) div 100 + (y - 1) div 400"

definition before_month :: "bool \<Rightarrow> int \<Rightarrow> int" where
  "before_month leap m = days_before_month ! nat (m - 1) + (if 2 < m \<and> leap then 1 else 0)"

text \<open>The day number of a date, as \<open>date.toordinal\<close> counts it, from 0.\<close>

definition day_number :: "int \<times> int \<times> int \<Rightarrow> int" where
  "day_number d =
     (case d of (y, m, dd) \<Rightarrow> days_before_year y + before_month (leap_year y) m + dd - 1)"

definition valid_date :: "int \<times> int \<times> int \<Rightarrow> bool" where
  "valid_date d \<longleftrightarrow>
     (case d of (y, m, dd) \<Rightarrow> 1 \<le> m \<and> m \<le> 12 \<and> 1 \<le> dd \<and> dd \<le> month_length y m)"

text \<open>The month and the day of the \<open>n\<close>-th day of a year.\<close>

definition month_day :: "bool \<Rightarrow> int \<Rightarrow> int \<times> int" where
  "month_day leap n =
     (let month = (n + 50) div 32; preceding = before_month leap month
      in if n < preceding
         then let m = month - 1;
                  p = preceding - (days_in_month ! nat (m - 1) + (if m = 2 \<and> leap then 1 else 0))
              in (m, n - p + 1)
         else (month, n - preceding + 1))"

definition month_day_ok :: "bool \<Rightarrow> int \<Rightarrow> bool" where
  "month_day_ok leap n \<longleftrightarrow>
     (case month_day leap n of (m, dd) \<Rightarrow>
        1 \<le> m \<and> m \<le> 12 \<and> 1 \<le> dd \<and>
        dd \<le> days_in_month ! nat (m - 1) + (if m = 2 \<and> leap then 1 else 0) \<and>
        before_month leap m + dd - 1 = n)"

lemma every_day_has_a_month:
  "list_all (month_day_ok False) [0..364]" "list_all (month_day_ok True) [0..365]"
  by code_simp+

lemma month_day_correct:
  assumes "0 \<le> n" "n < 365 \<or> leap \<and> n < 366"
  shows "month_day_ok leap n"
proof (cases leap)
  case True
  with assms have "n \<in> set [0..365]" by auto
  with every_day_has_a_month(2) True show ?thesis unfolding list_all_iff by simp
next
  case False
  with assms have "n \<in> set [0..364]" by auto
  with every_day_has_a_month(1) False show ?thesis unfolding list_all_iff by simp
qed

lemma mod_is_zero:
  fixes x k q r :: int
  assumes "x = k * q + r" "0 < r" "r \<le> q"
  shows "x mod q = 0 \<longleftrightarrow> r = q"
proof (cases "r = q")
  case False
  with assms have "x mod q = r" by simp
  with assms False show ?thesis by simp
qed (use assms in simp)

text \<open>The year that starts after \<open>a\<close> cycles of 400, \<open>b\<close> of 100, \<open>c\<close> of 4 and \<open>d\<close> single years.\<close>

lemma year_parts:
  fixes a b c d :: int
  assumes "0 \<le> b" "b < 4" "0 \<le> c" "c < 25" "0 \<le> d" "d < 4"
  shows "days_before_year (a * 400 + 1 + b * 100 + c * 4 + d) =
      a * 146097 + b * 36524 + c * 1461 + d * 365"
    and "leap_year (a * 400 + 1 + b * 100 + c * 4 + d) \<longleftrightarrow> d = 3 \<and> (c \<noteq> 24 \<or> b = 3)"
proof -
  let ?e = "a * 400 + b * 100 + c * 4 + d"
  have y: "a * 400 + 1 + b * 100 + c * 4 + d = ?e + 1" by simp
  have "?e div 4 = a * 100 + b * 25 + c" "?e div 100 = a * 4 + b" "?e div 400 = a"
    using assms by auto
  then show "days_before_year (a * 400 + 1 + b * 100 + c * 4 + d) =
      a * 146097 + b * 36524 + c * 1461 + d * 365"
    unfolding y by (simp add: days_before_year_def)
  have "(?e + 1) mod 4 = 0 \<longleftrightarrow> d + 1 = 4"
    using assms by (intro mod_is_zero [of _ "a * 100 + b * 25 + c"]) auto
  moreover have "(?e + 1) mod 100 = 0 \<longleftrightarrow> c * 4 + d + 1 = 100"
    using assms by (intro mod_is_zero [of _ "a * 4 + b"]) auto
  moreover have "(?e + 1) mod 400 = 0 \<longleftrightarrow> b * 100 + c * 4 + d + 1 = 400"
    using assms by (intro mod_is_zero [of _ a]) auto
  ultimately show "leap_year (a * 400 + 1 + b * 100 + c * 4 + d) \<longleftrightarrow> d = 3 \<and> (c \<noteq> 24 \<or> b = 3)"
    unfolding y leap_year_def using assms by auto
qed

lemma day_parts:
  fixes day :: int
  obtains a b c d n where "day = a * 146097 + b * 36524 + c * 1461 + d * 365 + n"
    "a = day div 146097" "b = day mod 146097 div 36524" "c = day mod 146097 mod 36524 div 1461"
    "d = day mod 146097 mod 36524 mod 1461 div 365" "n = day mod 146097 mod 36524 mod 1461 mod 365"
    "0 \<le> b" "b \<le> 4" "0 \<le> c" "c < 25" "0 \<le> d" "d \<le> 4" "0 \<le> n" "n < 365"
    "b = 4 \<Longrightarrow> c = 0 \<and> d = 0 \<and> n = 0" "d = 4 \<Longrightarrow> n = 0 \<and> (b = 4 \<or> b = 3 \<or> c < 24)"
proof -
  define r where "r = day mod 146097"
  define t where "t = r mod 36524"
  define u where "u = t mod 1461"
  have r: "0 \<le> r" "r < 146097" and t: "0 \<le> t" "t < 36524" and u: "0 \<le> u" "u < 1461"
    by (auto simp: r_def t_def u_def)
  have e: "day = 146097 * (day div 146097) + r" "r = 36524 * (r div 36524) + t"
      "t = 1461 * (t div 1461) + u" "u = 365 * (u div 365) + u mod 365"
    by (simp_all add: r_def t_def u_def)
  show ?thesis
  proof (rule that [of "day div 146097" "r div 36524" "t div 1461" "u div 365" "u mod 365"])
    show "day = day div 146097 * 146097 + r div 36524 * 36524 + t div 1461 * 1461 +
        u div 365 * 365 + u mod 365" using e by linarith
    show "r div 36524 \<le> 4" "t div 1461 < 25" "u div 365 \<le> 4" "0 \<le> r div 36524"
      "0 \<le> t div 1461" "0 \<le> u div 365" using r t u by auto
    show "t div 1461 = 0 \<and> u div 365 = 0 \<and> u mod 365 = 0" if "r div 36524 = 4"
    proof -
      have "t = 0" using e(2) r t that by linarith
      then show ?thesis by (simp add: u_def)
    qed
    show "u mod 365 = 0 \<and> (r div 36524 = 4 \<or> r div 36524 = 3 \<or> t div 1461 < 24)"
      if "u div 365 = 4"
    proof -
      have u1460: "u = 1460" using e(4) u that by linarith
      then have "t div 1461 < 24" using e(3) t by linarith
      with u1460 show ?thesis by simp
    qed
  qed (auto simp: r_def t_def u_def)
qed

text \<open>Every day has its date, and dates are counted through without a gap.\<close>

lemma civil_of_days_correct:
  "day_number (civil_of_days day) = day \<and> valid_date (civil_of_days day)"
proof -
  obtain a b c d n where day: "day = a * 146097 + b * 36524 + c * 1461 + d * 365 + n"
    and parts: "a = day div 146097" "b = day mod 146097 div 36524"
      "c = day mod 146097 mod 36524 div 1461" "d = day mod 146097 mod 36524 mod 1461 div 365"
      "n = day mod 146097 mod 36524 mod 1461 mod 365"
    and bounds: "0 \<le> b" "b \<le> 4" "0 \<le> c" "c < 25" "0 \<le> d" "d \<le> 4" "0 \<le> n" "n < 365"
    and b4: "b = 4 \<Longrightarrow> c = 0 \<and> d = 0 \<and> n = 0"
    and d4: "d = 4 \<Longrightarrow> n = 0 \<and> (b = 4 \<or> b = 3 \<or> c < 24)"
    by (rule day_parts [of day]) blast
  let ?y = "a * 400 + 1 + b * 100 + c * 4 + d"
  have civil: "civil_of_days day =
      (if d = 4 \<or> b = 4 then (?y - 1, 12, 31)
       else (?y, month_day (d = 3 \<and> (c \<noteq> 24 \<or> b = 3)) n))"
    unfolding civil_of_days_def month_day_def before_month_def Let_def parts [symmetric]
    by (simp only: fst_conv snd_conv if_distrib [of "Pair _"])
  have last: "day_number (y, 12, 31) = days_before_year y + (if leap_year y then 365 else 364)"
    "valid_date (y, 12, 31)" for y
    by (simp_all add: day_number_def before_month_def days_before_month_def valid_date_def
        month_length_def days_in_month_def numeral_eq_Suc)
  consider "b = 4" | "b \<noteq> 4" "d = 4" | "b \<noteq> 4" "d \<noteq> 4" by blast
  then show ?thesis
  proof cases
    case 1
    with b4 have "c = 0" "d = 0" "n = 0" by auto
    with 1 civil have "civil_of_days day = (a * 400 + 400, 12, 31)" by simp
    with year_parts [of 3 24 3 a] last [of "a * 400 + 400"] show ?thesis
      using day 1 \<open>c = 0\<close> \<open>d = 0\<close> \<open>n = 0\<close> by (simp add: add.commute)
  next
    case 2
    with d4 bounds have "n = 0" "b < 4" "b = 3 \<or> c < 24" by auto
    have y: "?y - 1 = a * 400 + 1 + b * 100 + c * 4 + 3" using 2 by simp
    from 2 civil have "civil_of_days day = (?y - 1, 12, 31)" by simp
    moreover have "leap_year (?y - 1)"
      unfolding y using \<open>b < 4\<close> \<open>b = 3 \<or> c < 24\<close> bounds year_parts(2) [of b c 3 a] by auto
    moreover have "days_before_year (?y - 1) = day - 365"
      unfolding y using \<open>b < 4\<close> bounds year_parts(1) [of b c 3 a] day 2 \<open>n = 0\<close> by simp
    ultimately show ?thesis using last [of "?y - 1"] by simp
  next
    case 3
    with bounds have "b < 4" "d < 4" by auto
    obtain m dd where md: "month_day (d = 3 \<and> (c \<noteq> 24 \<or> b = 3)) n = (m, dd)" by force
    with 3 civil have date: "civil_of_days day = (?y, m, dd)" by simp
    have leap: "leap_year ?y \<longleftrightarrow> d = 3 \<and> (c \<noteq> 24 \<or> b = 3)"
      "days_before_year ?y = day - n"
      using year_parts [of b c d a] bounds \<open>b < 4\<close> \<open>d < 4\<close> day by auto
    have "month_day_ok (leap_year ?y) n" using month_day_correct bounds by simp
    then show ?thesis
      unfolding date month_day_ok_def leap(1) md
      by (simp add: day_number_def valid_date_def month_length_def leap)
  qed
qed

lemma div_pred:
  fixes y k :: int
  assumes "0 < k"
  shows "y div k = (y - 1) div k + (if y mod k = 0 then 1 else 0)"
proof (cases "y mod k = 0")
  case True
  have "y = k * (y div k)" using True by (metis add.right_neutral mult_div_mod_eq)
  then have "(y - 1) div k = y div k - 1"
    using assms by (intro int_div_pos_eq [of _ _ _ "k - 1"]) (auto simp: algebra_simps)
  with True show ?thesis by simp
next
  case False
  have "y = k * (y div k) + y mod k" by simp
  moreover have "0 < y mod k" "y mod k < k"
    using False pos_mod_sign [OF assms, of y] pos_mod_bound [OF assms, of y] by linarith+
  ultimately have "(y - 1) div k = y div k"
    by (intro int_div_pos_eq [of _ _ _ "y mod k - 1"]) linarith+
  with False show ?thesis by simp
qed

lemma count_leap_day:
  "(P100 \<Longrightarrow> P4) \<Longrightarrow> (P400 \<Longrightarrow> P100) \<Longrightarrow>
   (if P4 \<and> (\<not> P100 \<or> P400) then 366 else 365 :: int) =
     365 + (if P4 then 1 else 0) - (if P100 then 1 else 0) + (if P400 then 1 else 0)"
  by (cases P4; cases P100; cases P400; simp)

lemma year_sum:
  fixes x a b c p q r :: int
  assumes "a = a' + p" "b = b' + q" "c = c' + r"
  shows "x * 365 + a - b + c = (x - 1) * 365 + a' - b' + c' + (365 + p - q + r)"
  by (simp add: assms)

lemma days_before_next_year:
  "days_before_year (y + 1) = days_before_year y + (if leap_year y then 366 else 365)"
proof -
  have "y mod 4 = 0" if "y mod 100 = 0" using that dvd_trans [of 4 100 y] by auto
  moreover have "y mod 100 = 0" if "y mod 400 = 0" using that dvd_trans [of 100 400 y] by auto
  ultimately have leap: "(if leap_year y then 366 else 365 :: int) =
      365 + (if y mod 4 = 0 then 1 else 0) - (if y mod 100 = 0 then 1 else 0) +
      (if y mod 400 = 0 then 1 else 0)"
    unfolding leap_year_def by (rule count_leap_day)
  have "days_before_year (y + 1) = y * 365 + y div 4 - y div 100 + y div 400"
    by (simp add: days_before_year_def)
  then show ?thesis
    unfolding leap days_before_year_def [of y]
    by (simp only:) (rule year_sum; rule div_pred; simp)
qed

lemma days_before_year_mono:
  assumes "y < z"
  shows "days_before_year y + (if leap_year y then 366 else 365) \<le> days_before_year z"
  using assms
proof (induction z rule: int_gr_induct)
  case base
  show ?case by (simp add: days_before_next_year)
next
  case (step z)
  then show ?case using days_before_next_year [of z] by (simp split: if_splits)
qed

definition date_less :: "int \<times> int \<times> int \<Rightarrow> int \<times> int \<times> int \<Rightarrow> bool" where
  "date_less d e \<longleftrightarrow>
     (case (d, e) of ((y, m, dd), (y', m', dd')) \<Rightarrow>
        y < y' \<or> y = y' \<and> (m < m' \<or> m = m' \<and> dd < dd'))"

definition month_fits :: "bool \<Rightarrow> int \<Rightarrow> bool" where
  "month_fits leap m \<longleftrightarrow>
     (let after = before_month leap m + days_in_month ! nat (m - 1) +
                  (if m = 2 \<and> leap then 1 else 0)
      in 0 \<le> before_month leap m \<and> after \<le> (if leap then 366 else 365) \<and>
         list_all (\<lambda>m'. m' \<le> m \<or> after \<le> before_month leap m') [1..12])"

lemma every_month_fits: "list_all (month_fits False) [1..12]" "list_all (month_fits True) [1..12]"
  by code_simp+

lemma month_fits:
  assumes "1 \<le> m" "m \<le> 12"
  shows "month_fits leap m"
  using assms every_month_fits unfolding list_all_iff by (cases leap) auto

text \<open>Day numbers grow with the dates.\<close>

lemma day_number_less:
  assumes "valid_date d" "valid_date e" "date_less d e"
  shows "day_number d < day_number e"
proof -
  obtain y m dd where d: "d = (y, m, dd)" by (cases d) auto
  obtain y' m' dd' where e: "e = (y', m', dd')" by (cases e) auto
  have m: "1 \<le> m" "m \<le> 12" "1 \<le> m'" "m' \<le> 12"
    using assms by (auto simp: d e valid_date_def)
  have "0 \<le> before_month (leap_year y') m'" using month_fits [OF m(3,4)] by (simp add: month_fits_def Let_def)
  moreover have fits: "before_month (leap_year y) m + month_length y m \<le> (if leap_year y then 366 else 365)"
    using month_fits [OF m(1,2), of "leap_year y"] by (simp add: month_fits_def Let_def month_length_def)
  moreover have "before_month (leap_year y) m + month_length y m \<le> before_month (leap_year y) m'"
    if "m < m'"
  proof -
    have "m' \<in> set [1..12]" using m by simp
    then show ?thesis
      using month_fits [OF m(1,2), of "leap_year y"] that
      unfolding month_fits_def Let_def month_length_def list_all_iff by fastforce
  qed
  ultimately show ?thesis
    using assms days_before_year_mono [of y y']
    by (auto simp: d e date_less_def valid_date_def day_number_def)
qed

lemma date_total: "d = e \<or> date_less d e \<or> date_less e d"
  by (cases d; cases e) (auto simp: date_less_def)

text \<open>Later days have later dates.\<close>

lemma civil_of_days_less:
  assumes "day < day'"
  shows "date_less (civil_of_days day) (civil_of_days day')"
  using assms date_total [of "civil_of_days day" "civil_of_days day'"]
    day_number_less [of "civil_of_days day'" "civil_of_days day"] civil_of_days_correct
  by (metis order.asym order.irrefl)

text \<open>The days of the years 1 to 9999.\<close>

definition calendar_end :: int where
  "calendar_end = 3652059"

lemma civil_year_bounds:
  assumes "0 \<le> day" "day < calendar_end" "civil_of_days day = (y, m, dd)"
  shows "0 < y \<and> y < 10000 \<and> 1 \<le> m \<and> m \<le> 12 \<and> 1 \<le> dd \<and> dd < 100"
proof -
  have n: "day = days_before_year y + before_month (leap_year y) m + dd - 1"
    and v: "1 \<le> m" "m \<le> 12" "1 \<le> dd" "dd \<le> month_length y m"
    using civil_of_days_correct [of day] assms(3) by (auto simp: day_number_def valid_date_def)
  have fits: "0 \<le> before_month (leap_year y) m"
    "before_month (leap_year y) m + month_length y m \<le> (if leap_year y then 366 else 365)"
    using month_fits [OF v(1,2), of "leap_year y"]
    by (simp_all add: month_fits_def Let_def month_length_def)
  have first: "days_before_year 1 = 0" "days_before_year 10000 = calendar_end"
    by (simp_all add: days_before_year_def calendar_end_def)
  have "0 < y"
  proof (rule ccontr)
    assume "\<not> 0 < y"
    with days_before_year_mono [of y 1] first n v fits assms show False by simp
  qed
  moreover have "y < 10000"
  proof (rule ccontr)
    assume "\<not> y < 10000"
    with days_before_year_mono [of 10000 y] first n v fits assms show False
      by (cases "y = 10000") (auto split: if_splits)
  qed
  moreover have "m \<in> set [1..12]" using v by simp
  then have "month_length y m < 100"
    by (auto simp: month_length_def days_in_month_def upto.simps numeral_eq_Suc)
  ultimately show ?thesis using v by simp
qed

section \<open>Texts\<close>

lemma append_less: "length u = length v \<Longrightarrow> u @ x < v @ y \<longleftrightarrow> u < v \<or> u = v \<and> x < y"
  for u v x y :: "'a::linorder list"
  by (induction u v rule: list_induct2) auto

lemma length_pad_decimal [simp]: "length (pad_decimal w n) = w"
  by (induction w arbitrary: n) simp_all

lemma digit_char_less: "digit_char a < digit_char b \<longleftrightarrow> a mod 10 < b mod 10"
  by (auto simp: less_char_def digit_char_def of_char_of)

lemma digit_char_eq: "digit_char a = digit_char b \<longleftrightarrow> a mod 10 = b mod 10"
  using digit_char_less [of a b] digit_char_less [of b a]
  by (metis digit_char_def linorder_neqE order.irrefl)

lemma less_by_digits:
  fixes a b k :: int
  assumes "0 < k"
  shows "a < b \<longleftrightarrow> a div k < b div k \<or> a div k = b div k \<and> a mod k < b mod k"
proof (cases "a div k" "b div k" rule: linorder_cases)
  case less
  then have "\<not> b \<le> a" using zdiv_mono1 [of b a k] assms by linarith
  with less show ?thesis by simp
next
  case equal
  have "a = k * (b div k) + a mod k" "b = k * (b div k) + b mod k"
    using equal by (metis mult_div_mod_eq)+
  with equal show ?thesis by linarith
next
  case greater
  then have "\<not> a < b" using zdiv_mono1 [of a b k] assms by linarith
  with greater show ?thesis by simp
qed

lemma pad_decimal_less:
  "0 \<le> a \<Longrightarrow> a < 10 ^ w \<Longrightarrow> 0 \<le> b \<Longrightarrow> b < 10 ^ w \<Longrightarrow>
   (pad_decimal w a < pad_decimal w b \<longleftrightarrow> a < b) \<and> (pad_decimal w a = pad_decimal w b \<longleftrightarrow> a = b)"
proof (induction w arbitrary: a b)
  case (Suc w)
  then have IH: "(pad_decimal w (a div 10) < pad_decimal w (b div 10) \<longleftrightarrow> a div 10 < b div 10) \<and>
      (pad_decimal w (a div 10) = pad_decimal w (b div 10) \<longleftrightarrow> a div 10 = b div 10)"
    by (intro Suc.IH) auto
  have n: "a < b \<longleftrightarrow> a div 10 < b div 10 \<or> a div 10 = b div 10 \<and> a mod 10 < b mod 10"
    "a = b \<longleftrightarrow> a div 10 = b div 10 \<and> a mod 10 = b mod 10"
    using less_by_digits [of 10 a b] by (simp, metis div_mult_mod_eq)
  have t: "pad_decimal (Suc w) a < pad_decimal (Suc w) b \<longleftrightarrow>
      pad_decimal w (a div 10) < pad_decimal w (b div 10) \<or>
      pad_decimal w (a div 10) = pad_decimal w (b div 10) \<and> a mod 10 < b mod 10"
    "pad_decimal (Suc w) a = pad_decimal (Suc w) b \<longleftrightarrow>
      pad_decimal w (a div 10) = pad_decimal w (b div 10) \<and> a mod 10 = b mod 10"
    by (simp_all add: append_less digit_char_less digit_char_eq)
  show ?case using IH unfolding n t by blast
qed auto

lemma pad_field_less:
  assumes "0 \<le> a" "a < 10 ^ w" "0 \<le> b" "b < 10 ^ w"
  shows "pad_decimal w a @ x < pad_decimal w b @ y \<longleftrightarrow> a < b \<or> a = b \<and> x < y"
  using pad_decimal_less [OF assms] by (simp add: append_less)

text \<open>The fraction of a second is left out when it is zero; \<open>+\<close> sorts before \<open>.\<close>.\<close>

definition fraction_text :: "int \<Rightarrow> string" where
  "fraction_text us = (if us = 0 then [] else ''.'' @ pad_decimal 6 us)"

lemma fraction_less:
  assumes "0 \<le> us" "us < us_per_second" "0 \<le> vs" "vs < us_per_second"
  shows "fraction_text us @ ''+00:00'' < fraction_text vs @ ''+00:00'' \<longleftrightarrow> us < vs"
  using assms
  by (auto simp: fraction_text_def us_per_second_def pad_field_less less_char_def)

text \<open>The text of the seven fields of a UTC time, and its order.\<close>

fun fields_text :: "int \<times> int \<times> int \<Rightarrow> int \<times> int \<times> int \<Rightarrow> int \<Rightarrow> string" where
  "fields_text (y, m, dd) (h, mi, s) us =
     pad_decimal 4 y @ CHR ''-'' # pad_decimal 2 m @ CHR ''-'' # pad_decimal 2 dd @
     CHR ''T'' # pad_decimal 2 h @ CHR '':'' # pad_decimal 2 mi @
     CHR '':'' # pad_decimal 2 s @ fraction_text us @ ''+00:00''"

definition date_field_ok :: "int \<times> int \<times> int \<Rightarrow> bool" where
  "date_field_ok d \<longleftrightarrow>
     (case d of (y, m, dd) \<Rightarrow>
        0 \<le> y \<and> y < 10000 \<and> 0 \<le> m \<and> m < 100 \<and> 0 \<le> dd \<and> dd < 100)"

definition time_field_ok :: "int \<times> int \<times> int \<Rightarrow> bool" where
  "time_field_ok d \<longleftrightarrow>
     (case d of (h, mi, s) \<Rightarrow>
        0 \<le> h \<and> h < 100 \<and> 0 \<le> mi \<and> mi < 100 \<and> 0 \<le> s \<and> s < 100)"

lemma fields_text_less:
  assumes "date_field_ok d" "date_field_ok d'" "time_field_ok t" "time_field_ok t'"
    and "0 \<le> us" "us < us_per_second" "0 \<le> us'" "us' < us_per_second"
  shows "fields_text d t us < fields_text d' t' us' \<longleftrightarrow>
    date_less d d' \<or> d = d' \<and> (date_less t t' \<or> t = t' \<and> us < us')"
  using assms
  by (cases d; cases d'; cases t; cases t')
    (simp add: date_field_ok_def time_field_ok_def pad_field_less fraction_less date_less_def; blast)

definition clock_fields :: "int \<Rightarrow> int \<times> int \<times> int" where
  "clock_fields s = (s div 3600, s div 60 mod 60, s mod 60)"

lemma isoformat_fields:
  "isoformat (DateTime w (Some 0)) =
    fields_text (civil_of_days (w div us_per_day))
      (clock_fields (w mod us_per_day div us_per_second)) (w mod us_per_day mod us_per_second)"
proof -
  have "offset_text (Some 0) = ''+00:00''" by code_simp
  then show ?thesis
    by (simp add: isoformat.simps fraction_text_def Let_def clock_fields_def split: prod.split)
qed

lemma seconds_fields_less:
  fixes s s' :: int
  assumes "s < s'"
  shows "date_less (clock_fields s) (clock_fields s')"
proof -
  have "s div 3600 = s div 60 div 60" for s :: int by (simp add: zdiv_zmult2_eq [symmetric])
  note h = this
  have "0 < (60 :: int)" by simp
  note less_by_digits [OF this, of s s'] less_by_digits [OF this, of "s div 60" "s' div 60"]
  with assms show ?thesis unfolding date_less_def clock_fields_def prod.case h by metis
qed

definition in_calendar :: "datetime \<Rightarrow> bool" where
  "in_calendar d \<longleftrightarrow> offset_us d = Some 0 \<and> 0 \<le> wall_us d \<and> wall_us d < calendar_end * us_per_day"

lemma in_calendar_fields:
  assumes "in_calendar d"
  shows "isoformat d = fields_text (civil_of_days (wall_us d div us_per_day))
      (clock_fields (wall_us d mod us_per_day div us_per_second))
      (wall_us d mod us_per_day mod us_per_second)"
    and "date_field_ok (civil_of_days (wall_us d div us_per_day))"
    and "time_field_ok (clock_fields (wall_us d mod us_per_day div us_per_second))"
    and "0 \<le> wall_us d mod us_per_day mod us_per_second"
    and "wall_us d mod us_per_day mod us_per_second < us_per_second"
proof -
  show "isoformat d = fields_text (civil_of_days (wall_us d div us_per_day))
      (clock_fields (wall_us d mod us_per_day div us_per_second))
      (wall_us d mod us_per_day mod us_per_second)"
    using assms by (cases d) (simp add: in_calendar_def isoformat_fields)
  have "0 \<le> wall_us d div us_per_day" "wall_us d div us_per_day < calendar_end"
    using assms by (auto simp: in_calendar_def us_per_day_def div_less_iff_less_mult)
  then show "date_field_ok (civil_of_days (wall_us d div us_per_day))"
    using civil_year_bounds by (fastforce simp: date_field_ok_def)
  define t where "t = wall_us d mod us_per_day"
  have "0 \<le> t" "t < us_per_day" by (simp_all add: t_def us_per_day_def)
  then have "0 \<le> t div us_per_second div 3600" "t div us_per_second div 3600 < 100"
    by (auto simp: us_per_day_def us_per_second_def)
  moreover have "0 \<le> x mod 60" "x mod 60 < 100" for x :: int
    using pos_mod_bound [of 60 x] by auto
  ultimately show "time_field_ok (clock_fields (wall_us d mod us_per_day div us_per_second))"
    unfolding t_def [symmetric] by (simp add: time_field_ok_def clock_fields_def)
qed (simp_all add: us_per_second_def)

lemma isoformat_less:
  assumes "in_calendar d" "in_calendar e" "wall_us d < wall_us e"
  shows "isoformat d < isoformat e"
proof -
  have k: "0 < us_per_day" "0 < us_per_second" by (simp_all add: us_per_day_def us_per_second_def)
  note f = in_calendar_fields [OF assms(1)] and g = in_calendar_fields [OF assms(2)]
  show ?thesis
    unfolding f(1) g(1) fields_text_less [OF f(2) g(2) f(3) g(3) f(4,5) g(4,5)]
    using assms(3) less_by_digits [OF k(1), of "wall_us d" "wall_us e"]
      less_by_digits [OF k(2), of "wall_us d mod us_per_day" "wall_us e mod us_per_day"]
      civil_of_days_less seconds_fields_less by metis
qed

end
