(* ===== verification/Authorization_Store.thy ===== *)
theory Authorization_Store
  imports Authorization_File Timestamps "HOL-Library.AList"
begin

text \<open>
  \<open>AuthorizationStore\<close> and \<open>install_authorization_candidate\<close> of \<open>authorization.py\<close>, over
  a file system whose every call may fail. The store's lock is not modelled: each of its
  methods is one step.
\<close>

section \<open>The file system\<close>

text \<open>
  A path is its directory and its name. The schedule \<open>fs_faults\<close> lists the outcome of the
  coming operating-system calls: \<open>Some e\<close> for a call that raises \<open>e\<close> without effect. A
  schedule that is used up stands for calls that succeed.
\<close>

type_synonym path = "string \<times> string"

record stored_file =
  fl_reading :: reading
  fl_mtime_ns :: int
  fl_size :: nat

record file_system =
  fs_files :: "(path \<times> stored_file) list"
  fs_faults :: "exn option list"

definition os_call :: "(file_system, unit) prog" where
  "os_call fs =
     (let fs' = fs\<lparr>fs_faults := tl (fs_faults fs)\<rparr>
      in case fs_faults fs of Some e # _ \<Rightarrow> (Inl e, fs') | _ \<Rightarrow> (Inr (), fs'))"

definition lookup_file :: "path \<Rightarrow> file_system \<Rightarrow> stored_file option" where
  "lookup_file p fs = map_of (fs_files fs) p"

definition put_file :: "path \<Rightarrow> stored_file \<Rightarrow> file_system \<Rightarrow> file_system" where
  "put_file p f fs = fs\<lparr>fs_files := AList.update p f (fs_files fs)\<rparr>"

definition drop_file :: "path \<Rightarrow> file_system \<Rightarrow> file_system" where
  "drop_file p fs = fs\<lparr>fs_files := AList.delete p (fs_files fs)\<rparr>"

definition no_such_file :: exn where
  "no_such_file = OSError ''No such file or directory''"

text \<open>A call about an existing file.\<close>

definition open_file :: "path \<Rightarrow> (file_system, stored_file) prog" where
  "open_file p =
     sq os_call (with_self (\<lambda>fs. case lookup_file p fs of None \<Rightarrow> throw no_such_file | Some f \<Rightarrow> ret f))"

text \<open>\<open>AuthorizationFile.load(path)\<close>: an \<open>OSError\<close> becomes an \<open>AuthorizationError\<close>.\<close>

definition exn_text :: "exn \<Rightarrow> string" where
  "exn_text e = (case e of OSError m \<Rightarrow> m | ReaderDisconnectedError m \<Rightarrow> m | _ \<Rightarrow> [])"

definition load_path :: "validator \<Rightarrow> path \<Rightarrow> (file_system, authorization_records) prog" where
  "load_path validate p =
     bnd (try_except is_os_error (bnd (open_file p) (\<lambda>f. ret (fl_reading f)))
            (\<lambda>e. ret (CannotRead (exn_text e))))
         (\<lambda>r. case load validate r of Inl e \<Rightarrow> throw e | Inr records \<Rightarrow> ret records)"

section \<open>AuthorizationStore\<close>

record authorization_store =
  st_records :: authorization_records
  st_version :: "string option"
  st_modified_at :: "datetime option"

record authorization_snapshot =
  as_loaded :: bool
  as_record_count :: nat
  as_source_revision :: "string option"
  as_source_modified_at :: "datetime option"

definition new_store :: authorization_store where
  "new_store = \<lparr>st_records = [], st_version = None, st_modified_at = None\<rparr>"

text \<open>
  \<open>datetime.fromtimestamp(st_mtime, UTC)\<close>: microseconds from 1970-01-01, half to even. A
  time outside the years 1 to 9999 raises.
\<close>

definition of_timestamp_ns :: "int \<Rightarrow> exn + datetime" where
  "of_timestamp_ns ns =
     (let us = 719162 * us_per_day + round_half_even (of_int ns / 1000)
      in if 0 \<le> us \<and> us < calendar_end * us_per_day then Inr (DateTime us (Some 0))
         else Inl (ValueError ''year is out of range''))"

text \<open>\<open>f"{st_mtime_ns}:{st_size}"\<close>.\<close>

definition source_version :: "stored_file \<Rightarrow> string" where
  "source_version f =
     (if fl_mtime_ns f < 0 then ''-'' @ decimal (nat (- fl_mtime_ns f))
      else decimal (nat (fl_mtime_ns f))) @ '':'' @ decimal (fl_size f)"

definition record_count :: "authorization_store \<Rightarrow> nat" where
  "record_count s = length (st_records s)"

text \<open>
  The records and the version are assigned before the modification time is converted: a time
  that cannot be converted raises with both already replaced.
\<close>

definition reload ::
  "validator \<Rightarrow> path \<Rightarrow> (authorization_store \<times> file_system, unit) prog" where
  "reload validate p =
     bnd (zoom snd apsnd (load_path validate p)) (\<lambda>candidate.
     bnd (zoom snd apsnd (open_file p)) (\<lambda>metadata.
       zoom fst apfst
         (sq (modify (\<lambda>s. s\<lparr>st_records := candidate, st_version := Some (source_version metadata)\<rparr>))
             (bnd (raise_or_return (of_timestamp_ns (fl_mtime_ns metadata))) (\<lambda>t.
                modify (st_modified_at_update (\<lambda>_. Some t)))))))"

definition store_snapshot :: "authorization_store \<Rightarrow> authorization_snapshot" where
  "store_snapshot s =
     \<lparr>as_loaded = (st_version s \<noteq> None), as_record_count = length (st_records s),
      as_source_revision = st_version s, as_source_modified_at = st_modified_at s\<rparr>"

definition classify :: "string \<Rightarrow> authorization_store \<Rightarrow> authorization_outcome" where
  "classify cred s =
     (case map_of (st_records s) (normalize_key cred) of
        None \<Rightarrow> UNKNOWN
      | Some r \<Rightarrow> if au_allow r then AUTHORIZED else DENIED)"

section \<open>install_authorization_candidate\<close>

text \<open>
  The optional callbacks: the failure injector, called with the stage about to begin, and the
  failure listener. \<open>temporary_name\<close> stands for the random part of the name that
  \<open>NamedTemporaryFile\<close> chooses.
\<close>

record install_hooks =
  ih_inject :: "(string \<Rightarrow> (file_system, unit) prog) option"
  ih_on_failure :: "(string \<Rightarrow> (file_system, unit) prog) option"

definition inject :: "install_hooks \<Rightarrow> string \<Rightarrow> (file_system, unit) prog" where
  "inject H stage = (case ih_inject H of None \<Rightarrow> skip | Some f \<Rightarrow> f stage)"

definition report_failure :: "install_hooks \<Rightarrow> string \<Rightarrow> (file_system, unit) prog" where
  "report_failure H stage = (case ih_on_failure H of None \<Rightarrow> skip | Some f \<Rightarrow> f stage)"

definition temporary_prefix :: "path \<Rightarrow> string" where
  "temporary_prefix destination = ''.'' @ snd destination @ ''.''"

text \<open>The names in the directory that match the pattern of temporary files.\<close>

definition abandoned_files :: "path \<Rightarrow> file_system \<Rightarrow> path list" where
  "abandoned_files destination fs =
     filter (\<lambda>p. fst p = fst destination \<and> begins_with (temporary_prefix destination) (snd p))
       (map fst (fs_files fs))"

definition unlink :: "path \<Rightarrow> (file_system, unit) prog" where
  "unlink p =
     sq os_call
        (with_self (\<lambda>fs. if lookup_file p fs = None then throw no_such_file else modify (drop_file p)))"

text \<open>\<open>temporary_path.unlink(missing_ok=True)\<close>.\<close>

definition unlink_missing_ok :: "path \<Rightarrow> (file_system, unit) prog" where
  "unlink_missing_ok p = sq os_call (modify (drop_file p))"

definition remove_abandoned :: "install_hooks \<Rightarrow> path \<Rightarrow> (file_system, unit) prog" where
  "remove_abandoned H destination =
     with_self (\<lambda>fs.
       for_each (abandoned_files destination fs)
         (\<lambda>p. try_except is_os_error (unlink p) (\<lambda>_. report_failure H ''abandoned_cleanup'')))"

text \<open>\<open>os.replace\<close>: the destination becomes the temporary file in one step.\<close>

definition replace_file :: "path \<Rightarrow> path \<Rightarrow> (file_system, unit) prog" where
  "replace_file src dst =
     sq os_call
        (with_self (\<lambda>fs.
           case lookup_file src fs of
             None \<Rightarrow> throw no_such_file
           | Some f \<Rightarrow> modify (\<lambda>fs. drop_file src (put_file dst f fs))))"

text \<open>
  The body of the \<open>try\<close>, as the stages it goes through. The state carries, beside the file
  system, the current \<open>stage\<close> and \<open>temporary_path\<close>, which the handlers read.
\<close>

record install_state =
  in_fs :: file_system
  in_stage :: string
  in_temporary :: "path option"

definition on_fs :: "(file_system, 'a) prog \<Rightarrow> (install_state, 'a) prog" where
  "on_fs m = zoom in_fs in_fs_update m"

definition enter_stage :: "install_hooks \<Rightarrow> string \<Rightarrow> (install_state, unit) prog" where
  "enter_stage H stage = sq (modify (in_stage_update (\<lambda>_. stage))) (on_fs (inject H stage))"

definition install_body ::
  "install_hooks \<Rightarrow> validator \<Rightarrow> int \<Rightarrow> string \<Rightarrow> path \<Rightarrow> path \<Rightarrow> (install_state, unit) prog" where
  "install_body H validate now_ns random candidate destination =
     (let temporary = (fst destination, temporary_prefix destination @ random)
      in sq (enter_stage H ''candidate_validation'')
        (bnd (on_fs (load_path validate candidate)) (\<lambda>_.
         sq (on_fs os_call)
        (sq (on_fs (remove_abandoned H destination))
        (sq (enter_stage H ''temporary_creation'')
        (bnd (on_fs (open_file candidate)) (\<lambda>source.
         sq (on_fs os_call)
        (sq (modify (\<lambda>s. s\<lparr>in_fs := put_file temporary
               \<lparr>fl_reading = Contents [], fl_mtime_ns = now_ns, fl_size = 0\<rparr> (in_fs s)\<rparr>))
        (sq (modify (in_temporary_update (\<lambda>_. Some temporary)))
        (sq (enter_stage H ''candidate_copy'')
        (sq (on_fs os_call)
        (sq (enter_stage H ''temporary_flush'')
        (sq (on_fs os_call)
        (sq (modify (\<lambda>s. s\<lparr>in_fs := put_file temporary
               \<lparr>fl_reading = fl_reading source, fl_mtime_ns = now_ns, fl_size = fl_size source\<rparr>
               (in_fs s)\<rparr>))
        (sq (enter_stage H ''temporary_fsync'')
        (sq (on_fs os_call)
        (sq (enter_stage H ''temporary_validation'')
        (bnd (on_fs (load_path validate temporary)) (\<lambda>_.
         sq (enter_stage H ''atomic_replace'')
        (sq (on_fs (replace_file temporary destination))
            (modify (in_temporary_update (\<lambda>_. None)))))))))))))))))))))))"

text \<open>The \<open>finally\<close> clause.\<close>

definition install_cleanup :: "install_hooks \<Rightarrow> (install_state, unit) prog" where
  "install_cleanup H =
     with_self (\<lambda>s.
       case in_temporary s of
         None \<Rightarrow> skip
       | Some p \<Rightarrow>
           try_except is_os_error
             (sq (on_fs (inject H ''temporary_cleanup'')) (on_fs (unlink_missing_ok p)))
             (\<lambda>_. on_fs (report_failure H ''temporary_cleanup'')))"

definition install_candidate ::
  "install_hooks \<Rightarrow> validator \<Rightarrow> int \<Rightarrow> string \<Rightarrow> path \<Rightarrow> path \<Rightarrow> (install_state, unit) prog" where
  "install_candidate H validate now_ns random candidate destination =
     try_finally
       (try_except is_exception
          (install_body H validate now_ns random candidate destination)
          (\<lambda>e. with_self (\<lambda>s. sq (on_fs (report_failure H (in_stage s))) (throw e))))
       (install_cleanup H)"

definition install_authorization_candidate ::
  "install_hooks \<Rightarrow> validator \<Rightarrow> int \<Rightarrow> string \<Rightarrow> path \<Rightarrow> path \<Rightarrow> (file_system, unit) prog" where
  "install_authorization_candidate H validate now_ns random candidate destination fs =
     (case install_candidate H validate now_ns random candidate destination
             \<lparr>in_fs = fs, in_stage = ''candidate_validation'', in_temporary = None\<rparr> of
        (r, s) \<Rightarrow> (r, in_fs s))"

section \<open>Classification\<close>

lemma map_of_entries:
  "map_of (map entry_of rows) k = map_option (snd \<circ> entry_of) (find (\<lambda>r. row_key r = k) rows)"
  by (induction rows) (auto simp: entry_of_def)

lemma find_distinct_key:
  "distinct (map row_key rows) \<Longrightarrow> r \<in> set rows \<Longrightarrow> find (\<lambda>x. row_key x = row_key r) rows = Some r"
  by (induction rows) (auto simp: image_iff)

lemma classify_entries:
  assumes "distinct (map row_key rows)" and "st_records s = map entry_of rows"
  shows "classify cred s =
    (case find (\<lambda>r. row_key r = normalize_key cred) rows of
       None \<Rightarrow> UNKNOWN | Some r \<Rightarrow> if row_allows r then AUTHORIZED else DENIED)"
  by (simp add: classify_def assms(2) map_of_entries entry_of_def split: option.split)

lemma classify_rows:
  assumes "distinct (map row_key rows)" and "st_records s = map entry_of rows"
  shows "classify cred s = AUTHORIZED \<longleftrightarrow>
      (\<exists>r\<in>set rows. row_key r = normalize_key cred \<and> row_allows r)"
    and "classify cred s = DENIED \<longleftrightarrow>
      (\<exists>r\<in>set rows. row_key r = normalize_key cred \<and> \<not> row_allows r)"
    and "classify cred s = UNKNOWN \<longleftrightarrow> normalize_key cred \<notin> row_key ` set rows"
proof -
  have "(classify cred s = AUTHORIZED \<longleftrightarrow>
        (\<exists>r\<in>set rows. row_key r = normalize_key cred \<and> row_allows r)) \<and>
      (classify cred s = DENIED \<longleftrightarrow>
        (\<exists>r\<in>set rows. row_key r = normalize_key cred \<and> \<not> row_allows r)) \<and>
      (classify cred s = UNKNOWN \<longleftrightarrow> normalize_key cred \<notin> row_key ` set rows)"
  proof (cases "\<exists>r\<in>set rows. row_key r = normalize_key cred")
    case True
    then obtain r where r: "r \<in> set rows" "row_key r = normalize_key cred" by blast
    have unique: "x = r" if "x \<in> set rows" "row_key x = normalize_key cred" for x
      using assms(1) that r unfolding distinct_map by (metis inj_onD)
    have "find (\<lambda>x. row_key x = normalize_key cred) rows = Some r"
      using find_distinct_key [OF assms(1) r(1)] unfolding r(2) .
    then have "classify cred s = (if row_allows r then AUTHORIZED else DENIED)"
      unfolding classify_entries [OF assms] by simp
    moreover have "normalize_key cred \<in> row_key ` set rows" using r by (metis imageI)
    moreover have "(\<exists>x\<in>set rows. row_key x = normalize_key cred \<and> Q x) \<longleftrightarrow> Q r" for Q
      using r unique by blast
    ultimately show ?thesis by simp
  next
    case False
    then have "find (\<lambda>r. row_key r = normalize_key cred) rows = None"
      by (auto simp: find_None_iff)
    then have "classify cred s = UNKNOWN" by (simp add: classify_entries [OF assms])
    then show ?thesis using False by auto
  qed
  then show "classify cred s = AUTHORIZED \<longleftrightarrow>
      (\<exists>r\<in>set rows. row_key r = normalize_key cred \<and> row_allows r)"
    "classify cred s = DENIED \<longleftrightarrow>
      (\<exists>r\<in>set rows. row_key r = normalize_key cred \<and> \<not> row_allows r)"
    "classify cred s = UNKNOWN \<longleftrightarrow> normalize_key cred \<notin> row_key ` set rows"
    by blast+
qed

text \<open>
  C19. Under the records of an accepted file a credential is authorized exactly when some row
  of the file has its key, compared without hyphens and case, and the answer \<open>Y\<close>; it is denied
  exactly when such a row has another answer, and unknown when no row has its key.
\<close>

theorem classification_follows_file:
  assumes "row_validator validate" and "load validate (Contents text) = Inr (st_records s)"
  shows "\<exists>rows. parsed_rows text = Some rows \<and>
    (classify cred s = AUTHORIZED \<longleftrightarrow>
       (\<exists>r\<in>set rows. row_key r = normalize_key cred \<and> row_allows r)) \<and>
    (classify cred s = DENIED \<longleftrightarrow>
       (\<exists>r\<in>set rows. row_key r = normalize_key cred \<and> \<not> row_allows r)) \<and>
    (classify cred s = UNKNOWN \<longleftrightarrow> normalize_key cred \<notin> row_key ` set rows)"
proof -
  obtain rows where rows: "parsed_rows text = Some rows" "distinct (map row_key rows)"
    "st_records s = map entry_of rows"
    using row_validator.load_Inr [OF assms(1)] assms(2) by auto
  show ?thesis using rows(1) classify_rows [OF rows(2,3)] by blast
qed

definition sample_text :: string where
  "sample_text = ''KEY,NAME,ALLOW'' @ [CHR 0x0A] @ ''01-02-03-04-05,A,Y'' @ [CHR 0x0A]"

definition sample_store :: authorization_store where
  "sample_store =
     \<lparr>st_records = [(''0102030405'', \<lparr>au_key = ''0102030405'', au_name = ''A'', au_allow = True\<rparr>)],
      st_version = None, st_modified_at = None\<rparr>"

lemma classification_follows_file_witness:
  "\<exists>rows. parsed_rows sample_text = Some rows \<and>
    (classify ''0102030405'' sample_store = AUTHORIZED \<longleftrightarrow>
       (\<exists>r\<in>set rows. row_key r = normalize_key ''0102030405'' \<and> row_allows r)) \<and>
    (classify ''0102030405'' sample_store = DENIED \<longleftrightarrow>
       (\<exists>r\<in>set rows. row_key r = normalize_key ''0102030405'' \<and> \<not> row_allows r)) \<and>
    (classify ''0102030405'' sample_store = UNKNOWN \<longleftrightarrow>
       normalize_key ''0102030405'' \<notin> row_key ` set rows)"
proof (rule classification_follows_file [OF schema.row_validator_axioms])
  show "load schema_validator (Contents sample_text) = Inr (st_records sample_store)"
    by code_simp
qed

section \<open>Reload\<close>

lemma preserves_os_call [preserves_rules]: "preserves fs_files os_call"
  by (rule preservesI) (auto simp: os_call_def Let_def split: list.splits option.splits)

lemma preserves_open_file [preserves_rules]: "preserves fs_files (open_file p)"
  unfolding open_file_def by (intro preserves_rules)

lemma preserves_load_path [preserves_rules]: "preserves fs_files (load_path validate p)"
  unfolding load_path_def by (intro preserves_rules)

lemma open_file_returns:
  "open_file p fs = (Inr f, fs') \<Longrightarrow> lookup_file p fs = Some f \<and> lookup_file p fs' = Some f"
  by (auto simp: open_file_def sq_def bnd_def with_self_def os_call_def Let_def ret_def throw_def
      lookup_file_def split: list.splits option.splits)

text \<open>A path that loads has contents that the validator accepts.\<close>

lemma load_path_returns:
  assumes "load_path validate p fs = (Inr records, fs')"
  shows "\<exists>f. lookup_file p fs = Some f \<and> load validate (fl_reading f) = Inr records"
proof -
  obtain x fs1 where o: "open_file p fs = (x, fs1)" by force
  show ?thesis
  proof (cases x)
    case (Inl e)
    then show ?thesis
      using assms o
      by (auto simp: load_path_def bnd_def try_except_def ret_def load_def throw_def
          split: if_splits)
  next
    case (Inr f)
    then show ?thesis
      using assms o open_file_returns [of p fs f fs1]
      by (auto simp: load_path_def bnd_def try_except_def ret_def throw_def split: sum.splits)
  qed
qed

text \<open>The assignments of a reload, once the file has been read and its metadata taken.\<close>

lemma reload_assignments:
  "\<exists>s' r. zoom fst apfst
     (sq (modify (\<lambda>s. s\<lparr>st_records := records, st_version := Some v\<rparr>))
         (bnd (raise_or_return x) (\<lambda>t. modify (st_modified_at_update (\<lambda>_. Some t))))) (s, fs) =
     (r, (s', fs)) \<and> st_records s' = records \<and> st_version s' = Some v \<and>
     (case x of Inl e \<Rightarrow> r = Inl e \<and> st_modified_at s' = st_modified_at s
              | Inr t \<Rightarrow> r = Inr () \<and> st_modified_at s' = Some t)"
  by (cases x) (simp_all add: zoom_def sq_def bnd_def modify_def raise_or_return_def throw_def ret_def)

text \<open>
  C18. A reload replaces the authorizations as a whole or not at all, and changes no file.
  Either it raises and the store is what it was; or the records and the version are those of a
  valid file at that path, and then it returns, with that file's modification time, unless that
  time is outside the calendar: in this case it raises after the records have been replaced, and
  the old modification time stays.
\<close>

theorem reload_all_or_nothing:
  "case reload validate p (s, fs) of (r, (s', fs')) \<Rightarrow>
     fs_files fs' = fs_files fs \<and>
     (s' = s \<and> (\<exists>e. r = Inl e) \<or>
      (\<exists>f. lookup_file p fs = Some f \<and> load validate (fl_reading f) = Inr (st_records s') \<and>
         st_version s' = Some (source_version f) \<and>
         (case of_timestamp_ns (fl_mtime_ns f) of
            Inl e \<Rightarrow> r = Inl e \<and> st_modified_at s' = st_modified_at s
          | Inr t \<Rightarrow> r = Inr () \<and> st_modified_at s' = Some t)))"
proof (cases "load_path validate p fs")
  case (Pair x fs1)
  have f1: "fs_files fs1 = fs_files fs" using preservesD [OF preserves_load_path Pair] .
  show ?thesis
  proof (cases x)
    case (Inl e)
    then show ?thesis using Pair f1 by (simp add: reload_def bnd_def zoom_def)
  next
    case (Inr records)
    then obtain f where f: "lookup_file p fs = Some f" "load validate (fl_reading f) = Inr records"
      using load_path_returns Pair by blast
    obtain y fs2 where o: "open_file p fs1 = (y, fs2)" by force
    have f2: "fs_files fs2 = fs_files fs" using preservesD [OF preserves_open_file o] f1 by simp
    show ?thesis
    proof (cases y)
      case (Inl e)
      then show ?thesis using Pair Inr o f2 by (simp add: reload_def bnd_def zoom_def)
    next
      case (Inr g)
      have g: "g = f"
        using open_file_returns [of p fs1 g fs2] o f f1 Inr by (simp add: lookup_file_def)
      obtain s' r where a: "reload validate p (s, fs) = (r, (s', fs2))" "st_records s' = records"
        "st_version s' = Some (source_version f)"
        "case of_timestamp_ns (fl_mtime_ns f) of
           Inl e \<Rightarrow> r = Inl e \<and> st_modified_at s' = st_modified_at s
         | Inr t \<Rightarrow> r = Inr () \<and> st_modified_at s' = Some t"
        using reload_assignments [of "source_version f" records "of_timestamp_ns (fl_mtime_ns f)" s fs2]
          Pair \<open>x = Inr records\<close> Inr o g
        by (auto simp: reload_def bnd_def [of "zoom snd apsnd m" for m] zoom_def [of snd])
      then show ?thesis using f f2 by auto
    qed
  qed
qed

lemma le_round_half_even: "of_int n \<le> x \<Longrightarrow> n \<le> round_half_even x"
  using le_floor_iff [of n x] by (auto simp: round_half_even_def Let_def)

text \<open>
  The documentation says that a reload that fails keeps the last valid set. A valid file dated
  past the year 9999 is loaded, and yet the reload raises.
\<close>

lemma far_future_reload_raises:
  assumes "load validate (fl_reading f) = Inr records" and "lookup_file p fs = Some f"
    and "fs_faults fs = []" and "253402300800 * 10 ^ 9 \<le> fl_mtime_ns f"
  shows "\<exists>s' fs'. reload validate p (s, fs) = (Inl (ValueError ''year is out of range''), (s', fs')) \<and>
    st_records s' = records \<and> st_version s' = Some (source_version f) \<and>
    st_modified_at s' = st_modified_at s"
proof -
  have "rat_of_int (253402300800 * 10 ^ 9) \<le> of_int (fl_mtime_ns f)"
    using assms(4) by (simp only: of_int_le_iff)
  then have "253402300800 * 10 ^ 6 \<le> round_half_even (of_int (fl_mtime_ns f) / 1000)"
    by (intro le_round_half_even) simp
  then have t: "of_timestamp_ns (fl_mtime_ns f) = Inl (ValueError ''year is out of range'')"
    by (simp add: of_timestamp_ns_def Let_def calendar_end_def us_per_day_def us_per_second_def)
  have o: "open_file p fs = (Inr f, fs)"
    using assms(2,3) by (simp add: open_file_def prog_simps os_call_def lookup_file_def)
  then have "load_path validate p fs = (Inr records, fs)"
    using assms(1) by (simp add: load_path_def prog_simps)
  with o t show ?thesis
    by (simp add: reload_def prog_simps raise_or_return_def)
qed

section \<open>Installation\<close>

text \<open>The callbacks do not touch the files themselves.\<close>

definition hooks_keep_files :: "install_hooks \<Rightarrow> bool" where
  "hooks_keep_files H \<longleftrightarrow>
     (\<forall>stage. preserves fs_files (inject H stage) \<and> preserves fs_files (report_failure H stage))"

definition file_map :: "file_system \<Rightarrow> path \<Rightarrow> stored_file option" where
  "file_map fs = map_of (fs_files fs)"

lemma file_map_put: "file_map (put_file p f fs) = (file_map fs)(p \<mapsto> f)"
  by (simp add: file_map_def put_file_def update_conv')

lemma file_map_drop: "file_map (drop_file p fs) = (file_map fs)(p := None)"
  by (simp add: file_map_def drop_file_def delete_conv')

lemma lookup_file_map: "lookup_file p fs = file_map fs p"
  by (simp add: lookup_file_def file_map_def)

lemma preserves_file_map: "preserves fs_files m \<Longrightarrow> preserves file_map m"
  by (simp add: preserves_def file_map_def)

text \<open>What the installation may look at: the files and the temporary path.\<close>

definition installing ::
  "((path \<Rightarrow> stored_file option) \<Rightarrow> path option \<Rightarrow> bool) \<Rightarrow> install_state \<Rightarrow> bool" where
  "installing V s \<longleftrightarrow> V (file_map (in_fs s)) (in_temporary s)"

lemma installing_mono: "installing V s \<Longrightarrow> (\<And>f t. V f t \<Longrightarrow> U f t) \<Longrightarrow> installing U s"
  by (simp add: installing_def)

lemma keeps_on_fs:
  assumes "preserves fs_files m"
  shows "keeps (installing V) (on_fs m)"
  using preservesD [OF preserves_file_map [OF assms]]
  by (intro keepsI) (auto simp: installing_def on_fs_def zoom_def split: prod.splits)

text \<open>What is learnt from a call that leaves the files alone.\<close>

lemma triple_on_fs_learns:
  assumes "preserves fs_files m" and "\<And>f t. V f t \<Longrightarrow> E f t"
    and W: "\<And>fs x fs' t. V (file_map fs) t \<Longrightarrow> m fs = (Inr x, fs') \<Longrightarrow> W x (file_map fs) t"
  shows "triple (installing V) (on_fs m) (\<lambda>x. installing (W x)) (\<lambda>_. installing E)"
  using preservesD [OF preserves_file_map [OF assms(1)]]
  by (intro tripleI)
    (auto simp: installing_def on_fs_def zoom_def split: prod.splits intro: assms(2) W)

lemma quiet_on_fs:
  assumes "preserves fs_files m" and "\<And>f t. V f t \<Longrightarrow> E f t"
  shows "triple (installing V) (on_fs m) (\<lambda>_. installing V) (\<lambda>_. installing E)"
  by (rule triple_on_fs_learns [OF assms])

lemma quiet_enter_stage:
  assumes "hooks_keep_files H" and "\<And>f t. V f t \<Longrightarrow> E f t"
  shows "triple (installing V) (enter_stage H stage) (\<lambda>_. installing V) (\<lambda>_. installing E)"
  unfolding enter_stage_def
  by (rule triple_sq [OF triple_modify quiet_on_fs [OF _ assms(2)]])
    (use assms in \<open>auto simp: installing_def hooks_keep_files_def\<close>)

lemma begins_with_append [simp]: "begins_with p (p @ s)"
  by (induction p) auto

lemma begins_with_longer: "begins_with p s \<Longrightarrow> length p \<le> length s"
  by (induction p s rule: begins_with.induct) auto

lemma destination_not_temporary:
  "\<not> begins_with (temporary_prefix destination) (snd destination)"
  using begins_with_longer [of "temporary_prefix destination" "snd destination"]
  by (auto simp: temporary_prefix_def)

text \<open>Removing abandoned files removes only files with the temporary prefix.\<close>

definition only_loses ::
  "path \<Rightarrow> (path \<Rightarrow> stored_file option) \<Rightarrow> (path \<Rightarrow> stored_file option) \<Rightarrow> bool" where
  "only_loses destination f0 f \<longleftrightarrow>
     (\<forall>p. f p = f0 p \<or> f p = None \<and> begins_with (temporary_prefix destination) (snd p))"

lemma only_losesD: "only_loses destination f0 f \<Longrightarrow> f p = Some x \<Longrightarrow> f0 p = Some x"
  unfolding only_loses_def by (drule spec [of _ p]) simp

lemma keeps_unlink:
  assumes "begins_with (temporary_prefix destination) (snd p)"
  shows "keeps (\<lambda>fs. only_loses destination f0 (file_map fs)) (unlink p)"
  unfolding unlink_def
  by (intro keeps_rules preserves_keeps_part [OF preserves_file_map [OF preserves_os_call]])
    (use assms in \<open>auto simp: file_map_drop only_loses_def\<close>)

lemma keeps_for_each_mem:
  "(\<And>x. x \<in> set xs \<Longrightarrow> keeps I (body x)) \<Longrightarrow> keeps I (for_each xs body)"
  by (induction xs) (auto intro: keeps_rules)

lemma keeps_remove_abandoned:
  assumes "hooks_keep_files H"
  shows "keeps (\<lambda>fs. only_loses destination f0 (file_map fs)) (remove_abandoned H destination)"
  unfolding remove_abandoned_def
  by (intro keeps_with_self keeps_for_each_mem keeps_try_except keeps_unlink
      preserves_keeps_part [OF preserves_file_map])
    (use assms in \<open>auto simp: abandoned_files_def hooks_keep_files_def\<close>)

lemma triple_on_fs_keeps:
  assumes "keeps (\<lambda>fs. Q (file_map fs)) m" and "\<And>f t. Q f \<and> T t \<Longrightarrow> E f t"
  shows "triple (installing (\<lambda>f t. Q f \<and> T t)) (on_fs m) (\<lambda>_. installing (\<lambda>f t. Q f \<and> T t))
    (\<lambda>_. installing E)"
proof -
  have "keeps (installing (\<lambda>f t. Q f \<and> T t)) (on_fs m)"
    using keepsD [OF assms(1)]
    by (intro keepsI) (auto simp: installing_def on_fs_def zoom_def split: prod.splits)
  from triple_keeps [OF this] show ?thesis
    by (rule triple_conseq) (auto intro: installing_mono assms(2))
qed

text \<open>The temporary file that an installation uses.\<close>

definition temporary_of :: "string \<Rightarrow> path \<Rightarrow> path" where
  "temporary_of random destination = (fst destination, temporary_prefix destination @ random)"

text \<open>Files whose name has not the temporary prefix are as before.\<close>

definition others_same ::
  "path \<Rightarrow> path set \<Rightarrow> (path \<Rightarrow> stored_file option) \<Rightarrow> (path \<Rightarrow> stored_file option) \<Rightarrow> bool" where
  "others_same destination except f0 f \<longleftrightarrow>
     (\<forall>p. p \<notin> except \<longrightarrow> \<not> begins_with (temporary_prefix destination) (snd p) \<longrightarrow> f p = f0 p)"

lemma only_loses_others: "only_loses destination f0 f \<Longrightarrow> others_same destination {} f0 f"
  by (auto simp: only_loses_def others_same_def)

lemma temporary_name: "begins_with (temporary_prefix destination) (snd (temporary_of r destination))"
  by (simp add: temporary_of_def)

lemma others_same_temporary:
  assumes "others_same destination X f0 f"
  shows "others_same destination X f0 (f(temporary_of random destination := v))"
  unfolding others_same_def
proof (intro allI impI)
  fix p assume "p \<notin> X" and b: "\<not> begins_with (temporary_prefix destination) (snd p)"
  then have "f p = f0 p" using assms unfolding others_same_def by blast
  moreover have "p \<noteq> temporary_of random destination" using b temporary_name by metis
  ultimately show "(f(temporary_of random destination := v)) p = f0 p" by simp
qed

lemma others_same_destination:
  "others_same destination {} f0 f \<Longrightarrow> others_same destination {destination} f0 (f(destination := v))"
  unfolding others_same_def by simp

definition safe_files ::
  "string \<Rightarrow> path \<Rightarrow> (path \<Rightarrow> stored_file option) \<Rightarrow> (path \<Rightarrow> stored_file option) \<Rightarrow>
   path option \<Rightarrow> bool" where
  "safe_files random destination f0 f t \<longleftrightarrow>
     others_same destination {} f0 f \<and> t \<in> {None, Some (temporary_of random destination)}"

definition installed ::
  "validator \<Rightarrow> path \<Rightarrow> path \<Rightarrow> (path \<Rightarrow> stored_file option) \<Rightarrow> (path \<Rightarrow> stored_file option) \<Rightarrow>
   path option \<Rightarrow> bool" where
  "installed validate candidate destination f0 f t \<longleftrightarrow>
     t = None \<and> others_same destination {destination} f0 f \<and>
     (\<exists>source target records. f0 candidate = Some source \<and> f destination = Some target \<and>
        fl_reading target = fl_reading source \<and> load validate (fl_reading source) = Inr records)"

text \<open>What is known behind the stages: the candidate is read, copied, and the copy valid.\<close>

definition candidate_read ::
  "string \<Rightarrow> path \<Rightarrow> path \<Rightarrow> (path \<Rightarrow> stored_file option) \<Rightarrow> stored_file \<Rightarrow>
   (path \<Rightarrow> stored_file option) \<Rightarrow> path option \<Rightarrow> bool" where
  "candidate_read random candidate destination f0 src f t \<longleftrightarrow>
     safe_files random destination f0 f t \<and> f0 candidate = Some src"

definition candidate_copied ::
  "string \<Rightarrow> path \<Rightarrow> path \<Rightarrow> (path \<Rightarrow> stored_file option) \<Rightarrow> stored_file \<Rightarrow>
   (path \<Rightarrow> stored_file option) \<Rightarrow> path option \<Rightarrow> bool" where
  "candidate_copied random candidate destination f0 src f t \<longleftrightarrow>
     candidate_read random candidate destination f0 src f t \<and>
     (\<exists>g. f (temporary_of random destination) = Some g \<and> fl_reading g = fl_reading src)"

definition candidate_valid ::
  "validator \<Rightarrow> string \<Rightarrow> path \<Rightarrow> path \<Rightarrow> (path \<Rightarrow> stored_file option) \<Rightarrow> stored_file \<Rightarrow>
   (path \<Rightarrow> stored_file option) \<Rightarrow> path option \<Rightarrow> bool" where
  "candidate_valid validate random candidate destination f0 src f t \<longleftrightarrow>
     candidate_copied random candidate destination f0 src f t \<and>
     (\<exists>records. load validate (fl_reading src) = Inr records)"

lemmas candidate_stages = candidate_read_def candidate_copied_def candidate_valid_def

lemma safe_start: "only_loses destination f0 f \<and> t = None \<Longrightarrow> safe_files random destination f0 f t"
  by (simp add: safe_files_def only_loses_others)

lemma safe_stages:
  "candidate_read random candidate destination f0 src f t \<Longrightarrow> safe_files random destination f0 f t"
  "candidate_copied random candidate destination f0 src f t \<Longrightarrow> safe_files random destination f0 f t"
  "candidate_valid validate random candidate destination f0 src f t \<Longrightarrow>
   safe_files random destination f0 f t"
  by (simp_all add: candidate_stages)

lemma triple_candidate_opened:
  "triple (installing (\<lambda>f t. only_loses destination f0 f \<and> t = None)) (on_fs (open_file candidate))
    (\<lambda>src. installing (candidate_read random candidate destination f0 src))
    (\<lambda>_. installing (safe_files random destination f0))"
proof (rule triple_on_fs_learns [OF preserves_open_file safe_start])
  fix fs src fs' and t :: "path option"
  assume v: "only_loses destination f0 (file_map fs) \<and> t = None" and "open_file candidate fs = (Inr src, fs')"
  then have "file_map fs candidate = Some src" using open_file_returns by (simp add: lookup_file_map)
  then show "candidate_read random candidate destination f0 src (file_map fs) t"
    using v only_losesD [of destination f0 "file_map fs" candidate src] safe_start [OF v]
    by (simp add: candidate_read_def)
qed

lemma triple_temporary_created:
  "triple (installing (candidate_read random candidate destination f0 src))
    (modify (\<lambda>s. s\<lparr>in_fs := put_file (temporary_of random destination) g (in_fs s)\<rparr>))
    (\<lambda>_. installing (candidate_read random candidate destination f0 src)) E"
  by (rule triple_modify)
    (auto simp: installing_def candidate_read_def safe_files_def file_map_put intro: others_same_temporary)

lemma triple_temporary_noted:
  "triple (installing (candidate_read random candidate destination f0 src))
    (modify (in_temporary_update (\<lambda>_. Some (temporary_of random destination))))
    (\<lambda>_. installing (candidate_read random candidate destination f0 src)) E"
  by (rule triple_modify) (auto simp: installing_def candidate_read_def safe_files_def)

lemma triple_candidate_copied:
  "triple (installing (candidate_read random candidate destination f0 src))
    (modify (\<lambda>s. s\<lparr>in_fs := put_file (temporary_of random destination)
       \<lparr>fl_reading = fl_reading src, fl_mtime_ns = now_ns, fl_size = fl_size src\<rparr> (in_fs s)\<rparr>))
    (\<lambda>_. installing (candidate_copied random candidate destination f0 src)) E"
  by (rule triple_modify)
    (auto simp: installing_def candidate_stages safe_files_def file_map_put intro: others_same_temporary)

lemma triple_copy_validated:
  "triple (installing (candidate_copied random candidate destination f0 src))
    (on_fs (load_path validate (temporary_of random destination)))
    (\<lambda>_. installing (candidate_valid validate random candidate destination f0 src))
    (\<lambda>_. installing (safe_files random destination f0))"
proof (rule triple_on_fs_learns [OF preserves_load_path safe_stages(2)])
  fix fs records fs' t
  assume v: "candidate_copied random candidate destination f0 src (file_map fs) t"
    and run: "load_path validate (temporary_of random destination) fs = (Inr records, fs')"
  show "candidate_valid validate random candidate destination f0 src (file_map fs) t"
    using v load_path_returns [OF run] by (auto simp: candidate_stages lookup_file_map)
qed

lemma triple_copy_installed:
  "triple (installing (candidate_valid validate random candidate destination f0 src))
    (sq (on_fs (replace_file (temporary_of random destination) destination))
      (modify (in_temporary_update (\<lambda>_. None))))
    (\<lambda>_. installing (installed validate candidate destination f0))
    (\<lambda>_. installing (safe_files random destination f0))"
  (is "triple (installing ?V) ?m _ _")
proof -
  let ?temp = "temporary_of random destination"
  have outcome: "case ?m s of
      (Inr u, s') \<Rightarrow> \<exists>g fs1. file_map (in_fs s) ?temp = Some g \<and> fl_reading g = fl_reading src \<and>
        file_map fs1 = file_map (in_fs s) \<and>
        s' = s\<lparr>in_fs := drop_file ?temp (put_file destination g fs1), in_temporary := None\<rparr>
    | (Inl e, s') \<Rightarrow> \<exists>fs1. file_map fs1 = file_map (in_fs s) \<and> s' = s\<lparr>in_fs := fs1\<rparr>"
    if v: "installing ?V s" for s
  proof -
    obtain x fs1 where o: "os_call (in_fs s) = (x, fs1)" by force
    have "file_map fs1 = file_map (in_fs s)"
      using preservesD [OF preserves_file_map [OF preserves_os_call] o] .
    moreover obtain g where "file_map (in_fs s) ?temp = Some g" "fl_reading g = fl_reading src"
      using v by (auto simp: installing_def candidate_stages)
    ultimately show ?thesis
      using o by (cases x) (auto simp: sq_def bnd_def on_fs_def zoom_def replace_file_def
          with_self_def modify_def throw_def lookup_file_map)
  qed
  have "?temp \<noteq> destination"
    using temporary_name [of destination random] destination_not_temporary [of destination] by metis
  then show ?thesis
    using outcome
    by (intro tripleI)
      (fastforce simp: installing_def installed_def candidate_stages safe_files_def file_map_put
        file_map_drop intro: others_same_temporary others_same_destination)+
qed

lemma install_body_outcome:
  assumes H: "hooks_keep_files H"
  shows "triple (installing (\<lambda>f t. f = f0 \<and> t = None))
    (install_body H validate now_ns random candidate destination)
    (\<lambda>_. installing (installed validate candidate destination f0))
    (\<lambda>_. installing (safe_files random destination f0))"
proof -
  let ?V0 = "\<lambda>f t. only_loses destination f0 f \<and> t = None"
  let ?E = "safe_files random destination f0"
  note stage = quiet_enter_stage [OF H] and os = quiet_on_fs [OF preserves_os_call]
  have abandoned: "triple (installing ?V0) (on_fs (remove_abandoned H destination))
      (\<lambda>_. installing ?V0) (\<lambda>_. installing ?E)"
    by (rule triple_on_fs_keeps [OF keeps_remove_abandoned [OF H] safe_start])
  have from_start: "triple (installing ?V0)
    (install_body H validate now_ns random candidate destination)
    (\<lambda>_. installing (installed validate candidate destination f0)) (\<lambda>_. installing ?E)"
    unfolding install_body_def Let_def temporary_of_def [symmetric]
    by (rule triple_sq [OF stage [OF safe_start]]
        triple_bnd [OF quiet_on_fs [OF preserves_load_path safe_start]]
        triple_sq [OF os [OF safe_start]] triple_sq [OF abandoned]
        triple_bnd [OF triple_candidate_opened] triple_sq [OF os [OF safe_stages(1)]]
        triple_sq [OF triple_temporary_created] triple_sq [OF triple_temporary_noted]
        triple_sq [OF stage [OF safe_stages(1)]] triple_sq [OF triple_candidate_copied]
        triple_sq [OF stage [OF safe_stages(2)]] triple_sq [OF os [OF safe_stages(2)]]
        triple_bnd [OF triple_copy_validated] triple_sq [OF stage [OF safe_stages(3)]]
        triple_copy_installed | assumption)+
  show ?thesis
    by (rule triple_pre [OF from_start]) (auto simp: installing_def only_loses_def)
qed

lemma install_guarded_outcome:
  assumes H: "hooks_keep_files H"
  shows "triple (installing (\<lambda>f t. f = f0 \<and> t = None))
    (try_except is_exception (install_body H validate now_ns random candidate destination)
       (\<lambda>e. with_self (\<lambda>s. sq (on_fs (report_failure H (in_stage s))) (throw e))))
    (\<lambda>_. installing (installed validate candidate destination f0))
    (\<lambda>_. installing (safe_files random destination f0))"
proof (rule triple_try_except [OF install_body_outcome [OF H]])
  fix e
  have q: "preserves fs_files (report_failure H stage)" for stage
    using H by (simp add: hooks_keep_files_def)
  show "triple (installing (safe_files random destination f0))
      (with_self (\<lambda>s. sq (on_fs (report_failure H (in_stage s))) (throw e)))
      (\<lambda>_. installing (installed validate candidate destination f0))
      (\<lambda>_. installing (safe_files random destination f0))"
    by (rule triple_with_self, rule triple_pre, rule triple_sq [OF quiet_on_fs [OF q]])
      (auto intro: triple_throw)
qed

lemma keeps_install_cleanup:
  assumes H: "hooks_keep_files H"
  shows "keeps (installing (safe_files random destination f0)) (install_cleanup H)"
proof -
  let ?I = "installing (safe_files random destination f0)"
  have q: "preserves fs_files (inject H stage)" "preserves fs_files (report_failure H stage)" for stage
    using H by (simp_all add: hooks_keep_files_def)
  have "keeps ?I (on_fs (unlink_missing_ok (temporary_of random destination)))"
  proof -
    have "keeps (\<lambda>fs. others_same destination {} f0 (file_map fs))
        (unlink_missing_ok (temporary_of random destination))"
      unfolding unlink_missing_ok_def
      by (intro keeps_sq keeps_modify preserves_keeps_part [OF preserves_file_map [OF preserves_os_call]])
        (simp add: file_map_drop others_same_temporary)
    then show ?thesis
      unfolding on_fs_def keeps_def installing_def safe_files_def
      by (auto simp: zoom_def split: prod.splits)
  qed
  then have del: "keeps ?I (on_fs (unlink_missing_ok p))"
    if "?I s" "in_temporary s = Some p" for s p
    using that by (auto simp: installing_def safe_files_def)
  show ?thesis
    unfolding install_cleanup_def
    by (intro keeps_with_self keeps_option keeps_skip keeps_try_except
        keeps_sq [OF keeps_on_fs [OF q(1)] del] keeps_on_fs [OF q(2)])
qed

text \<open>
  C17. Whatever operating-system calls and callbacks fail, an installation that returns has put
  the contents of the candidate at the destination, contents that the validator accepts, and
  an installation that raises leaves the destination, and every other file that is not one of
  its temporary files, as they were.
\<close>

theorem install_is_atomic:
  assumes "hooks_keep_files H"
  shows "case install_authorization_candidate H validate now_ns random candidate destination fs of
      (Inr _, fs') \<Rightarrow>
        (\<exists>source target records.
           file_map fs candidate = Some source \<and> file_map fs' destination = Some target \<and>
           fl_reading target = fl_reading source \<and>
           load validate (fl_reading source) = Inr records) \<and>
        others_same destination {destination} (file_map fs) (file_map fs')
    | (Inl _, fs') \<Rightarrow>
        file_map fs' destination = file_map fs destination \<and>
        others_same destination {} (file_map fs) (file_map fs')"
proof -
  let ?s0 = "\<lparr>in_fs = fs, in_stage = ''candidate_validation'', in_temporary = None\<rparr>"
  let ?m = "try_except is_exception (install_body H validate now_ns random candidate destination)
       (\<lambda>e. with_self (\<lambda>s. sq (on_fs (report_failure H (in_stage s))) (throw e)))"
  have start: "installing (\<lambda>f t. f = file_map fs \<and> t = None) ?s0" by (simp add: installing_def)
  note outcome = install_guarded_outcome [OF assms, of "file_map fs" validate now_ns random
      candidate destination]
  obtain x s1 where m: "?m ?s0 = (x, s1)" by force
  obtain y s2 where c: "install_cleanup H s1 = (y, s2)" by force
  have run: "install_authorization_candidate H validate now_ns random candidate destination fs =
      (case y of Inl e \<Rightarrow> (Inl e, in_fs s2) | Inr _ \<Rightarrow> (x, in_fs s2))"
    unfolding install_authorization_candidate_def install_candidate_def try_finally_def m
    using c by (simp split: sum.split)
  show ?thesis
  proof (cases x)
    case (Inl e)
    have "installing (safe_files random destination (file_map fs)) s1"
      by (rule triple_raises [OF outcome start m [unfolded Inl]])
    then have "installing (safe_files random destination (file_map fs)) s2"
      using keepsD [OF keeps_install_cleanup [OF assms] c] by blast
    then have o: "others_same destination {} (file_map fs) (file_map (in_fs s2))"
      by (simp add: installing_def safe_files_def)
    then have "file_map (in_fs s2) destination = file_map fs destination"
      using destination_not_temporary unfolding others_same_def by blast
    with o show ?thesis using run Inl by (cases y) simp_all
  next
    case (Inr u)
    have i: "installing (installed validate candidate destination (file_map fs)) s1"
      by (rule triple_returns [OF outcome start m [unfolded Inr]])
    then have "in_temporary s1 = None" by (simp add: installing_def installed_def)
    then have "install_cleanup H s1 = (Inr (), s1)"
      by (simp add: install_cleanup_def with_self_def skip_def)
    with c have "y = Inr ()" "s2 = s1" by simp_all
    then have "install_authorization_candidate H validate now_ns random candidate destination fs =
        (Inr u, in_fs s1)"
      using run Inr by simp
    with i show ?thesis by (simp add: installing_def installed_def)
  qed
qed

definition no_hooks :: install_hooks where
  "no_hooks = \<lparr>ih_inject = None, ih_on_failure = None\<rparr>"

definition sample_files :: file_system where
  "sample_files =
     \<lparr>fs_files = [((''/etc'', ''candidate.csv''),
        \<lparr>fl_reading = Contents sample_text, fl_mtime_ns = 1, fl_size = 34\<rparr>)],
      fs_faults = []\<rparr>"

lemma install_is_atomic_witness:
  "case install_authorization_candidate no_hooks schema_validator 2 ''abc'' (''/etc'', ''candidate.csv'')
          (''/etc'', ''authorization.csv'') sample_files of
      (Inr _, fs') \<Rightarrow>
        (\<exists>source target records.
           file_map sample_files (''/etc'', ''candidate.csv'') = Some source \<and>
           file_map fs' (''/etc'', ''authorization.csv'') = Some target \<and>
           fl_reading target = fl_reading source \<and>
           load schema_validator (fl_reading source) = Inr records) \<and>
        others_same (''/etc'', ''authorization.csv'') {(''/etc'', ''authorization.csv'')}
          (file_map sample_files) (file_map fs')
    | (Inl _, fs') \<Rightarrow>
        file_map fs' (''/etc'', ''authorization.csv'') = file_map sample_files (''/etc'', ''authorization.csv'') \<and>
        others_same (''/etc'', ''authorization.csv'') {} (file_map sample_files) (file_map fs')"
  by (rule install_is_atomic)
    (simp add: hooks_keep_files_def no_hooks_def inject_def report_failure_def preserves_skip)

lemma sample_installation_returns:
  "result (install_authorization_candidate no_hooks schema_validator 2 ''abc''
     (''/etc'', ''candidate.csv'') (''/etc'', ''authorization.csv'') sample_files) = Inr ()"
  by code_simp

end
