(* ===== verification/Controller_Worlds.thy ===== *)
theory Controller_Worlds
  imports Controller_Invariants Notification_Queue Authorization_Store
begin

text \<open>
  The two sets of ports the program builds for the controller. The simulated world is the one
  of \<open>simulation.py\<close>: manual clock, simulated relay, lists for the audit sink and the queue.
  The hardware world is the one of \<open>hardware_service.py\<close>: system clock, Raspberry Pi relay
  over a GPIO driver, SQLite sink, durable queue. Both are interpretations of
  \<open>controller_ports\<close>, the second under the contract of the driver. The event identifiers of
  \<open>uuid4\<close> are a parameter \<open>U\<close>, numbered in the order in which they are drawn.
\<close>

section \<open>The simulated world\<close>

record sim_world =
  sw_clock :: manual_clock
  sw_uuids :: nat
  sw_relay :: simulated_relay
  sw_audit :: "audit_event list"
  sw_queue :: "audit_event list"
  sw_store :: authorization_store

definition on_sim_relay :: "(seconds \<Rightarrow> (simulated_relay, 'a) prog) \<Rightarrow> (sim_world, 'a) prog" where
  "on_sim_relay m = with_self (\<lambda>w. zoom sw_relay sw_relay_update (m (mc_elapsed (sw_clock w))))"

definition sim_uuid :: "(nat \<Rightarrow> string) \<Rightarrow> (sim_world, string) prog" where
  "sim_uuid U = with_self (\<lambda>w. sq (modify (sw_uuids_update Suc)) (ret (U (sw_uuids w))))"

definition sim_ports :: "(nat \<Rightarrow> string) \<Rightarrow> sim_world ports" where
  "sim_ports U =
     \<lparr>p_monotonic = zoom sw_clock sw_clock_update manual_monotonic,
      p_now = zoom sw_clock sw_clock_update manual_now,
      p_uuid = sim_uuid U,
      p_relay_setup = (\<lambda>n ch. on_sim_relay (\<lambda>t. simulated_setup t n ch)),
      p_relay_command = (\<lambda>high. on_sim_relay (\<lambda>t. simulated_command t high)),
      p_relay_cleanup = on_sim_relay simulated_cleanup,
      p_audit_append = (\<lambda>ev. zoom sw_audit sw_audit_update (memory_append ev)),
      p_enqueue = (\<lambda>ev. zoom sw_queue sw_queue_update (memory_enqueue ev)),
      p_classify = (\<lambda>cred. gets (\<lambda>w. classify cred (sw_store w)))\<rparr>"

lemma preserves_on_sim_relay:
  "(\<And>w r. f (sw_relay_update r w) = f w) \<Longrightarrow> preserves f (on_sim_relay m)"
  unfolding on_sim_relay_def by (intro preserves_with_self preserves_zoom) simp

lemma preserves_sim_uuid:
  "(\<And>w n. f (sw_uuids_update n w) = f w) \<Longrightarrow> preserves f (sim_uuid U)"
  unfolding sim_uuid_def by (intro preserves_rules)

lemma keeps_True: "keeps (\<lambda>_. True) m"
  by (simp add: keeps_def)

text \<open>A run of a relay operation in the world is a run on the relay.\<close>

lemma on_sim_relay_run:
  assumes "on_sim_relay m w = (x, w')"
  shows "m (mc_elapsed (sw_clock w)) (sw_relay w) = (x, sw_relay w')"
  using assms by (auto simp: on_sim_relay_def with_self_def zoom_def split: prod.splits)

interpretation sim: controller_ports "sim_ports U" "\<lambda>w. sr_is_high (sw_relay w)" "\<lambda>_. True"
  sw_audit "\<lambda>ev. ev" for U
proof unfold_locales
  fix high w u w'
  assume "p_relay_command (sim_ports U) high w = (Inr u, w')"
  then show "sr_is_high (sw_relay w') = high"
    using sim_relay.command_returns on_sim_relay_run by (fastforce simp: sim_ports_def)
next
  fix high w e w'
  assume "p_relay_command (sim_ports U) high w = (Inl e, w')"
  then show "sr_is_high (sw_relay w') = sr_is_high (sw_relay w) \<or> sr_is_high (sw_relay w') = high"
    using sim_relay.command_raises on_sim_relay_run by (fastforce simp: sim_ports_def)
next
  fix w n ch x w'
  assume "p_relay_setup (sim_ports U) n ch w = (x, w')" and "sr_is_high (sw_relay w')"
  then show "sr_is_high (sw_relay w)"
    using sim_relay.setup_not_raised on_sim_relay_run by (fastforce simp: sim_ports_def)
next
  fix w x w'
  assume "p_relay_cleanup (sim_ports U) w = (x, w')" and "sr_is_high (sw_relay w')"
  then show "sr_is_high (sw_relay w)"
    using sim_relay.cleanup_not_raised on_sim_relay_run by (fastforce simp: sim_ports_def)
next
  fix ev w u w'
  assume "p_audit_append (sim_ports U) ev w = (Inr u, w')"
  then show "sw_audit w' = sw_audit w @ [ev]"
    by (auto simp: sim_ports_def zoom_def memory_append_def modify_def)
next
  fix ev w e w'
  assume "p_audit_append (sim_ports U) ev w = (Inl e, w')"
  then show "sw_audit w' = sw_audit w \<or> sw_audit w' = sw_audit w @ [ev]"
    by (auto simp: sim_ports_def zoom_def memory_append_def modify_def)
qed (simp_all add: sim_ports_def keeps_True preserves_on_sim_relay preserves_sim_uuid
    preserves_zoom preserves_gets)

text \<open>The simulated ports fail cleanly: an injected failure strikes before the output moves.\<close>

lemma sim_clean: "clean_failures (sim_ports U) (\<lambda>w. sr_is_high (sw_relay w)) (\<lambda>_. True)"
proof -
  have "sr_is_high r' = sr_is_high r" if "simulated_command t high r = (Inl e, r')" for t high r e r'
    using that by (auto simp: simulated_relay_defs split: if_splits option.splits)
  then have "sr_is_high (sw_relay w') = sr_is_high (sw_relay w)"
    if "p_relay_command (sim_ports U) high w = (Inl e, w')" for high w e w'
    using that on_sim_relay_run by (fastforce simp: sim_ports_def)
  moreover have "p_monotonic (sim_ports U) w \<noteq> (Inl e, w')" for w e w'
    by (auto simp: sim_ports_def zoom_def manual_monotonic_def gets_def)
  ultimately show ?thesis unfolding clean_failures_def by blast
qed

text \<open>
  What a test or the simulation may do between two calls: advance the clock, reload the
  authorizations, arm the failures of the relay.
\<close>

definition sim_environment :: "sim_world \<Rightarrow> sim_world \<Rightarrow> bool" where
  "sim_environment w w' \<longleftrightarrow>
     sr_is_high (sw_relay w') = sr_is_high (sw_relay w) \<and> sw_audit w' = sw_audit w \<and>
     sw_queue w' = sw_queue w \<and> mc_elapsed (sw_clock w) \<le> mc_elapsed (sw_clock w')"

section \<open>The hardware world\<close>

text \<open>
  \<open>SystemClock\<close>: the schedule lists how far the monotonic and the wall clock (in
  microseconds, which may also jump back) have moved at the coming readings.
\<close>

record system_clock =
  sc_monotonic :: seconds
  sc_wall_us :: int
  sc_lapses :: "(seconds \<times> int) list"

definition lapse :: "system_clock \<Rightarrow> system_clock" where
  "lapse c =
     (case sc_lapses c of
        [] \<Rightarrow> c
      | (d, u) # rest \<Rightarrow>
          c\<lparr>sc_monotonic := sc_monotonic c + \<bar>d\<bar>, sc_wall_us := sc_wall_us c + u, sc_lapses := rest\<rparr>)"

definition system_monotonic :: "(system_clock, seconds) prog" where
  "system_monotonic = sq (modify lapse) (gets sc_monotonic)"

definition system_now :: "(system_clock, datetime) prog" where
  "system_now = sq (modify lapse) (gets (\<lambda>c. DateTime (sc_wall_us c) (Some 0)))"

record 'g hw_world =
  hw_clock :: system_clock
  hw_uuids :: nat
  hw_relay :: "'g rpi_relay"
  hw_audit :: sqlite_sink
  hw_queue :: durable_queue
  hw_store :: authorization_store

definition hw_uuid :: "(nat \<Rightarrow> string) \<Rightarrow> ('g hw_world, string) prog" where
  "hw_uuid U = with_self (\<lambda>w. sq (modify (hw_uuids_update Suc)) (ret (U (hw_uuids w))))"

definition hw_ports :: "'g gpio_driver \<Rightarrow> (nat \<Rightarrow> string) \<Rightarrow> 'g hw_world ports" where
  "hw_ports D U =
     \<lparr>p_monotonic = zoom hw_clock hw_clock_update system_monotonic,
      p_now = zoom hw_clock hw_clock_update system_now,
      p_uuid = hw_uuid U,
      p_relay_setup = (\<lambda>n ch. zoom hw_relay hw_relay_update (rpi_setup D n ch)),
      p_relay_command = (\<lambda>high. zoom hw_relay hw_relay_update (rpi_command D high)),
      p_relay_cleanup = zoom hw_relay hw_relay_update (rpi_cleanup D),
      p_audit_append = (\<lambda>ev. zoom hw_audit hw_audit_update (sqlite_append ev)),
      p_enqueue = (\<lambda>ev. zoom hw_queue hw_queue_update (enqueue ev)),
      p_classify = (\<lambda>cred. gets (\<lambda>w. classify cred (hw_store w)))\<rparr>"

lemma preserves_hw_uuid:
  "(\<And>w n. f (hw_uuids_update n w) = f w) \<Longrightarrow> preserves f (hw_uuid U)"
  unfolding hw_uuid_def by (intro preserves_rules)

lemma hw_zoom_relay_run:
  assumes "zoom hw_relay hw_relay_update m w = (x, w')"
  shows "m (hw_relay w) = (x, hw_relay w')"
  using assms by (auto simp: zoom_def split: prod.splits)

lemma hw_zoom_audit_run:
  assumes "zoom hw_audit hw_audit_update m w = (x, w')"
  shows "m (hw_audit w) = (x, hw_audit w')"
  using assms by (auto simp: zoom_def split: prod.splits)

lemma hw_keeps_relay: "keeps I m \<Longrightarrow> keeps (\<lambda>w. I (hw_relay w)) (zoom hw_relay hw_relay_update m)"
  by (rule keeps_zoom [where J = I]) auto

lemma hw_preserves_keeps:
  "preserves hw_relay m \<Longrightarrow> keeps (\<lambda>w. I (hw_relay w)) m"
  by (rule preserves_keeps_part)

sublocale gpio_contract \<subseteq> hw: controller_ports "hw_ports D U" "\<lambda>w. pin (rp_gpio (hw_relay w))"
  "\<lambda>w. rpi_ok (hw_relay w)" "\<lambda>w. sq_rows (hw_audit w)" row_of_event for U
proof unfold_locales
  fix high w u w'
  assume "rpi_ok (hw_relay w)" "p_relay_command (hw_ports D U) high w = (Inr u, w')"
  then show "pin (rp_gpio (hw_relay w')) = high"
    using rpi.command_returns hw_zoom_relay_run by (fastforce simp: hw_ports_def)
next
  fix high w e w'
  assume "rpi_ok (hw_relay w)" "p_relay_command (hw_ports D U) high w = (Inl e, w')"
  then show "pin (rp_gpio (hw_relay w')) = pin (rp_gpio (hw_relay w)) \<or>
      pin (rp_gpio (hw_relay w')) = high"
    using rpi.command_raises hw_zoom_relay_run by (fastforce simp: hw_ports_def)
next
  fix w n ch x w'
  assume "rpi_ok (hw_relay w)" "p_relay_setup (hw_ports D U) n ch w = (x, w')"
    "pin (rp_gpio (hw_relay w'))"
  then show "pin (rp_gpio (hw_relay w))"
    using rpi.setup_not_raised hw_zoom_relay_run by (fastforce simp: hw_ports_def)
next
  fix w x w'
  assume "rpi_ok (hw_relay w)" "p_relay_cleanup (hw_ports D U) w = (x, w')"
    "pin (rp_gpio (hw_relay w'))"
  then show "pin (rp_gpio (hw_relay w))"
    using rpi.cleanup_not_raised hw_zoom_relay_run by (fastforce simp: hw_ports_def)
next
  fix ev w u w'
  assume "p_audit_append (hw_ports D U) ev w = (Inr u, w')"
  then show "sq_rows (hw_audit w') = sq_rows (hw_audit w) @ [row_of_event ev]"
    using sqlite_port.append_returns hw_zoom_audit_run by (fastforce simp: hw_ports_def)
next
  fix ev w e w'
  assume "p_audit_append (hw_ports D U) ev w = (Inl e, w')"
  then show "sq_rows (hw_audit w') = sq_rows (hw_audit w) \<or>
      sq_rows (hw_audit w') = sq_rows (hw_audit w) @ [row_of_event ev]"
    using sqlite_port.append_raises hw_zoom_audit_run by (fastforce simp: hw_ports_def)
qed (simp_all add: hw_ports_def hw_keeps_relay rpi_keeps_ok hw_preserves_keeps preserves_hw_uuid
    preserves_zoom preserves_gets)

section \<open>Symbolic runs\<close>

lemma hw_ports_run [run_simps]:
  "p_monotonic (hw_ports D U) = zoom hw_clock hw_clock_update system_monotonic"
  "p_now (hw_ports D U) = zoom hw_clock hw_clock_update system_now"
  "p_uuid (hw_ports D U) = hw_uuid U"
  "p_relay_setup (hw_ports D U) = (\<lambda>n ch. zoom hw_relay hw_relay_update (rpi_setup D n ch))"
  "p_relay_command (hw_ports D U) = (\<lambda>high. zoom hw_relay hw_relay_update (rpi_command D high))"
  "p_relay_cleanup (hw_ports D U) = zoom hw_relay hw_relay_update (rpi_cleanup D)"
  "p_audit_append (hw_ports D U) = (\<lambda>ev. zoom hw_audit hw_audit_update (sqlite_append ev))"
  "p_enqueue (hw_ports D U) = (\<lambda>ev. zoom hw_queue hw_queue_update (enqueue ev))"
  "p_classify (hw_ports D U) = (\<lambda>cred. gets (\<lambda>w. classify cred (hw_store w)))"
  by (simp_all add: hw_ports_def)

lemmas [run_simps] =
  system_monotonic_def [THEN fun_cong] system_now_def [THEN fun_cong] lapse_def
  hw_uuid_def [THEN fun_cong]

end
