(* ===== verification/Controller_Properties.thy ===== *)
theory Controller_Properties
  imports Controller_Worlds
begin

text \<open>
  The properties of the access controller in the two worlds the program builds. Those about
  the hardware world hold for every GPIO driver that obeys \<open>gpio_contract\<close>, whatever calls
  of the driver, the database and the queue fail.
\<close>

section \<open>Sample states\<close>

definition sample_gpio :: recording_gpio where
  "sample_gpio = \<lparr>rg_calls = [], rg_schedule = [], rg_pin = False\<rparr>"

definition sample_hw_world :: "recording_gpio hw_world" where
  "sample_hw_world =
     \<lparr>hw_clock = \<lparr>sc_monotonic = 10, sc_wall_us = 63902908800000000, sc_lapses = []\<rparr>,
      hw_uuids = 0,
      hw_relay = \<lparr>rp_gpio = sample_gpio, rp_channel = Some 23, rp_closed = False\<rparr>,
      hw_audit = \<lparr>sq_rows = [], sq_faults = []\<rparr>,
      hw_queue = new_queue sample_json,
      hw_store = sample_store\<rparr>"

text \<open>A controller in a given state, with the default escalation policy.\<close>

definition sample_controller :: "controller_state \<Rightarrow> seconds option \<Rightarrow> 'w \<Rightarrow> 'w controller" where
  "sample_controller s d w =
     \<lparr>ct_state = s, ct_deadline = d, ct_last_high = None, ct_last_processed = None,
      ct_release_seconds = 3, ct_gpio_channel = 23,
      ct_escalation = new_tracker default_escalation_policy, ct_env = w\<rparr>"

definition hw_ready :: "recording_gpio hw_world controller" where
  "hw_ready = sample_controller READY None sample_hw_world"

abbreviation sample_ports :: "recording_gpio hw_world ports" where
  "sample_ports \<equiv> hw_ports recording_driver decimal"

definition hw_pin :: "('g \<Rightarrow> bool) \<Rightarrow> 'g hw_world controller \<Rightarrow> bool" where
  "hw_pin pin c = pin (rp_gpio (hw_relay (ct_env c)))"

definition hw_rows :: "'g hw_world controller \<Rightarrow> audit_row list" where
  "hw_rows c = sq_rows (hw_audit (ct_env c))"

lemmas sample_run [run_simps] =
  hw_ready_def sample_controller_def sample_hw_world_def sample_gpio_def
  new_queue_def

lemma classify_sample [run_simps]:
  "classify ''0102030405'' sample_store = AUTHORIZED"
  "classify ''0102030406'' sample_store = UNKNOWN"
  by code_simp+

text \<open>The hardware controller as \<open>agrees\<close> sees it.\<close>

definition hw_agrees :: "('g \<Rightarrow> bool) \<Rightarrow> 'g hw_world controller \<Rightarrow> bool" where
  "hw_agrees pin c \<longleftrightarrow>
     rpi_ok (hw_relay (ct_env c)) \<and> agrees (ct_state c) (ct_deadline c) (hw_pin pin c)"

lemma hw_agrees_viewed:
  "hw_agrees pin c = viewed (\<lambda>w. rpi_ok (hw_relay w)) (\<lambda>w. pin (rp_gpio (hw_relay w))) agrees c"
  by (simp add: hw_agrees_def viewed_def hw_pin_def)

text \<open>What may change around the controller between two calls: everything but relay and audit.\<close>

definition hw_environment :: "'g hw_world \<Rightarrow> 'g hw_world \<Rightarrow> bool" where
  "hw_environment w w' \<longleftrightarrow> hw_relay w' = hw_relay w \<and> hw_audit w' = hw_audit w"

section \<open>The facts of the hardware controller\<close>

context gpio_contract begin

lemma hw_rising_call:
  assumes "rpi_ok (hw_relay (ct_env c))" and "\<not> hw_pin pin c"
    and "perform (hw_ports D U) x c = (r, c')" and "hw_pin pin c'"
  shows "\<exists>cred. x = Process (ParsedRecord cred) \<and> ct_state c = READY \<and>
    classify cred (hw_store (ct_env c)) = AUTHORIZED \<and>
    (\<exists>ev rest. event_ok ev \<and> ev_event_type ev = CREDENTIAL_AUTHORIZED \<and>
       hw_rows c' = hw_rows c @ row_of_event ev # rest)"
  using hw.rising_call [OF assms(1) _ assms(3)] assms(2,4)
  by (auto simp: hw_pin_def hw_rows_def authorization_audited_def hw_ports_def gets_def)

lemma hw_reachable_ok:
  assumes "(controller_step (hw_ports D U) hw_environment)\<^sup>*\<^sup>* c c'"
  shows "rpi_ok (hw_relay (ct_env c)) \<Longrightarrow> rpi_ok (hw_relay (ct_env c'))"
  using assms
proof (induction rule: rtranclp_induct)
  case (step c1 c2)
  from step.hyps(2) show ?case
  proof (cases rule: controller_step.cases)
    case (call x r)
    then show ?thesis using keepsD [OF keeps_perform [OF hw.keep_inv] call] step by simp
  next
    case (environment w)
    then show ?thesis using step by (simp add: hw_environment_def)
  qed
qed simp

lemma hw_perform_agrees:
  assumes "hw_agrees pin c" and "perform (hw_ports D U) x c = (Inr u, c')"
  shows "hw_agrees pin c'"
  using triple_returns [OF hw.perform_agrees _ assms(2)] assms(1) unfolding hw_agrees_viewed by blast

text \<open>A driver that fails cleanly makes ports that fail cleanly.\<close>

lemma hw_clean:
  assumes "fails_cleanly D pin"
  shows "clean_failures (hw_ports D U) (\<lambda>w. pin (rp_gpio (hw_relay w))) (\<lambda>w. rpi_ok (hw_relay w))"
proof -
  have "pin (rp_gpio r') = pin (rp_gpio r)"
    if "rpi_ok r" and "rpi_command D high r = (Inl e, r')" for high r e r'
    using that assms
    by (auto simp: rpi_command_def with_self_def throw_def rpi_ok_def on_gpio_def zoom_def
        fails_cleanly_def split: option.splits if_splits prod.splits)
  then have "pin (rp_gpio (hw_relay w')) = pin (rp_gpio (hw_relay w))"
    if "rpi_ok (hw_relay w)" and "p_relay_command (hw_ports D U) high w = (Inl e, w')" for high w e w'
    using that hw_zoom_relay_run by (fastforce simp: hw_ports_def)
  moreover have "p_monotonic (hw_ports D U) w \<noteq> (Inl e, w')" for w e w'
    by (auto simp: hw_ports_def zoom_def system_monotonic_def prog_simps)
  ultimately show ?thesis unfolding clean_failures_def by blast
qed

text \<open>Agreement from the construction of the controller on.\<close>

lemma hw_settled:
  assumes "new_controller w tracker lasts channel = Inr c" and "rpi_ok (hw_relay w)"
    and "(returning_step (hw_ports D U) hw_environment)\<^sup>*\<^sup>* c c' \<or>
      fails_cleanly D pin \<and> (controller_step (hw_ports D U) hw_environment)\<^sup>*\<^sup>* c c'"
  shows "hw_agrees pin c' \<or> ct_state c' = INITIALIZING \<and> ct_deadline c' = None"
proof -
  have c: "viewed (\<lambda>w. rpi_ok (hw_relay w)) (\<lambda>w. pin (rp_gpio (hw_relay w)))
      (\<lambda>s d l. agrees s d l \<or> s = INITIALIZING \<and> d = None) c"
    using assms(1,2) by (auto simp: new_controller_def viewed_def split: if_splits)
  have W: "rpi_ok (hw_relay w') \<and> pin (rp_gpio (hw_relay w')) = pin (rp_gpio (hw_relay w))"
    if "hw_environment w w'" "rpi_ok (hw_relay w)" for w w'
    using that by (simp add: hw_environment_def)
  have "viewed (\<lambda>w. rpi_ok (hw_relay w)) (\<lambda>w. pin (rp_gpio (hw_relay w)))
      (\<lambda>s d l. agrees s d l \<or> s = INITIALIZING \<and> d = None) c'"
    using assms(3)
  proof
    assume run: "(returning_step (hw_ports D U) hw_environment)\<^sup>*\<^sup>* c c'"
    show ?thesis by (rule hw.returning_settled [OF W run c])
  next
    assume run: "fails_cleanly D pin \<and> (controller_step (hw_ports D U) hw_environment)\<^sup>*\<^sup>* c c'"
    show ?thesis by (rule hw.reachable_settled [OF W hw_clean _ c]) (use run in blast)+
  qed
  then show ?thesis by (auto simp: hw_agrees_viewed viewed_def)
qed

text \<open>A low pin at the start stays low until the controller is started.\<close>

lemma hw_unstarted_low:
  assumes "(controller_step (hw_ports D U) hw_environment)\<^sup>*\<^sup>* c c'" and "ct_state c = INITIALIZING"
    and "rpi_ok (hw_relay (ct_env c))" and "\<not> hw_pin pin c" and "ct_state c' = INITIALIZING"
  shows "\<not> hw_pin pin c'"
  using assms
proof (induction rule: rtranclp_induct)
  case (step c1 c2)
  have s1: "ct_state c1 = INITIALIZING"
    using step_transition [OF step.hyps(2)] step.prems(4)
    by (cases "ct_state c1") (auto simp: gave_up_def)
  have ok: "rpi_ok (hw_relay (ct_env c1))"
    using hw_reachable_ok [OF step.hyps(1)] step.prems(2) .
  from step.hyps(2) show ?case
  proof (cases rule: controller_step.cases)
    case (call x r)
    then show ?thesis using hw_rising_call [OF ok _ call] step s1 by auto
  next
    case (environment w)
    then show ?thesis using step s1 by (simp add: hw_environment_def hw_pin_def)
  qed
qed simp

lemma hw_shutdown_agrees:
  assumes "hw_agrees pin c" and "shutdown (hw_ports D U) c = (r, c')"
  shows "hw_agrees pin c'"
proof (cases r)
  case (Inl e)
  then show ?thesis
    using triple_raises [OF hw.shutdown_agrees _ assms(2) [unfolded Inl]] assms(1)
    unfolding hw_agrees_viewed by blast
next
  case (Inr u)
  then show ?thesis
    using triple_returns [OF hw.shutdown_agrees _ assms(2) [unfolded Inr]] assms(1)
    unfolding hw_agrees_viewed by blast
qed

lemma hw_process_during_release:
  assumes "rpi_ok (hw_relay (ct_env c))" and "ct_state c = RELEASED" and "ct_deadline c = Some t"
    and "process (hw_ports D U) r c = (x, c')"
  shows "ct_state c' = RELEASED \<and> ct_deadline c' = Some t \<and> hw_pin pin c' = hw_pin pin c"
  using keepsD [OF hw.process_during_release assms(4), of t "hw_pin pin c"] assms(1-3)
  by (simp add: viewed_def hw_pin_def)

lemma hw_tick_ends_release:
  assumes "hw_agrees pin c" and "ct_state c = RELEASED" and "ct_deadline c = Some t"
    and "p_monotonic (hw_ports D U) (ct_env c) = (Inr now, w)" and "t \<le> now"
    and "tick (hw_ports D U) c = (Inr u, c')"
  shows "ct_state c' = READY \<and> \<not> hw_pin pin c' \<and> ct_deadline c' = None \<or> ct_state c' = FAULTED"
proof -
  have "hw_agrees pin c'"
    using hw_perform_agrees [of c U Tick u c'] assms(1,6) by simp
  moreover have "ct_state c' = READY \<or> ct_state c' = FAULTED"
    by (rule hw.tick_ends_release [OF assms(2-6)])
  ultimately show ?thesis by (auto simp: hw_agrees_def agrees_def)
qed

lemma hw_fail_secure:
  assumes "(controller_step (hw_ports D U) hw_environment)\<^sup>*\<^sup>* c c'" and "ct_state c \<in> gave_up"
    and "rpi_ok (hw_relay (ct_env c))" and "\<not> hw_pin pin c"
  shows "ct_state c' \<in> gave_up \<and> \<not> hw_pin pin c'"
proof -
  have "ct_state c' \<in> gave_up" using gave_up_forever assms(1,2) by blast
  moreover have "rpi_ok (hw_relay (ct_env c')) \<and> \<not> pin (rp_gpio (hw_relay (ct_env c')))"
    by (rule hw.fail_secure [OF _ assms(1,2)])
      (use assms(3,4) in \<open>auto simp: hw_environment_def hw_pin_def\<close>)
  ultimately show ?thesis by (simp add: hw_pin_def)
qed

lemma hw_reachable_rows:
  assumes "(controller_step (hw_ports D U) hw_environment)\<^sup>*\<^sup>* c c'"
    and "\<forall>row\<in>set (hw_rows c). Q row" 
    and "\<And>ev. public_event (drawn_ids (hw_ports D U)) ev \<Longrightarrow> Q (row_of_event ev)"
  shows "\<forall>row\<in>set (hw_rows c'). Q row"
proof -
  have W: "sq_rows (hw_audit w') = sq_rows (hw_audit w)" if "hw_environment w w'" for w w' :: "'g hw_world"
    using that by (simp add: hw_environment_def)
  show ?thesis
    using hw.reachable_trail [where W = hw_environment and Q = Q, OF W assms(3) assms(1)] assms(2)
    by (simp add: hw_rows_def)
qed

end

section \<open>Who raises the relay\<close>

text \<open>
  C4. If a call of the controller raises the relay pin, it is the processing of a record
  whose credential the loaded authorizations classify as authorized, the controller was ready,
  and the first row the call wrote to the audit database, before the command HIGH, is the
  audit of that authorization.
\<close>

theorem release_needs_audited_authorization:
  assumes "gpio_contract D pin" and "rpi_ok (hw_relay (ct_env c))" and "\<not> hw_pin pin c"
    and "perform (hw_ports D U) x c = (r, c')" and "hw_pin pin c'"
  shows "\<exists>cred. x = Process (ParsedRecord cred) \<and> ct_state c = READY \<and>
    classify cred (hw_store (ct_env c)) = AUTHORIZED \<and>
    (\<exists>ev rest. event_ok ev \<and> ev_event_type ev = CREDENTIAL_AUTHORIZED \<and>
       hw_rows c' = hw_rows c @ row_of_event ev # rest)"
  by (rule gpio_contract.hw_rising_call [OF assms])

text \<open>The concrete run: a known credential at a ready controller.\<close>

definition known_record :: record_result where
  "known_record = ParsedRecord ''0102030405''"

lemma known_run:
  "result (perform sample_ports (Process known_record) hw_ready) = Inr ()"
  "hw_pin rg_pin (final (perform sample_ports (Process known_record) hw_ready))"
  "ct_state (final (perform sample_ports (Process known_record) hw_ready)) = RELEASED"
  "ct_deadline (final (perform sample_ports (Process known_record) hw_ready)) = Some 13"
  by (simp_all add: run_simps known_record_def hw_pin_def cong: run_congs)

lemma hw_ready_ok:
  "rpi_ok (hw_relay (ct_env hw_ready))" "\<not> hw_pin rg_pin hw_ready" "hw_agrees rg_pin hw_ready"
  by (simp_all add: run_simps rpi_ok_def hw_pin_def hw_agrees_def agrees_def)

lemma release_needs_audited_authorization_witness:
  "\<exists>cred. Process known_record = Process (ParsedRecord cred) \<and> ct_state hw_ready = READY \<and>
    classify cred (hw_store (ct_env hw_ready)) = AUTHORIZED \<and>
    (\<exists>ev rest. event_ok ev \<and> ev_event_type ev = CREDENTIAL_AUTHORIZED \<and>
       hw_rows (final (perform sample_ports (Process known_record) hw_ready)) =
         hw_rows hw_ready @ row_of_event ev # rest)"
  by (rule release_needs_audited_authorization [OF recording.gpio_contract_axioms hw_ready_ok(1,2)
        run_pair known_run(2)])

section \<open>State and relay\<close>

lemma returns_pair: "result p = Inr u \<Longrightarrow> p = (Inr u, final p)"
  by (metis run_pair)

text \<open>Runs in which every call returns are runs.\<close>

lemma returning_controller_step: "returning_step P W c c' \<Longrightarrow> controller_step P W c c'"
  by (auto elim!: returning_step.cases intro: controller_step.intros)

lemma returning_reachable: "(returning_step P W)\<^sup>*\<^sup>* c c' \<Longrightarrow> (controller_step P W)\<^sup>*\<^sup>* c c'"
  by (erule mono_rtranclp [rule_format, rotated]) (rule returning_controller_step)

text \<open>
  C5. From the construction of a hardware controller on, state and relay agree in every state
  that calls and outside changes lead to, as long as every call has returned, and, if the driver
  fails cleanly, also when calls have raised: a high pin means released, faulted or shutting
  down; released means a high pin and a deadline; initializing, ready and stopped mean no
  deadline. The pin need not be low at first, but a controller that has not been started does
  not know of it.
\<close>

theorem controller_agrees_with_relay:
  assumes "gpio_contract D pin"
    and "new_controller w tracker lasts channel = Inr c" and "rpi_ok (hw_relay w)"
    and "(returning_step (hw_ports D U) hw_environment)\<^sup>*\<^sup>* c c' \<or>
      fails_cleanly D pin \<and> (controller_step (hw_ports D U) hw_environment)\<^sup>*\<^sup>* c c'"
    and "\<not> pin (rp_gpio (hw_relay w)) \<or> ct_state c' \<noteq> INITIALIZING"
  shows "hw_agrees pin c'"
proof (cases "ct_state c' = INITIALIZING")
  case True
  have reachable: "(controller_step (hw_ports D U) hw_environment)\<^sup>*\<^sup>* c c'"
    using assms(4) returning_reachable by blast
  have c: "ct_state c = INITIALIZING" "ct_deadline c = None" "ct_env c = w"
    using assms(2) by (auto simp: new_controller_def split: if_splits)
  have "\<not> hw_pin pin c'"
    by (rule gpio_contract.hw_unstarted_low [OF assms(1) reachable c(1)])
      (use assms(3,5) c True in \<open>simp_all add: hw_pin_def\<close>)
  then show ?thesis
    using True gpio_contract.hw_reachable_ok [OF assms(1) reachable]
      gpio_contract.hw_settled [OF assms(1-4)] assms(3) c
    by (auto simp: hw_agrees_def agrees_def)
next
  case False
  then show ?thesis using gpio_contract.hw_settled [OF assms(1-4)] by blast
qed

text \<open>The run of a controller over a relay that was left high, started and shown a known credential.\<close>

definition hw_left_high :: "recording_gpio hw_world" where
  "hw_left_high = sample_hw_world\<lparr>hw_relay := new_rpi_relay (sample_gpio\<lparr>rg_pin := True\<rparr>)\<rparr>"

definition hw_new :: "recording_gpio hw_world controller" where
  "hw_new = sample_controller INITIALIZING None hw_left_high"

lemmas [run_simps] = hw_new_def hw_left_high_def new_rpi_relay_def

lemma hw_new_run:
  "new_controller hw_left_high (new_tracker default_escalation_policy) 3 23 = Inr hw_new"
  "result (perform sample_ports Start hw_new) = Inr ()"
  "result (perform sample_ports (Process known_record) (final (perform sample_ports Start hw_new))) = Inr ()"
  "ct_state (final (perform sample_ports (Process known_record)
     (final (perform sample_ports Start hw_new)))) = RELEASED"
  by (simp_all add: run_simps known_record_def new_controller_def cong: run_congs)

lemma controller_agrees_with_relay_witness:
  "hw_agrees rg_pin (final (perform sample_ports (Process known_record)
     (final (perform sample_ports Start hw_new))))"
proof (rule controller_agrees_with_relay [OF recording.gpio_contract_axioms hw_new_run(1)])
  let ?c1 = "final (perform sample_ports Start hw_new)"
  have "(returning_step sample_ports hw_environment)\<^sup>*\<^sup>* hw_new ?c1"
    by (rule r_into_rtranclp, rule returning_step.returns [OF returns_pair [OF hw_new_run(2)]])
  also have "(returning_step sample_ports hw_environment)\<^sup>*\<^sup>* ?c1
      (final (perform sample_ports (Process known_record) ?c1))"
    by (rule r_into_rtranclp, rule returning_step.returns [OF returns_pair [OF hw_new_run(3)]])
  finally show "(returning_step sample_ports hw_environment)\<^sup>*\<^sup>* hw_new
        (final (perform sample_ports (Process known_record) ?c1)) \<or>
      fails_cleanly recording_driver rg_pin \<and>
      (controller_step sample_ports hw_environment)\<^sup>*\<^sup>* hw_new
        (final (perform sample_ports (Process known_record) ?c1))"
    by blast
qed (simp_all add: hw_new_run(4) hw_left_high_def new_rpi_relay_def rpi_ok_def del: perform.simps)

text \<open>
  C7. A release ends at its deadline: a tick that returns at or after the deadline leaves the
  controller ready, with the pin low and no deadline, or faulted.
\<close>

theorem expired_release_is_ended:
  assumes "gpio_contract D pin" and "hw_agrees pin c" and "ct_state c = RELEASED"
    and "ct_deadline c = Some t"
    and "p_monotonic (hw_ports D U) (ct_env c) = (Inr now, w)" and "t \<le> now"
    and "tick (hw_ports D U) c = (Inr u, c')"
  shows "ct_state c' = READY \<and> \<not> hw_pin pin c' \<and> ct_deadline c' = None \<or> ct_state c' = FAULTED"
  by (rule gpio_contract.hw_tick_ends_release [OF assms])

definition hw_released :: "recording_gpio hw_world controller" where
  "hw_released = sample_controller RELEASED (Some 10)
     (sample_hw_world\<lparr>hw_relay := \<lparr>rp_gpio = sample_gpio\<lparr>rg_pin := True\<rparr>, rp_channel = Some 23,
        rp_closed = False\<rparr>\<rparr>)"

lemma hw_released_ok:
  "hw_agrees rg_pin hw_released" "ct_state hw_released = RELEASED"
  "ct_deadline hw_released = Some 10" "rpi_ok (hw_relay (ct_env hw_released))"
  by (simp_all add: run_simps hw_released_def hw_agrees_def agrees_def rpi_ok_def hw_pin_def)

lemma expired_release_is_ended_witness:
  "ct_state (final (tick sample_ports hw_released)) = READY \<and>
   \<not> hw_pin rg_pin (final (tick sample_ports hw_released)) \<and>
   ct_deadline (final (tick sample_ports hw_released)) = None \<or>
   ct_state (final (tick sample_ports hw_released)) = FAULTED"
proof (rule expired_release_is_ended [OF recording.gpio_contract_axioms hw_released_ok(1-3)])
  show "p_monotonic sample_ports (ct_env hw_released) =
      (Inr 10, final (p_monotonic sample_ports (ct_env hw_released)))"
    by (rule returns_pair) (simp add: run_simps hw_released_def cong: run_congs)
  show "tick sample_ports hw_released = (Inr (), final (tick sample_ports hw_released))"
    by (rule returns_pair) (simp add: run_simps hw_released_def cong: run_congs)
qed simp

text \<open>
  C30. During a release a record, whatever it is and however its processing ends, changes
  neither the state, nor the deadline, nor the pin: a second credential does not prolong the
  release.
\<close>

theorem release_is_not_prolonged:
  assumes "gpio_contract D pin" and "rpi_ok (hw_relay (ct_env c))" and "ct_state c = RELEASED"
    and "ct_deadline c = Some t" and "process (hw_ports D U) r c = (x, c')"
  shows "ct_state c' = RELEASED \<and> ct_deadline c' = Some t \<and> hw_pin pin c' = hw_pin pin c"
  by (rule gpio_contract.hw_process_during_release [OF assms])

lemma release_is_not_prolonged_witness:
  "ct_state (final (process sample_ports known_record hw_released)) = RELEASED \<and>
   ct_deadline (final (process sample_ports known_record hw_released)) = Some 10 \<and>
   hw_pin rg_pin (final (process sample_ports known_record hw_released)) = hw_pin rg_pin hw_released"
  by (rule release_is_not_prolonged [OF recording.gpio_contract_axioms hw_released_ok(4,2,3) run_pair])

text \<open>
  C8. A controller that has faulted, is shutting down or has stopped never unlocks again: from
  a low pin, no sequence of calls and of changes around the controller makes it high.
\<close>

theorem faulted_controller_stays_locked:
  assumes "gpio_contract D pin"
    and "(controller_step (hw_ports D U) hw_environment)\<^sup>*\<^sup>* c c'"
    and "ct_state c \<in> {FAULTED, SHUTTING_DOWN, STOPPED}"
    and "rpi_ok (hw_relay (ct_env c))" and "\<not> hw_pin pin c"
  shows "ct_state c' \<in> {FAULTED, SHUTTING_DOWN, STOPPED} \<and> \<not> hw_pin pin c'"
  using gpio_contract.hw_fail_secure [OF assms(1,2) _ assms(4,5)] assms(3)
  unfolding gave_up_def by blast

definition hw_faulted :: "recording_gpio hw_world controller" where
  "hw_faulted = sample_controller FAULTED None sample_hw_world"

lemma faulted_controller_stays_locked_witness:
  "ct_state (final (perform sample_ports (Process known_record) hw_faulted))
     \<in> {FAULTED, SHUTTING_DOWN, STOPPED} \<and>
   \<not> hw_pin rg_pin (final (perform sample_ports (Process known_record) hw_faulted))"
proof (rule faulted_controller_stays_locked [OF recording.gpio_contract_axioms])
  show "(controller_step sample_ports hw_environment)\<^sup>*\<^sup>* hw_faulted
      (final (perform sample_ports (Process known_record) hw_faulted))"
    by (rule r_into_rtranclp) (rule controller_step.call, rule run_pair)
qed (simp_all add: run_simps hw_faulted_def rpi_ok_def hw_pin_def)

section \<open>What the audit trail says\<close>

text \<open>
  Privacy: every row the controller ever writes to the audit database comes from an event within
  the vocabulary of \<open>public_event\<close>.
\<close>

lemma hw_drawn_ids: "drawn_ids (hw_ports D U) \<subseteq> range U"
  by (auto simp: drawn_ids_def hw_ports_def hw_uuid_def prog_simps)

lemma public_event_mono: "public_event A ev \<Longrightarrow> A \<subseteq> B \<Longrightarrow> public_event B ev"
  by (auto simp: public_event_def)

lemma controller_rows_are_private:
  assumes "gpio_contract D pin"
    and "(controller_step (hw_ports D U) hw_environment)\<^sup>*\<^sup>* c c'" and "hw_rows c = []"
  shows "set (hw_rows c') \<subseteq> row_of_event ` {ev. public_event (range U) ev}"
proof -
  have "\<forall>row\<in>set (hw_rows c'). row \<in> row_of_event ` {ev. public_event (range U) ev}"
    by (rule gpio_contract.hw_reachable_rows [OF assms(1,2)])
      (use assms(3) public_event_mono [OF _ hw_drawn_ids] in auto)
  then show ?thesis by blast
qed

text \<open>
  C31. Noninterference: two credentials that the store classifies alike are processed alike.
  The result, the audit rows, the relay and everything else are the same, so nothing the
  controller leaves behind tells which of the two was presented.
\<close>

theorem credentials_classified_alike_are_indistinguishable:
  assumes "classify a (hw_store (ct_env c)) = classify b (hw_store (ct_env c))"
  shows "process (hw_ports D U) (ParsedRecord a) c = process (hw_ports D U) (ParsedRecord b) c"
  using assms by (simp add: process_ParsedRecord hw_ports_def gets_def)

lemma credentials_classified_alike_are_indistinguishable_witness:
  "process sample_ports (ParsedRecord ''0102030406'') hw_ready =
   process sample_ports (ParsedRecord ''0A02030406'') hw_ready"
  by (rule credentials_classified_alike_are_indistinguishable) code_simp

section \<open>The state machine\<close>

text \<open>
  C29. However a call ends, it takes the controller along the edges of the state machine: only
  \<open>INITIALIZING\<close> and \<open>RELEASED\<close> lead to \<open>READY\<close>, only \<open>READY\<close> leads to \<open>RELEASED\<close>, and
  \<open>FAULTED\<close>, \<open>SHUTTING_DOWN\<close> and \<open>STOPPED\<close> lead to none of these.
\<close>

theorem calls_follow_the_state_machine:
  "ct_state (final (perform P x c)) \<in> allowed_transitions (ct_state c)"
  by (rule perform_transition [OF run_pair])

end
