(* ===== verification/Release_Deadlines.thy ===== *)
theory Release_Deadlines
  imports Controller_Properties
begin

text \<open>
  When a release ends. Two interfaces of the ports carry the argument: \<open>clocked_ports\<close>, a clock
  that no port turns back, and \<open>releasing_ports\<close>, a relay that, once it has taken the command
  HIGH, stays usable until it is cleaned up. From them follow that no deadline is further away
  than the release lasts, and that a released controller always has a deadline and a usable
  relay, and what the result of \<open>process\<close> says of the deadline. Both are interpreted on the ports
  of the hardware; the simulation interprets the first.
\<close>

section \<open>A clock that does not go back\<close>

lemma triple_keeps_any: "keeps I m \<Longrightarrow> triple I m (\<lambda>_. I) (\<lambda>_ _. True)"
  by (rule triple_conseq [OF triple_keeps]) (assumption | simp)+

definition deadline_within :: "('w \<Rightarrow> seconds) \<Rightarrow> seconds \<Rightarrow> 'w controller \<Rightarrow> bool" where
  "deadline_within time lasts c \<longleftrightarrow>
     ct_release_seconds c = lasts \<and>
     (case ct_deadline c of None \<Rightarrow> True | Some d \<Rightarrow> d \<le> time (ct_env c) + lasts)"

text \<open>
  What the result of \<open>process\<close> says of the deadline: an asserted release set it \<open>lasts\<close> after a
  reading of the clock that was taken during the call, and without a new release it is the old one.
\<close>

definition deadline_says ::
  "seconds \<Rightarrow> seconds \<Rightarrow> seconds option \<Rightarrow> access_result \<Rightarrow> seconds \<Rightarrow> seconds option \<Rightarrow> bool" where
  "deadline_says lasts before d r after d' \<longleftrightarrow>
     (case ar_release r of
        ASSERTED \<Rightarrow> \<exists>t. before \<le> t \<and> t \<le> after \<and> d' = Some (t + lasts)
      | _ \<Rightarrow> d' = d)"

locale clocked_ports =
  fixes P :: "'w ports" and time :: "'w \<Rightarrow> seconds"
  assumes clock_forward: "ports_keep P (\<lambda>_. True) (\<lambda>w. t \<le> time w)"
    and reads_now: "p_monotonic P w = (Inr t, w') \<Longrightarrow> time w \<le> t \<and> t \<le> time w'"
begin

abbreviation "near \<equiv> deadline_within time"

text \<open>What moves only the clock, and only forward, keeps the bound.\<close>

lemma keeps_withinI:
  assumes "\<And>t. keeps (\<lambda>c. t \<le> time (ct_env c)) m" and "preserves ct_deadline m"
    and "preserves ct_release_seconds m"
  shows "keeps (near lasts) m"
proof (rule keepsI)
  fix c r c' assume w: "near lasts c" and run: "m c = (r, c')"
  have "time (ct_env c) \<le> time (ct_env c')"
    using keepsD [OF assms(1) run] by blast
  then show "near lasts c'"
    using w preservesD [OF assms(2) run] preservesD [OF assms(3) run]
    by (auto simp: deadline_within_def split: option.splits)
qed

lemma within_parts:
  "correlation_shape corr \<Longrightarrow> keeps (near lasts) (audit P et sev corr)"
  "keeps (near lasts) (command_relay P high)"
  "keeps (near lasts) (attempt_safe_state P)"
  "keeps (near lasts) (record_suspicious_activity P)"
  by (intro keeps_withinI keeps_audit [OF clock_forward] keeps_command_relay [OF clock_forward]
      keeps_attempt_safe_state [OF clock_forward]
      keeps_record_suspicious_activity [OF clock_forward] preserves_audit preserves_command_relay
      preserves_attempt_safe_state preserves_record_suspicious_activity; simp)+

lemma within_env:
  "(\<And>t. keeps (\<lambda>w. t \<le> time w) m) \<Longrightarrow> keeps (near lasts) (env m)"
  by (intro keeps_withinI keeps_env preserves_env) simp_all

lemmas within_ports =
  within_env [OF ports_keepD(1) [OF clock_forward]] within_env [OF ports_keepD(2) [OF clock_forward]]
  within_env [OF ports_keepD(6) [OF clock_forward]] within_env [OF ports_keepD(7) [OF clock_forward]]
  within_env [OF ports_keepD(9) [OF clock_forward]]

lemma within_updates:
  "keeps (near lasts) (set_state s)"
  "keeps (near lasts) (modify (ct_deadline_update (\<lambda>_. None)))"
  "keeps (near lasts) (modify (ct_last_processed_update f))"
  unfolding set_state_def
  by (rule keeps_modify, simp add: deadline_within_def split: option.splits)+

lemmas within_rules = keeps_rules within_parts within_ports within_updates shape_rules

lemma keeps_triple: "triple I m (\<lambda>_. I) (\<lambda>_. I) \<Longrightarrow> keeps I m"
  by (rule keepsI) (metis sum.exhaust triple_raises triple_returns)

text \<open>The one place that sets a deadline: the reading of the clock plus the duration.\<close>

lemma within_reading:
  "triple (near lasts) (env (p_monotonic P))
     (\<lambda>t c. near lasts c \<and> t \<le> time (ct_env c)) (\<lambda>_. near lasts)"
proof (rule tripleI)
  fix c t c' assume "near lasts c" and run: "env (p_monotonic P) c = (Inr t, c')"
  then show "near lasts c' \<and> t \<le> time (ct_env c')"
    using keepsD [OF within_ports(1) run]
    by (auto simp: env_def zoom_def dest: reads_now split: prod.splits)
qed (use keepsD [OF within_ports(1)] in blast)

lemma within_release: "keeps (near lasts) (release P)"
proof -
  have begun: "keeps (near lasts) (bnd (env (p_monotonic P)) (\<lambda>t.
         sq (modify (ct_deadline_update (\<lambda>_. Some (t + lasts))))
        (sq (set_state RELEASED)
        (sq (audit P RELAY_ASSERTED SevInfo [(''duration_seconds'', JFloat lasts)])
            (ret (AccessResult (Some AUTHORIZED) ASSERTED))))))"
  proof -
    have set: "triple (\<lambda>c. near lasts c \<and> t \<le> time (ct_env c))
        (modify (ct_deadline_update (\<lambda>_. Some (t + lasts)))) (\<lambda>_. near lasts) (\<lambda>_. near lasts)" for t
      by (rule triple_modify) (simp add: deadline_within_def)
    have announced: "keeps (near lasts) (sq (set_state RELEASED)
        (sq (audit P RELAY_ASSERTED SevInfo [(''duration_seconds'', JFloat lasts)])
            (ret (AccessResult (Some AUTHORIZED) ASSERTED))))"
      by (intro within_rules)
    show ?thesis
      by (rule keeps_triple, rule triple_bnd [OF within_reading],
          rule triple_sq [OF set triple_keeps [OF announced]])
  qed
  show ?thesis
    unfolding release_def
  proof (rule keeps_with_self)
    fix c assume "near lasts c"
    then have "ct_release_seconds c = lasts" by (simp add: deadline_within_def)
    then show "keeps (near lasts) (bnd (try_except is_exception (sq (command_relay P True) (ret True))
             (\<lambda>_. sq (audit P RELAY_CONTROL_ERROR SevCritical (reason_of ''high_failed''))
                 (bnd (attempt_safe_state P) (\<lambda>_. sq (set_state FAULTED) (ret False)))))
           (\<lambda>asserted.
             if \<not> asserted then ret (AccessResult (Some AUTHORIZED) ACTUATION_FAILED)
             else
               bnd (env (p_monotonic P)) (\<lambda>t.
                 sq (modify (ct_deadline_update (\<lambda>_. Some (t + ct_release_seconds c))))
                (sq (set_state RELEASED)
                (sq (audit P RELAY_ASSERTED SevInfo
                      [(''duration_seconds'', JFloat (ct_release_seconds c))])
                    (ret (AccessResult (Some AUTHORIZED) ASSERTED)))))))"
      by (simp only:, intro begun within_rules)
  qed
qed

lemma within_perform: "keeps (near lasts) (perform P x)"
proof (cases x)
  case (Process r)
  have respond: "keeps (near lasts) (respond P outcome)" for outcome
    unfolding respond_def by (intro within_rules within_release)
  have "keeps (near lasts) (process P r)"
    unfolding process_def process_parsed_def
    by (cases r) (auto intro!: within_rules respond)
  then show ?thesis using Process by (auto intro: keeps_rules)
qed (auto simp: start_def tick_def recoverable_failure_def shutdown_def intro!: within_rules)

lemma reachable_within:
  assumes W: "\<And>w w'. W w w' \<Longrightarrow> time w \<le> time w'"
  shows "(controller_step P W)\<^sup>*\<^sup>* c c' \<Longrightarrow> near lasts c \<Longrightarrow> near lasts c'"
proof (induction rule: rtranclp_induct)
  case (step c1 c2)
  from step.hyps(2) show ?case
  proof (cases rule: controller_step.cases)
    case (call x r)
    then show ?thesis using keepsD [OF within_perform call] step by blast
  next
    case (environment w)
    then have "time (ct_env c1) \<le> time w" by (intro W)
    then show ?thesis using step environment by (auto simp: deadline_within_def split: option.splits)
  qed
qed

text \<open>A controller with deadline \<open>d\<close> and duration \<open>lasts\<close>, at \<open>before\<close> or later.\<close>

abbreviation "awaiting d lasts before \<equiv>
  (\<lambda>c. ct_deadline c = d \<and> ct_release_seconds c = lasts \<and> before \<le> time (ct_env c))"

lemma keeps_awaitingI:
  assumes "\<And>t. keeps (\<lambda>c. t \<le> time (ct_env c)) m" and "preserves ct_deadline m"
    and "preserves ct_release_seconds m"
  shows "keeps (awaiting d lasts before) m"
proof (rule keepsI)
  fix c r c' assume p: "awaiting d lasts before c" and run: "m c = (r, c')"
  then show "awaiting d lasts before c'"
    using keepsD [OF assms(1) run, of before] preservesD [OF assms(2) run] preservesD [OF assms(3) run]
    by simp
qed

lemma awaiting_parts:
  "correlation_shape corr \<Longrightarrow> keeps (awaiting d lasts before) (audit P et sev corr)"
  "keeps (awaiting d lasts before) (command_relay P high)"
  "keeps (awaiting d lasts before) (attempt_safe_state P)"
  "keeps (awaiting d lasts before) (record_suspicious_activity P)"
  by (intro keeps_awaitingI keeps_audit [OF clock_forward] keeps_command_relay [OF clock_forward]
      keeps_attempt_safe_state [OF clock_forward]
      keeps_record_suspicious_activity [OF clock_forward] preserves_audit preserves_command_relay
      preserves_attempt_safe_state preserves_record_suspicious_activity; simp)+

lemma awaiting_env:
  "(\<And>t. keeps (\<lambda>w. t \<le> time w) m) \<Longrightarrow> keeps (awaiting d lasts before) (env m)"
  by (intro keeps_awaitingI keeps_env preserves_env) simp_all

lemmas awaiting_ports =
  awaiting_env [OF ports_keepD(1) [OF clock_forward]] awaiting_env [OF ports_keepD(2) [OF clock_forward]]
  awaiting_env [OF ports_keepD(6) [OF clock_forward]]

lemma awaiting_updates:
  "keeps (awaiting d lasts before) (set_state s)"
  "keeps (awaiting d lasts before) (modify (ct_last_processed_update f))"
  unfolding set_state_def by (rule keeps_modify, simp)+

lemmas awaiting_rules = keeps_rules awaiting_parts awaiting_ports awaiting_updates shape_rules

abbreviation "announces d lasts before \<equiv>
  (\<lambda>r c. deadline_says lasts before d r (time (ct_env c)) (ct_deadline c))"

lemma awaiting_reading:
  "triple (awaiting d lasts before) (env (p_monotonic P))
     (\<lambda>t c. before \<le> t \<and> t \<le> time (ct_env c) \<and> ct_release_seconds c = lasts) (\<lambda>_ _. True)"
proof (rule tripleI)
  fix c t c' assume p: "awaiting d lasts before c" and run: "env (p_monotonic P) c = (Inr t, c')"
  then show "before \<le> t \<and> t \<le> time (ct_env c') \<and> ct_release_seconds c' = lasts"
    using reads_now by (fastforce simp: env_def zoom_def split: prod.splits)
qed simp

lemma release_deadline_says:
  "triple (awaiting d lasts before) (release P) (announces d lasts before) (\<lambda>_ _. True)"
proof -
  have high: "keeps (awaiting d lasts before)
      (try_except is_exception (sq (command_relay P True) (ret True))
        (\<lambda>_. sq (audit P RELAY_CONTROL_ERROR SevCritical (reason_of ''high_failed''))
           (bnd (attempt_safe_state P) (\<lambda>_. sq (set_state FAULTED) (ret False)))))"
    by (intro awaiting_rules)
  have begun: "triple (awaiting d lasts before)
      (bnd (env (p_monotonic P)) (\<lambda>t. sq (modify (ct_deadline_update (\<lambda>_. Some (t + lasts))))
         (sq (set_state RELEASED) (sq (audit P RELAY_ASSERTED SevInfo [(''duration_seconds'', JFloat lasts)])
            (ret (AccessResult (Some AUTHORIZED) ASSERTED))))))
      (announces d lasts before) (\<lambda>_ _. True)"
  proof (rule triple_bnd [OF awaiting_reading])
    fix t
    have set: "triple (\<lambda>c. before \<le> t \<and> t \<le> time (ct_env c) \<and> ct_release_seconds c = lasts)
        (modify (ct_deadline_update (\<lambda>_. Some (t + lasts))))
        (\<lambda>_. awaiting (Some (t + lasts)) lasts t) (\<lambda>_ _. True)"
      by (rule triple_modify) simp
    show "triple (\<lambda>c. before \<le> t \<and> t \<le> time (ct_env c) \<and> ct_release_seconds c = lasts)
        (sq (modify (ct_deadline_update (\<lambda>_. Some (t + lasts))))
         (sq (set_state RELEASED) (sq (audit P RELAY_ASSERTED SevInfo [(''duration_seconds'', JFloat lasts)])
            (ret (AccessResult (Some AUTHORIZED) ASSERTED)))))
        (announces d lasts before) (\<lambda>_ _. True)"
    proof (cases "before \<le> t")
      case True
      have rest: "triple (awaiting (Some (t + lasts)) lasts t)
          (sq (set_state RELEASED) (sq (audit P RELAY_ASSERTED SevInfo [(''duration_seconds'', JFloat lasts)])
            (ret (AccessResult (Some AUTHORIZED) ASSERTED))))
          (announces d lasts before) (\<lambda>_ _. True)"
        using True
        by (intro triple_sq [OF triple_keeps_any [OF awaiting_updates(1)]]
            triple_sq [OF triple_keeps_any [OF awaiting_parts(1)]] triple_ret shape_rules)
          (auto simp: deadline_says_def)
      show ?thesis by (rule triple_sq [OF set rest])
    qed (simp add: triple_def)
  qed
  show ?thesis
    unfolding release_def
  proof (rule triple_with_self, rule triple_pre, rule triple_bnd [OF triple_keeps_any [OF high]])
    fix c asserted assume "awaiting d lasts before c"
    then show "triple (awaiting d lasts before)
        (if \<not> asserted then ret (AccessResult (Some AUTHORIZED) ACTUATION_FAILED)
         else bnd (env (p_monotonic P)) (\<lambda>t.
           sq (modify (ct_deadline_update (\<lambda>_. Some (t + ct_release_seconds c))))
             (sq (set_state RELEASED) (sq (audit P RELAY_ASSERTED SevInfo
                [(''duration_seconds'', JFloat (ct_release_seconds c))])
                (ret (AccessResult (Some AUTHORIZED) ASSERTED))))))
        (announces d lasts before) (\<lambda>_ _. True)"
      using begun by (cases asserted) (auto intro!: triple_ret simp: deadline_says_def)
  qed simp
qed

lemma process_deadline_says:
  assumes "process P r c = (Inr x, c')"
  shows "deadline_says (ct_release_seconds c) (time (ct_env c)) (ct_deadline c) x
    (time (ct_env c')) (ct_deadline c')"
proof -
  let ?I = "awaiting (ct_deadline c) (ct_release_seconds c) (time (ct_env c))"
  let ?Q = "announces (ct_deadline c) (ct_release_seconds c) (time (ct_env c))"
  have none: "triple ?I (ret (AccessResult a NOT_REQUESTED)) ?Q (\<lambda>_ _. True)"
    and already: "triple ?I (ret (AccessResult a ALREADY_RELEASED)) ?Q (\<lambda>_ _. True)" for a
    by (rule triple_ret, simp add: deadline_says_def)+
  note rules = triple_sq [OF triple_keeps_any] triple_bnd [OF triple_keeps_any] triple_if
    none already release_deadline_says awaiting_rules
  have respond: "triple ?I (respond P outcome) ?Q (\<lambda>_ _. True)" for outcome
  proof -
    have last: "triple ?I (with_self (\<lambda>c. if ct_state c = RELEASED
          then ret (AccessResult (Some outcome) ALREADY_RELEASED) else release P)) ?Q (\<lambda>_ _. True)"
      by (rule triple_with_self, rule triple_pre [where P = ?I]) (intro rules, simp)
    show ?thesis unfolding respond_def by (intro rules last)
  qed
  have refused: "triple ?I (throw e) ?Q (\<lambda>_ _. True)" for e
    by (simp add: triple_def throw_def)
  have "triple ?I (process P r) ?Q (\<lambda>_ _. True)"
    unfolding process_def process_parsed_def
    by (rule triple_with_self, rule triple_pre [where P = ?I], cases r)
      (simp_all only: record_result.case, (intro rules refused respond; simp)+)
  from triple_returns [OF this _ assms] show ?thesis by simp
qed

text \<open>From a controller without a deadline, every later deadline is near.\<close>

lemma deadline_bounded:
  assumes "\<And>w w'. W w w' \<Longrightarrow> time w \<le> time w'" and "(controller_step P W)\<^sup>*\<^sup>* c c'"
    and "ct_deadline c = None" and "ct_deadline c' = Some d"
  shows "d \<le> time (ct_env c') + ct_release_seconds c"
  using reachable_within [OF assms(1,2), of "ct_release_seconds c"] assms(3,4)
  by (simp add: deadline_within_def)

end

section \<open>A relay that stays usable\<close>

text \<open>
  Only a shutdown cleans the relay up, and a shutdown leaves no release behind. The other calls
  are the same over ports that do not clean up.
\<close>

definition without_cleanup :: "'w ports \<Rightarrow> 'w ports" where
  "without_cleanup P = P\<lparr>p_relay_cleanup := skip\<rparr>"

lemma drawn_without_cleanup [simp]: "drawn_ids (without_cleanup P) = drawn_ids P"
  by (simp add: drawn_ids_def without_cleanup_def)

lemma audit_without_cleanup:
  "new_event (without_cleanup P) et sev corr = new_event P et sev corr"
  "audit (without_cleanup P) et sev corr = audit P et sev corr"
  "command_relay (without_cleanup P) high = command_relay P high"
  by (simp_all add: without_cleanup_def new_event_def audit_def command_relay_def)

lemma helpers_without_cleanup:
  "attempt_safe_state (without_cleanup P) = attempt_safe_state P"
  "record_suspicious_activity (without_cleanup P) = record_suspicious_activity P"
proof -
  have ports: "p_monotonic (without_cleanup P) = p_monotonic P"
    "p_audit_append (without_cleanup P) = p_audit_append P" "p_enqueue (without_cleanup P) = p_enqueue P"
    by (simp_all add: without_cleanup_def)
  show "attempt_safe_state (without_cleanup P) = attempt_safe_state P"
    "record_suspicious_activity (without_cleanup P) = record_suspicious_activity P"
    unfolding attempt_safe_state_def record_suspicious_activity_def audit_without_cleanup ports
    by (rule refl)+
qed

text \<open>The deadline is written together with the state.\<close>

lemma deadline_with_state:
  "sq (modify (ct_deadline_update (\<lambda>_. d))) (sq (set_state s) m) =
   sq (modify (\<lambda>c. c\<lparr>ct_deadline := d, ct_state := s\<rparr>)) m"
  by (rule ext) (simp add: sq_modify set_state_def)

lemma sq_answer: "sq a (bnd b (\<lambda>_. sq c (ret x))) = sq (sq a (bnd b (\<lambda>_. c))) (ret x)"
  by (rule ext) (simp add: sq_def bnd_def split: prod.splits sum.splits)

text \<open>A released controller has a deadline, and a relay that takes commands.\<close>

definition releasable_over :: "('w \<Rightarrow> bool) \<Rightarrow> 'w controller \<Rightarrow> bool" where
  "releasable_over usable c \<longleftrightarrow>
     (ct_state c = RELEASED \<longrightarrow> ct_deadline c \<noteq> None \<and> usable (ct_env c))"

locale releasing_ports = clocked_ports P time
  for P :: "'w ports" and time :: "'w \<Rightarrow> seconds" +
  fixes usable :: "'w \<Rightarrow> bool"
  assumes usable_kept: "ports_keep (without_cleanup P) (\<lambda>_. True) usable"
    and high_usable: "p_relay_command P True w = (Inr u, w') \<Longrightarrow> usable w'"
begin

abbreviation "releasable \<equiv> releasable_over usable"

lemma keeps_releasableI:
  assumes "keeps (\<lambda>c. usable (ct_env c)) m" and "preserves ct_deadline m" and "preserves ct_state m"
  shows "keeps releasable m"
  by (rule keepsI)
    (auto simp: releasable_over_def dest: keepsD [OF assms(1)] preservesD [OF assms(2)]
      preservesD [OF assms(3)])

lemma usable_parts:
  "correlation_shape corr \<Longrightarrow> keeps (\<lambda>c. usable (ct_env c)) (audit P et sev corr)"
  "keeps (\<lambda>c. usable (ct_env c)) (command_relay P high)"
  "keeps (\<lambda>c. usable (ct_env c)) (attempt_safe_state P)"
  "keeps (\<lambda>c. usable (ct_env c)) (record_suspicious_activity P)"
  using keeps_audit [OF usable_kept] keeps_command_relay [OF usable_kept]
    keeps_attempt_safe_state [OF usable_kept] keeps_record_suspicious_activity [OF usable_kept]
  by (simp_all add: audit_without_cleanup helpers_without_cleanup)

lemma usable_ports:
  "keeps usable (p_monotonic P)" "keeps usable (p_now P)" "keeps usable (p_classify P cred)"
  "keeps usable (p_relay_setup P n ch)"
  using ports_keepD [OF usable_kept] by (simp_all add: without_cleanup_def)

lemma releasable_parts:
  "correlation_shape corr \<Longrightarrow> keeps releasable (audit P et sev corr)"
  "keeps releasable (command_relay P high)"
  "keeps releasable (attempt_safe_state P)"
  "keeps releasable (record_suspicious_activity P)"
  by (intro keeps_releasableI usable_parts preserves_audit preserves_command_relay
      preserves_attempt_safe_state preserves_record_suspicious_activity; simp)+

lemma releasable_env: "keeps usable m \<Longrightarrow> keeps releasable (env m)"
  by (intro keeps_releasableI keeps_env preserves_env) simp_all

lemma releasable_updates:
  "s \<noteq> RELEASED \<Longrightarrow> keeps releasable (set_state s)"
  "keeps releasable (modify (ct_last_processed_update f))"
  unfolding set_state_def by (rule keeps_modify, simp add: releasable_over_def)+

lemma releasable_ended:
  assumes "s \<noteq> RELEASED" and "keeps releasable m"
  shows "keeps releasable (sq (modify (ct_deadline_update (\<lambda>_. None))) (sq (set_state s) m))"
  unfolding deadline_with_state
  by (intro keeps_sq keeps_modify assms(2)) (simp add: releasable_over_def assms(1))

lemmas releasable_rules =
  keeps_rules releasable_parts releasable_env [OF usable_ports(1)] releasable_env [OF usable_ports(2)]
  releasable_env [OF usable_ports(3)] releasable_env [OF usable_ports(4)] releasable_updates
  releasable_ended shape_rules

lemma releasable_high:
  "triple releasable (command_relay P True) (\<lambda>_ c. releasable c \<and> usable (ct_env c)) (\<lambda>_. releasable)"
proof (rule tripleI)
  fix c u c' assume "releasable c" and run: "command_relay P True c = (Inr u, c')"
  moreover have "usable (ct_env c')"
    using run by (auto simp: command_relay_def prog_simps env_def dest: high_usable
        split: prod.splits sum.splits)
  ultimately show "releasable c' \<and> usable (ct_env c')"
    using keepsD [OF releasable_parts(2) run] by simp
qed (use keepsD [OF releasable_parts(2)] in blast)

lemma releasable_begun:
  "keeps (\<lambda>c. releasable c \<and> usable (ct_env c)) (bnd (env (p_monotonic P)) (\<lambda>t.
     sq (modify (ct_deadline_update (\<lambda>_. Some (t + k))))
    (sq (set_state RELEASED) (sq (audit P et sev [(''duration_seconds'', JFloat k)]) (ret x)))))"
  unfolding deadline_with_state
  by (intro keeps_bnd keeps_sq keeps_modify keeps_ret keeps_conj keeps_env
      usable_ports(1) releasable_env usable_parts(1) releasable_parts(1) shape_rules)
    (simp_all add: releasable_over_def)

lemma releasable_release: "keeps releasable (release P)"
proof -
  let ?both = "\<lambda>c. releasable c \<and> usable (ct_env c)"
  have high: "triple releasable (try_except is_exception (sq (command_relay P True) (ret True))
      (\<lambda>_. sq (audit P RELAY_CONTROL_ERROR SevCritical (reason_of ''high_failed''))
          (bnd (attempt_safe_state P) (\<lambda>_. sq (set_state FAULTED) (ret False)))))
      (\<lambda>ok c. releasable c \<and> (ok \<longrightarrow> usable (ct_env c))) (\<lambda>_. releasable)"
  proof (rule triple_try_except)
    show "triple releasable (sq (command_relay P True) (ret True))
        (\<lambda>ok c. releasable c \<and> (ok \<longrightarrow> usable (ct_env c))) (\<lambda>_. releasable)"
      by (rule triple_sq [OF releasable_high]) (rule triple_ret, simp)
    have "keeps releasable (sq (audit P RELAY_CONTROL_ERROR SevCritical (reason_of ''high_failed''))
        (bnd (attempt_safe_state P) (\<lambda>_. set_state FAULTED)))"
      by (intro releasable_rules) simp
    then show "triple releasable (sq (audit P RELAY_CONTROL_ERROR SevCritical (reason_of ''high_failed''))
          (bnd (attempt_safe_state P) (\<lambda>_. sq (set_state FAULTED) (ret False))))
        (\<lambda>ok c. releasable c \<and> (ok \<longrightarrow> usable (ct_env c))) (\<lambda>_. releasable)"
      unfolding sq_answer by (rule triple_sq [OF triple_keeps]) (rule triple_ret, simp)
  qed simp
  have begun: "triple ?both (bnd (env (p_monotonic P)) (\<lambda>t.
         sq (modify (ct_deadline_update (\<lambda>_. Some (t + k))))
        (sq (set_state RELEASED) (sq (audit P et sev [(''duration_seconds'', JFloat k)]) (ret y)))))
      (\<lambda>_. releasable) (\<lambda>_. releasable)" for k et sev y
    by (rule triple_conseq [OF triple_keeps [OF releasable_begun]]) simp_all
  have rest: "triple (\<lambda>c. releasable c \<and> (ok \<longrightarrow> usable (ct_env c)))
      (if \<not> ok then ret x else bnd (env (p_monotonic P)) (\<lambda>t.
         sq (modify (ct_deadline_update (\<lambda>_. Some (t + k))))
        (sq (set_state RELEASED) (sq (audit P et sev [(''duration_seconds'', JFloat k)]) (ret y)))))
      (\<lambda>_. releasable) (\<lambda>_. releasable)" for ok x k et sev y
    using begun by (cases ok) (auto intro: triple_ret)
  show ?thesis
    unfolding release_def
    by (intro keeps_with_self keeps_triple triple_bnd [OF high rest])
qed

lemma releasable_perform: "keeps releasable (perform P x)"
proof (cases x)
  case (Process r)
  have respond: "keeps releasable (respond P outcome)" for outcome
    unfolding respond_def by (intro releasable_rules releasable_release)
  have "keeps releasable (process P r)"
    unfolding process_def process_parsed_def
    by (cases r) (auto intro!: releasable_rules respond)
  then show ?thesis using Process by (auto intro: keeps_rules)
next
  case Shutdown
  have "ct_state c' \<noteq> RELEASED \<or> c' = c" if "shutdown P c = (r, c')" for c r c'
    using shutdown_transition [OF that] that
    by (auto simp: gave_up_def shutdown_def with_self_def skip_def split: if_splits)
  then show ?thesis
    using Shutdown by (intro keepsI) (fastforce simp: releasable_over_def)
qed (auto simp: start_def tick_def recoverable_failure_def intro!: releasable_rules)

lemma reachable_releasable:
  assumes W: "\<And>w w'. W w w' \<Longrightarrow> usable w \<Longrightarrow> usable w'"
  shows "(controller_step P W)\<^sup>*\<^sup>* c c' \<Longrightarrow> releasable c \<Longrightarrow> releasable c'"
proof (induction rule: rtranclp_induct)
  case (step c1 c2)
  from step.hyps(2) show ?case
  proof (cases rule: controller_step.cases)
    case (call x r)
    then show ?thesis using keepsD [OF releasable_perform call] step by blast
  next
    case (environment w)
    then show ?thesis using step W by (auto simp: releasable_over_def)
  qed
qed

end

section \<open>The ports of the hardware\<close>

definition hw_time :: "'g hw_world \<Rightarrow> seconds" where
  "hw_time w = sc_monotonic (hw_clock w)"

definition relay_usable :: "'g hw_world \<Rightarrow> bool" where
  "relay_usable w \<longleftrightarrow> rp_channel (hw_relay w) \<noteq> None \<and> \<not> rp_closed (hw_relay w)"

text \<open>Between two calls: everything but relay and audit may change, and the clock moves on.\<close>

definition hw_time_passes :: "'g hw_world \<Rightarrow> 'g hw_world \<Rightarrow> bool" where
  "hw_time_passes w w' \<longleftrightarrow> hw_environment w w' \<and> hw_time w \<le> hw_time w'"

lemma clock_moves_on: "sc_monotonic c \<le> sc_monotonic (lapse c)"
  by (simp add: lapse_def split: list.split)

lemma keeps_hw_clock:
  "keeps (\<lambda>c. t \<le> sc_monotonic c) m \<Longrightarrow> keeps (\<lambda>w. t \<le> hw_time w) (zoom hw_clock hw_clock_update m)"
  by (rule keeps_zoom [where J = "\<lambda>c. t \<le> sc_monotonic c"]) (simp_all add: hw_time_def)

lemma hw_clock_ports:
  "preserves hw_clock (hw_uuid U)" "preserves hw_clock (zoom hw_relay hw_relay_update m)"
  "preserves hw_clock (zoom hw_audit hw_audit_update n)"
  "preserves hw_clock (zoom hw_queue hw_queue_update k)" "preserves hw_clock (gets f)"
  by (intro preserves_hw_uuid preserves_zoom preserves_gets; simp)+

lemma hw_relay_ports:
  "preserves hw_relay (hw_uuid U)" "preserves hw_relay (zoom hw_clock hw_clock_update m)"
  "preserves hw_relay (zoom hw_audit hw_audit_update n)"
  "preserves hw_relay (zoom hw_queue hw_queue_update k)" "preserves hw_relay (gets f)"
  by (intro preserves_hw_uuid preserves_zoom preserves_gets; simp)+

lemma keeps_relay_usable:
  "keeps (\<lambda>r. rp_channel r \<noteq> None \<and> \<not> rp_closed r) m \<Longrightarrow>
   keeps relay_usable (zoom hw_relay hw_relay_update m)"
  by (rule keeps_zoom [where J = "\<lambda>r. rp_channel r \<noteq> None \<and> \<not> rp_closed r"])
    (simp_all add: relay_usable_def)

lemma rpi_stays_usable:
  "keeps (\<lambda>r. rp_channel r \<noteq> None \<and> \<not> rp_closed r) (rpi_setup D numbering channel)"
  "keeps (\<lambda>r. rp_channel r \<noteq> None \<and> \<not> rp_closed r) (rpi_command D high)"
  unfolding rpi_setup_def rpi_command_def by (intro keeps_rules keeps_on_gpio; simp)+

lemma keeps_hw_other:
  "preserves hw_clock m \<Longrightarrow> keeps (\<lambda>w. t \<le> hw_time w) m"
  "preserves hw_relay m \<Longrightarrow> keeps relay_usable m"
  unfolding hw_time_def relay_usable_def
  by (rule preserves_keepsI, assumption, simp)+

interpretation hw_release: releasing_ports "hw_ports D U" hw_time relay_usable
  for D :: "'g gpio_driver" and U
proof unfold_locales
  have read: "keeps (\<lambda>c. t \<le> sc_monotonic c) system_monotonic"
    "keeps (\<lambda>c. t \<le> sc_monotonic c) system_now" for t
    unfolding system_monotonic_def system_now_def
    by (intro keeps_sq keeps_modify keeps_gets order_trans [OF _ clock_moves_on]; assumption)+
  show "ports_keep (hw_ports D U) (\<lambda>_. True) (\<lambda>w. t \<le> hw_time w)" for t
    unfolding ports_keep_def hw_ports_def ports.simps
    by (intro conjI allI impI keeps_hw_clock read keeps_hw_other(1) hw_clock_ports)
next
  show "hw_time w \<le> t \<and> t \<le> hw_time w'" if "p_monotonic (hw_ports D U) w = (Inr t, w')" for w t w'
    using that clock_moves_on [of "hw_clock w"]
    by (auto simp: hw_ports_def zoom_def system_monotonic_def prog_simps hw_time_def)
next
  show "ports_keep (without_cleanup (hw_ports D U)) (\<lambda>_. True) relay_usable"
    unfolding ports_keep_def hw_ports_def without_cleanup_def ports.simps
    by (intro conjI allI impI keeps_relay_usable rpi_stays_usable keeps_skip keeps_hw_other(2)
        hw_relay_ports)
next
  show "relay_usable w'" if "p_relay_command (hw_ports D U) True w = (Inr u, w')" for w u w'
    using that
    by (auto simp: hw_ports_def zoom_def rpi_command_def with_self_def throw_def on_gpio_def
        relay_usable_def split: prod.splits option.splits if_splits)
qed

lemma hw_time_passes_W:
  "hw_time_passes w w' \<Longrightarrow> hw_time w \<le> hw_time w'"
  "hw_time_passes w w' \<Longrightarrow> relay_usable w \<Longrightarrow> relay_usable w'"
  "hw_time_passes w w' \<Longrightarrow> hw_environment w w'"
  by (simp_all add: hw_time_passes_def hw_environment_def relay_usable_def)

lemma new_controller_fields:
  "new_controller w tracker lasts channel = Inr c \<Longrightarrow>
   ct_state c = INITIALIZING \<and> ct_deadline c = None \<and> ct_env c = w \<and> ct_release_seconds c = lasts \<and>
   0 < lasts"
  by (auto simp: new_controller_def split: if_splits)

lemma release_deadline_near:
  assumes "new_controller w tracker lasts channel = Inr c"
    and "(controller_step (hw_ports D U) hw_time_passes)\<^sup>*\<^sup>* c c'" and "ct_deadline c' = Some d"
  shows "d \<le> hw_time (ct_env c') + lasts"
  using hw_release.deadline_bounded [OF hw_time_passes_W(1) assms(2) _ assms(3)]
    new_controller_fields [OF assms(1)] by simp

text \<open>
  C34. In every state that a newly built hardware controller reaches, by calls that return or
  raise and by changes around it in which the clock does not go back, a pending deadline is at
  most \<open>release_seconds\<close> after the present reading of the monotonic clock.
\<close>

theorem release_deadline_bounded:
  assumes "new_controller w tracker lasts channel = Inr c"
    and "(controller_step (hw_ports D U) hw_time_passes)\<^sup>*\<^sup>* c c'" and "ct_deadline c' = Some d"
  shows "d \<le> hw_time (ct_env c') + lasts"
  by (rule release_deadline_near [OF assms])

section \<open>The end of a release\<close>

context gpio_contract begin

text \<open>
  A tick after the deadline, with a driver that accepts LOW: the pin is low and the controller
  ready before the end of the release is audited, so that they are also if the audit raises.
\<close>

lemma hw_expired_tick:
  assumes "accepts_low D" and "rpi_ok (hw_relay (ct_env c))" and "relay_usable (ct_env c)"
    and "ct_state c = RELEASED" and "ct_deadline c = Some d" and "d \<le> hw_time (ct_env c)"
    and "tick (hw_ports D U) c = (r, c')"
  shows "ct_state c' = READY \<and> ct_deadline c' = None \<and> \<not> hw_pin pin c'"
proof -
  let ?w = "(ct_env c)\<lparr>hw_clock := lapse (hw_clock (ct_env c))\<rparr>"
  have now: "env (p_monotonic (hw_ports D U)) c =
      (Inr (sc_monotonic (lapse (hw_clock (ct_env c)))), c\<lparr>ct_env := ?w\<rparr>)"
    by (simp add: hw_ports_def env_def zoom_def system_monotonic_def prog_simps)
  have late: "\<not> sc_monotonic (lapse (hw_clock (ct_env c))) < d"
    using assms(6) clock_moves_on [of "hw_clock (ct_env c)"] by (simp add: hw_time_def)
  obtain g where g: "gpio_output D 23 False (rp_gpio (hw_relay (ct_env c))) = (Inr (), g)"
    using assms(1) by (auto simp: accepts_low_def)
  let ?r = "(hw_relay (ct_env c))\<lparr>rp_gpio := g\<rparr>"
  let ?c1 = "c\<lparr>ct_env := ?w\<lparr>hw_relay := ?r\<rparr>, ct_last_high := Some False\<rparr>"
  have "command_relay (hw_ports D U) False (c\<lparr>ct_env := ?w\<rparr>) = (Inr (), ?c1)"
    using assms(2,3) g
    by (auto simp: command_relay_def env_def hw_ports_def rpi_command_def rpi_ok_def relay_usable_def
        on_gpio_def prog_simps)
  then have run: "audit (hw_ports D U) RELAY_RESTORED SevInfo []
      (?c1\<lparr>ct_deadline := None, ct_state := READY\<rparr>) = (r, c')"
    using now late assms(4,5,7)
    by (simp add: tick_def with_self_def bnd_def try_except_def sq_def ret_def modify_def set_state_def)
  have "\<not> pin g" using output_returns [OF g] by simp
  then have "hw.view (\<lambda>s d l. s = READY \<and> d = None \<and> \<not> l)
      (?c1\<lparr>ct_deadline := None, ct_state := READY\<rparr>)"
    using assms(2) by (simp add: viewed_def rpi_ok_def)
  then have "hw.view (\<lambda>s d l. s = READY \<and> d = None \<and> \<not> l) c'"
    by (rule keepsD [OF hw.keeps_view_audit run])
  then show ?thesis by (simp add: viewed_def hw_pin_def)
qed

end

text \<open>
  C6. Every release of the hardware ends, if the driver accepts the command LOW. From any
  released state that a newly built controller reaches, by calls that return or raise, once the
  monotonic clock has advanced by the configured duration, the next tick leaves the controller
  ready, without a deadline and with the pin low, even if that tick raises because the end of
  the release cannot be audited.
\<close>

theorem every_release_ends:
  assumes "gpio_contract D pin" and "accepts_low D"
    and "new_controller w tracker lasts channel = Inr c" and "rpi_ok (hw_relay w)"
    and "(controller_step (hw_ports D U) hw_time_passes)\<^sup>*\<^sup>* c c'" and "ct_state c' = RELEASED"
    and "hw_time_passes (ct_env c') later" and "hw_time (ct_env c') + lasts \<le> hw_time later"
    and "tick (hw_ports D U) (c'\<lparr>ct_env := later\<rparr>) = (r, c'')"
  shows "ct_state c'' = READY \<and> ct_deadline c'' = None \<and> \<not> hw_pin pin c''"
proof -
  note new = new_controller_fields [OF assms(3)]
  have "hw_release.releasable c'"
    by (rule hw_release.reachable_releasable [OF _ assms(5)])
      (use new in \<open>auto simp: releasable_over_def hw_time_passes_W(2)\<close>)
  then obtain d where d: "ct_deadline c' = Some d" "relay_usable (ct_env c')"
    using assms(6) by (auto simp: releasable_over_def)
  have "d \<le> hw_time (ct_env c') + lasts"
    by (rule release_deadline_near [OF assms(3,5) d(1)])
  moreover have "(controller_step (hw_ports D U) hw_environment)\<^sup>*\<^sup>* c c'"
    using assms(5) by (rule mono_rtranclp [rule_format, rotated])
      (auto elim!: controller_stepE intro: controller_step.intros hw_time_passes_W(3))
  then have "rpi_ok (hw_relay (ct_env c'))"
    using gpio_contract.hw_reachable_ok [OF assms(1)] assms(4) new by simp
  moreover have "rpi_ok (hw_relay later)" "relay_usable later"
    using calculation(2) d(2) assms(7)
    by (simp_all add: hw_time_passes_def hw_environment_def relay_usable_def)
  ultimately show ?thesis
    using gpio_contract.hw_expired_tick [OF assms(1,2) _ _ _ _ _ assms(9), of d] assms(6,8) d by simp
qed

section \<open>A release of the sample controller\<close>

text \<open>
  The door is left unlocked by an earlier process; the controller starts over it, is shown a
  known credential, and three seconds pass.
\<close>

abbreviation patient_ports :: "recording_gpio hw_world ports" where
  "patient_ports \<equiv> hw_ports patient_driver decimal"

definition hw_unlocked :: "recording_gpio hw_world controller" where
  "hw_unlocked = perform_all patient_ports [Start, Process known_record] hw_new"

lemma reachable_perform_all: "(controller_step P W)\<^sup>*\<^sup>* c (perform_all P xs c)"
proof (induction xs arbitrary: c)
  case (Cons x xs)
  have "controller_step P W c (final (perform P x c))"
    by (rule controller_step.call, rule run_pair)
  then show ?case using Cons.IH by (simp add: converse_rtranclp_into_rtranclp)
qed simp

lemma hw_unlocked_run:
  "ct_state hw_unlocked = RELEASED" "ct_deadline hw_unlocked = Some 13"
  "hw_time (ct_env hw_unlocked) = 10" "hw_pin rg_pin hw_unlocked"
  by (simp_all add: hw_unlocked_def run_simps known_record_def hw_time_def hw_pin_def
      perform_all.simps cong: run_congs)

lemma hw_unlocked_reachable: "(controller_step patient_ports W)\<^sup>*\<^sup>* hw_new hw_unlocked"
  unfolding hw_unlocked_def by (rule reachable_perform_all)

lemma release_deadline_bounded_witness: "(13 :: seconds) \<le> hw_time (ct_env hw_unlocked) + 3"
  by (rule release_deadline_bounded [OF hw_new_run(1) hw_unlocked_reachable hw_unlocked_run(2)])

definition hw_later :: "recording_gpio hw_world" where
  "hw_later = (ct_env hw_unlocked)\<lparr>hw_clock := \<lparr>sc_monotonic = 13, sc_wall_us = 0, sc_lapses = []\<rparr>\<rparr>"

lemma every_release_ends_witness:
  "ct_state (final (tick patient_ports (hw_unlocked\<lparr>ct_env := hw_later\<rparr>))) = READY \<and>
   ct_deadline (final (tick patient_ports (hw_unlocked\<lparr>ct_env := hw_later\<rparr>))) = None \<and>
   \<not> hw_pin rg_pin (final (tick patient_ports (hw_unlocked\<lparr>ct_env := hw_later\<rparr>)))"
  by (rule every_release_ends [OF patient_gpio.gpio_contract_axioms patient_accepts_low
        hw_new_run(1) _ hw_unlocked_reachable hw_unlocked_run(1) _ _ run_pair])
    (simp_all add: hw_left_high_def new_rpi_relay_def rpi_ok_def hw_later_def hw_time_passes_def
      hw_environment_def hw_unlocked_run(3), simp_all add: hw_time_def)

end
