(* ===== verification/Controller_Simulated.thy ===== *)
theory Controller_Simulated
  imports Release_Deadlines
begin

text \<open>
  The access controller in the simulated world of \<open>simulation.py\<close>. Its ports fail cleanly, so
  that the agreement of state and relay holds in every reachable state, the release deadline is
  bounded, and a released relay is always commanded low in the end.
\<close>

section \<open>States\<close>

definition sim_high :: "sim_world controller \<Rightarrow> bool" where
  "sim_high c = sr_is_high (sw_relay (ct_env c))"

definition sim_elapsed :: "sim_world controller \<Rightarrow> seconds" where
  "sim_elapsed c = mc_elapsed (sw_clock (ct_env c))"

definition sim_agrees :: "sim_world controller \<Rightarrow> bool" where
  "sim_agrees c \<longleftrightarrow> agrees (ct_state c) (ct_deadline c) (sim_high c)"

lemma sim_agrees_viewed:
  "sim_agrees c = viewed (\<lambda>_. True) (\<lambda>w. sr_is_high (sw_relay w)) agrees c"
  by (simp add: sim_agrees_def viewed_def sim_high_def)

definition sample_sim_world :: sim_world where
  "sample_sim_world =
     \<lparr>sw_clock = new_manual_clock, sw_uuids = 0, sw_relay = new_simulated_relay, sw_audit = [],
      sw_queue = [], sw_store = sample_store\<rparr>"

text \<open>A controller as the simulation builds it, before \<open>start()\<close>.\<close>

definition sim_initial :: "sim_world controller" where
  "sim_initial = sample_controller INITIALIZING None sample_sim_world"

lemma sim_initial_ok:
  "sim_agrees sim_initial" "ct_deadline sim_initial = None" "0 < ct_release_seconds sim_initial"
  by (simp_all add: sim_initial_def sample_controller_def sample_sim_world_def sim_agrees_def
      sim_high_def agrees_def new_simulated_relay_def)

section \<open>Agreement in every reachable state\<close>

text \<open>
  In the simulated world the controller and the relay agree in every reachable state,
  after calls that return and after calls that raise, whatever failures are injected and
  however the clock advances: in particular a controller that is initializing, ready or stopped
  has the relay low, and a released one has it high.
\<close>

lemma sim_reachable_agrees:
  assumes "(controller_step (sim_ports U) sim_environment)\<^sup>*\<^sup>* c c'" and "sim_agrees c"
  shows "sim_agrees c'"
  using sim.reachable_agrees [where W = sim_environment, OF _ sim_clean assms(1)] assms(2)
  by (simp add: sim_agrees_viewed sim_environment_def)

definition sim_started :: "sim_world controller" where
  "sim_started = perform_all (sim_ports decimal) [Start, Process known_record, Tick] sim_initial"

lemma sim_started_agrees: "sim_agrees sim_started"
  unfolding sim_started_def
  by (rule sim_reachable_agrees [OF reachable_perform_all sim_initial_ok(1)])

section \<open>The release deadline\<close>

text \<open>No port of the simulation moves its clock.\<close>

lemma sim_ports_clock:
  "preserves sw_clock (p_monotonic (sim_ports U))"
  "preserves sw_clock (p_now (sim_ports U))"
  "preserves sw_clock (p_uuid (sim_ports U))"
  "preserves sw_clock (p_audit_append (sim_ports U) ev)"
  "preserves sw_clock (p_enqueue (sim_ports U) ev)"
  "preserves sw_clock (p_classify (sim_ports U) cred)"
  "preserves sw_clock (p_relay_setup (sim_ports U) n ch)"
  "preserves sw_clock (p_relay_command (sim_ports U) high)"
  "preserves sw_clock (p_relay_cleanup (sim_ports U))"
proof -
  have "preserves sw_clock (zoom sw_clock sw_clock_update (gets f))" for f
    by (rule preservesI) (simp add: zoom_def gets_def)
  then show "preserves sw_clock (p_monotonic (sim_ports U))"
    "preserves sw_clock (p_now (sim_ports U))"
    by (simp_all add: sim_ports_def manual_monotonic_def manual_now_def)
qed (simp_all add: sim_ports_def preserves_on_sim_relay preserves_sim_uuid preserves_zoom
    preserves_gets)

interpretation sim_clocked: clocked_ports "sim_ports U" "\<lambda>w. mc_elapsed (sw_clock w)" for U
proof unfold_locales
  show "ports_keep (sim_ports U) (\<lambda>_. True) (\<lambda>w. t \<le> mc_elapsed (sw_clock w))" for t
    unfolding ports_keep_def
    by (intro conjI allI impI preserves_keeps_part [where f = sw_clock and
        Q = "\<lambda>c. t \<le> mc_elapsed c"] sim_ports_clock)
next
  show "mc_elapsed (sw_clock w) \<le> t \<and> t \<le> mc_elapsed (sw_clock w')"
    if "p_monotonic (sim_ports U) w = (Inr t, w')" for w t w'
    using that by (auto simp: sim_ports_def zoom_def manual_monotonic_def prog_simps)
qed

text \<open>A pending release ends at most \<open>release_seconds\<close> after the present reading of the clock.\<close>

lemma sim_deadline_bounded:
  assumes "(controller_step (sim_ports U) sim_environment)\<^sup>*\<^sup>* c c'" and "ct_deadline c = None"
    and "ct_deadline c' = Some d"
  shows "d \<le> sim_elapsed c' + ct_release_seconds c"
  unfolding sim_elapsed_def
  by (rule sim_clocked.deadline_bounded [OF _ assms]) (simp add: sim_environment_def)

section \<open>Symbolic runs of the simulated controller\<close>

lemma sim_ports_run [run_simps]:
  "p_monotonic (sim_ports U) = zoom sw_clock sw_clock_update manual_monotonic"
  "p_now (sim_ports U) = zoom sw_clock sw_clock_update manual_now"
  "p_uuid (sim_ports U) = sim_uuid U"
  "p_relay_setup (sim_ports U) = (\<lambda>n ch. on_sim_relay (\<lambda>t. simulated_setup t n ch))"
  "p_relay_command (sim_ports U) = (\<lambda>high. on_sim_relay (\<lambda>t. simulated_command t high))"
  "p_relay_cleanup (sim_ports U) = on_sim_relay simulated_cleanup"
  "p_audit_append (sim_ports U) = (\<lambda>ev. zoom sw_audit sw_audit_update (memory_append ev))"
  "p_enqueue (sim_ports U) = (\<lambda>ev. zoom sw_queue sw_queue_update (memory_enqueue ev))"
  "p_classify (sim_ports U) = (\<lambda>cred. gets (\<lambda>w. classify cred (sw_store w)))"
  by (simp_all add: sim_ports_def)

lemmas [run_simps] =
  manual_monotonic_def [THEN fun_cong] manual_now_def [THEN fun_cong] sim_uuid_def [THEN fun_cong]
  on_sim_relay_def [THEN fun_cong] simulated_setup_def [THEN fun_cong]
  simulated_command_def [THEN fun_cong] simulated_cleanup_def [THEN fun_cong]
  log_action_def [THEN fun_cong] memory_append_def [THEN fun_cong]
  memory_enqueue_def [THEN fun_cong] sim_initial_def sample_sim_world_def
  new_manual_clock_def epoch_2026_def new_simulated_relay_def known_record_def
  perform_all.simps

section \<open>Every release ends\<close>

text \<open>The clock of the simulation advances by \<open>t\<close>, as \<open>ManualClock.advance\<close> does it.\<close>

definition advanced :: "seconds \<Rightarrow> sim_world controller \<Rightarrow> sim_world controller" where
  "advanced t c = final (env (zoom sw_clock sw_clock_update (manual_advance t)) c)"

definition sim_aware :: "sim_world controller \<Rightarrow> bool" where
  "sim_aware c \<longleftrightarrow> aware (mc_wall_time (sw_clock (ct_env c)))"

lemma advanced_simps:
  assumes "0 \<le> t"
  shows "ct_state (advanced t c) = ct_state c" "ct_deadline (advanced t c) = ct_deadline c"
    "sim_elapsed (advanced t c) = sim_elapsed c + t" "sim_aware (advanced t c) = sim_aware c"
    "sim_high (advanced t c) = sim_high c"
    "ct_release_seconds (advanced t c) = ct_release_seconds c"
  using assms
  by (simp_all add: advanced_def env_def zoom_def manual_advance_def prog_simps sim_elapsed_def
      sim_aware_def sim_high_def)

text \<open>An expired release: the tick returns, and it commands LOW or faults.\<close>

lemma expired_tick:
  assumes "ct_state c = RELEASED" and "ct_deadline c = Some d" and "d \<le> sim_elapsed c"
    and "sim_aware c"
  shows "\<exists>c'. tick (sim_ports U) c = (Inr (), c') \<and>
    (ct_state c' = READY \<and> \<not> sim_high c' \<or>
     ct_state c' = FAULTED \<and>
       (sr_channel (sw_relay (ct_env c)) = None \<or> sr_fail_next_low (sw_relay (ct_env c))))"
  using assms
  by (cases "sr_channel (sw_relay (ct_env c))";
      cases "sr_fail_next_low (sw_relay (ct_env c))";
      auto simp: run_simps sim_elapsed_def sim_aware_def sim_high_def allowed_reasons_def
        cong: run_congs)

text \<open>
  Every simulated release ends: from any reachable released state, once the clock has advanced by
  the configured duration, the next tick returns, and it leaves the controller ready with the
  relay low, or faulted.
\<close>

lemma simulated_release_ends:
  assumes "(controller_step (sim_ports U) sim_environment)\<^sup>*\<^sup>* c c'"
    and "sim_agrees c" and "ct_deadline c = None" and "0 < ct_release_seconds c"
    and "ct_state c' = RELEASED" and "sim_aware c'" and "ct_release_seconds c \<le> t"
  shows "\<exists>c''. tick (sim_ports U) (advanced t c') = (Inr (), c'') \<and>
    (ct_state c'' = READY \<and> \<not> sim_high c'' \<or> ct_state c'' = FAULTED)"
proof -
  have t: "0 \<le> t" using assms(4,7) by simp
  have "sim_agrees c'" by (rule sim_reachable_agrees [OF assms(1,2)])
  then obtain d where d: "ct_deadline c' = Some d"
    using assms(5) by (auto simp: sim_agrees_def agrees_def)
  have "d \<le> sim_elapsed c' + ct_release_seconds c"
    by (rule sim_deadline_bounded [OF assms(1,3) d])
  then have "d \<le> sim_elapsed (advanced t c')" using assms(7) by (simp add: advanced_simps(3) t)
  then show ?thesis
    using expired_tick [of "advanced t c'" d U] assms(5,6) d by (auto simp: advanced_simps t)
qed

definition sim_released :: "sim_world controller" where
  "sim_released = perform_all (sim_ports decimal) [Start, Process known_record] sim_initial"

lemma sim_released_ok: "ct_state sim_released = RELEASED" "sim_aware sim_released"
  by (simp_all add: sim_released_def run_simps sim_aware_def cong: run_congs)

lemma sim_released_reachable:
  "(controller_step (sim_ports decimal) sim_environment)\<^sup>*\<^sup>* sim_initial sim_released"
  unfolding sim_released_def by (rule reachable_perform_all)

lemma simulated_release_ends_sample:
  "\<exists>c''. tick (sim_ports decimal) (advanced 3 sim_released) = (Inr (), c'') \<and>
    (ct_state c'' = READY \<and> \<not> sim_high c'' \<or> ct_state c'' = FAULTED)"
  by (rule simulated_release_ends [OF sim_released_reachable sim_initial_ok sim_released_ok])
    (simp add: sim_initial_def sample_controller_def)

end
