(* ===== verification/Access_Service.thy ===== *)
theory Access_Service
  imports Release_Deadlines
begin

text \<open>
  \<open>AccessService\<close> of \<open>application/access_service.py\<close>: the use cases above the controller. The
  object holds nothing but its controller, so its state is the controller's.
\<close>

datatype credential_source = PHYSICAL_READER | SIMULATOR | TEST | API_INJECTED_READER_EVENT

fun credential_source_value :: "credential_source \<Rightarrow> string" where
  "credential_source_value PHYSICAL_READER = ''physical_reader''"
| "credential_source_value SIMULATOR = ''simulator''"
| "credential_source_value TEST = ''test''"
| "credential_source_value API_INJECTED_READER_EVENT = ''api_injected_reader_event''"

record access_service_result =
  sr_authorized :: bool
  sr_authorization :: "authorization_outcome option"
  sr_malformed :: bool
  sr_controller_state :: controller_state
  sr_physical_release :: physical_release_status
  sr_relay_actuation_requested :: bool
  sr_relay_actuation_succeeded :: bool
  sr_source :: credential_source

definition access_result_dict :: "access_service_result \<Rightarrow> (string \<times> json) list" where
  "access_result_dict r =
     [(''authorized'', JBool (sr_authorized r)),
      (''authorization'', json_option (map_option outcome_value (sr_authorization r))),
      (''malformed'', JBool (sr_malformed r)),
      (''controller_state'', JStr (controller_state_value (sr_controller_state r))),
      (''physical_release'', JStr (release_status_value (sr_physical_release r))),
      (''relay_actuation_requested'', JBool (sr_relay_actuation_requested r)),
      (''relay_actuation_succeeded'', JBool (sr_relay_actuation_succeeded r)),
      (''source'', JStr (credential_source_value (sr_source r)))]"

text \<open>\<open>AccessService._map\<close>, with the state the controller has when it is called.\<close>

definition map_result ::
  "access_result \<Rightarrow> credential_source \<Rightarrow> bool \<Rightarrow> controller_state \<Rightarrow> access_service_result" where
  "map_result r source bad s =
     \<lparr>sr_authorized = (ar_authorization r = Some AUTHORIZED),
      sr_authorization = ar_authorization r,
      sr_malformed = bad,
      sr_controller_state = s,
      sr_physical_release = ar_release r,
      sr_relay_actuation_requested = (ar_release r = ASSERTED \<or> ar_release r = ACTUATION_FAILED),
      sr_relay_actuation_succeeded = (ar_release r = ASSERTED),
      sr_source = source\<rparr>"

text \<open>The delegations to the controller.\<close>

definition service_start :: "'w ports \<Rightarrow> ('w controller, unit) prog" where
  "service_start P = start P"

definition service_tick :: "'w ports \<Rightarrow> ('w controller, unit) prog" where
  "service_tick P = tick P"

definition service_recoverable_failure :: "'w ports \<Rightarrow> ('w controller, unit) prog" where
  "service_recoverable_failure P = recoverable_failure P"

definition service_shutdown :: "'w ports \<Rightarrow> ('w controller, unit) prog" where
  "service_shutdown P = shutdown P"

definition is_malformed :: "record_result \<Rightarrow> bool" where
  "is_malformed r = (case r of MalformedRecord _ \<Rightarrow> True | ParsedRecord _ \<Rightarrow> False)"

definition submit_record ::
  "'w ports \<Rightarrow> record_result \<Rightarrow> credential_source \<Rightarrow> ('w controller, access_service_result) prog" where
  "submit_record P r source =
     bnd (process P r) (\<lambda>x.
       with_self (\<lambda>c. ret (map_result x source (is_malformed r) (ct_state c))))"

definition submit_parsed_record ::
  "'w ports \<Rightarrow> string \<Rightarrow> credential_source \<Rightarrow> ('w controller, access_service_result) prog" where
  "submit_parsed_record P cred source = submit_record P (ParsedRecord cred) source"

definition submit_credential ::
  "'w ports \<Rightarrow> string \<Rightarrow> credential_source \<Rightarrow> ('w controller, access_service_result) prog" where
  "submit_credential P text source =
     (case parse_credential_identifier text of
        Inr record \<Rightarrow> submit_record P record source
      | Inl (ReaderRecordError why) \<Rightarrow> submit_record P (MalformedRecord why) source
      | Inl e \<Rightarrow> throw e)"

section \<open>What a result says\<close>

text \<open>
  The result of \<open>process\<close> and the state it leaves: \<open>s\<close> is the state before, \<open>t\<close> after.
\<close>

definition result_says ::
  "controller_state \<Rightarrow> access_result \<Rightarrow> controller_state \<Rightarrow> bool" where
  "result_says s r t \<longleftrightarrow>
     (case ar_release r of
        NOT_REQUESTED \<Rightarrow> ar_authorization r \<noteq> Some AUTHORIZED \<and> t = s
      | ASSERTED \<Rightarrow> ar_authorization r = Some AUTHORIZED \<and> s = READY \<and> t = RELEASED
      | ALREADY_RELEASED \<Rightarrow> ar_authorization r = Some AUTHORIZED \<and> s = RELEASED \<and> t = RELEASED
      | ACTUATION_FAILED \<Rightarrow> ar_authorization r = Some AUTHORIZED \<and> s = READY \<and> t = FAULTED)"

abbreviation in_state :: "controller_state \<Rightarrow> 'w controller \<Rightarrow> bool" where
  "in_state s \<equiv> (\<lambda>c. ct_state c \<in> {s})"

lemma triple_state:
  "keeps (in_state s) m \<Longrightarrow> triple (in_state s) m (\<lambda>_. in_state s) (\<lambda>_ _. True)"
  by (rule triple_conseq [OF triple_keeps]) (assumption | simp)+

lemma triple_any: "triple Q m (\<lambda>_ _. True) (\<lambda>_ _. True)"
  by (auto simp: triple_def split: prod.split sum.split)

lemma release_says:
  "triple (in_state READY) (release P) (\<lambda>r c. result_says READY r (ct_state c)) (\<lambda>_ _. True)"
proof -
  have set: "triple Q (set_state s) (\<lambda>_. in_state s) (\<lambda>_ _. True)" for Q and s :: controller_state
    unfolding set_state_def by (rule triple_modify) simp
  have high: "triple (in_state READY)
      (try_except is_exception (sq (command_relay P True) (ret True))
        (\<lambda>_. sq (audit P et sev corr) (bnd (attempt_safe_state P) (\<lambda>_. sq (set_state FAULTED) (ret False)))))
      (\<lambda>ok. in_state (if ok then READY else FAULTED)) (\<lambda>_ _. True)" for et sev corr
  proof (rule triple_try_except)
    show "triple (in_state READY) (sq (command_relay P True) (ret True))
        (\<lambda>ok. in_state (if ok then READY else FAULTED)) (\<lambda>_ _. True)"
      by (rule triple_sq [OF triple_state [OF state_command_relay] triple_ret]) simp
    show "triple (\<lambda>_. True) (sq (audit P et sev corr)
          (bnd (attempt_safe_state P) (\<lambda>_. sq (set_state FAULTED) (ret False))))
        (\<lambda>ok. in_state (if ok then READY else FAULTED)) (\<lambda>_ _. True)" for e :: exn
    proof (rule triple_sq [OF triple_any], rule triple_bnd [OF triple_any])
      show "triple (\<lambda>_. True) (sq (set_state FAULTED) (ret False))
          (\<lambda>ok. in_state (if ok then READY else FAULTED)) (\<lambda>_ _. True)"
        by (rule triple_sq [OF set triple_ret]) simp
    qed
  qed simp
  have begin_release: "triple (in_state READY)
      (bnd (env (p_monotonic P)) (\<lambda>t. sq (modify (ct_deadline_update (\<lambda>_. Some (t + k))))
         (sq (set_state RELEASED) (sq (audit P et sev corr)
            (ret (AccessResult (Some AUTHORIZED) ASSERTED))))))
      (\<lambda>r c. result_says READY r (ct_state c)) (\<lambda>_ _. True)" for et sev corr k
    by (rule triple_bnd [OF triple_any], rule triple_sq [OF triple_any],
        rule triple_sq [OF set triple_sq [OF triple_state [OF state_audit] triple_ret]])
      (simp add: result_says_def)
  show ?thesis
    unfolding release_def
  proof (rule triple_with_self, rule triple_pre, rule triple_bnd [OF high])
    fix c :: "'a controller" and ok
    show "triple (in_state (if ok then READY else FAULTED))
        (if \<not> ok then ret (AccessResult (Some AUTHORIZED) ACTUATION_FAILED)
         else bnd (env (p_monotonic P)) (\<lambda>t.
           sq (modify (ct_deadline_update (\<lambda>_. Some (t + ct_release_seconds c))))
             (sq (set_state RELEASED) (sq (audit P RELAY_ASSERTED SevInfo
                [(''duration_seconds'', JFloat (ct_release_seconds c))])
                (ret (AccessResult (Some AUTHORIZED) ASSERTED))))))
        (\<lambda>r c. result_says READY r (ct_state c)) (\<lambda>_ _. True)"
      using begin_release by (cases ok) (auto intro!: triple_ret simp: result_says_def)
  qed simp
qed

lemma respond_says:
  assumes "s = READY \<or> s = RELEASED"
  shows "triple (in_state s) (respond P outcome) (\<lambda>r c. result_says s r (ct_state c)) (\<lambda>_ _. True)"
proof -
  have refused: "triple (in_state s)
      (sq (audit P et sev corr) (sq (record_suspicious_activity P)
         (ret (AccessResult (Some outcome) NOT_REQUESTED))))
      (\<lambda>r c. result_says s r (ct_state c)) (\<lambda>_ _. True)"
    if "outcome \<noteq> AUTHORIZED" for et sev corr
    by (intro triple_sq [OF triple_state [OF state_audit]] triple_sq [OF triple_state [OF state_suspicious]]
        triple_ret) (use that in \<open>simp add: result_says_def\<close>)
  have authorized: "triple (in_state s)
      (with_self (\<lambda>c. if ct_state c = RELEASED then ret (AccessResult (Some AUTHORIZED) ALREADY_RELEASED)
         else release P)) (\<lambda>r c. result_says s r (ct_state c)) (\<lambda>_ _. True)"
  proof (rule triple_with_self)
    fix c :: "'a controller" assume "in_state s c"
    then show "triple (\<lambda>t. t = c \<and> in_state s t)
        (if ct_state c = RELEASED then ret (AccessResult (Some AUTHORIZED) ALREADY_RELEASED)
         else release P) (\<lambda>r c. result_says s r (ct_state c)) (\<lambda>_ _. True)"
    proof (cases "s = RELEASED")
      case True
      then show ?thesis using \<open>in_state s c\<close> by (auto intro!: triple_ret simp: result_says_def)
    next
      case False
      then have "s = READY" using assms by simp
      then show ?thesis using \<open>in_state s c\<close> by (auto intro!: triple_pre [OF release_says])
    qed
  qed
  show ?thesis
  proof (cases "outcome = AUTHORIZED")
    case True
    show ?thesis
      unfolding respond_def True
      by (simp only: authorization_outcome.distinct if_False)
        (rule triple_sq [OF triple_state [OF state_audit] authorized])
  next
    case False
    have "outcome = DENIED \<or> outcome = UNKNOWN" using False by (cases outcome) auto
    then show ?thesis
      unfolding respond_def using refused [OF False] by (elim disjE) simp_all
  qed
qed

lemma process_says:
  assumes "process P r c = (Inr x, c')"
  shows "result_says (ct_state c) x (ct_state c')"
proof -
  let ?s = "ct_state c"
  have s: "?s = READY \<or> ?s = RELEASED"
    using assms by (auto simp: process_def with_self_def throw_def split: if_splits)
  show ?thesis
  proof (cases r)
    case (MalformedRecord why)
    have "triple (in_state ?s) (sq (audit P et sev corr) (sq (record_suspicious_activity P)
        (ret (AccessResult None NOT_REQUESTED)))) (\<lambda>r c. result_says ?s r (ct_state c)) (\<lambda>_ _. True)"
      for et sev corr
      by (intro triple_sq [OF triple_state [OF state_audit]]
          triple_sq [OF triple_state [OF state_suspicious]] triple_ret) (simp add: result_says_def)
    then show ?thesis
      using triple_returns assms MalformedRecord s
      by (fastforce simp: process_def with_self_def)
  next
    case (ParsedRecord cred)
    have m: "triple (in_state ?s) (modify (ct_last_processed_update f)) (\<lambda>_. in_state ?s) (\<lambda>_ _. True)"
      for f by (rule triple_modify) simp
    have "triple (in_state ?s) (process_parsed P cred) (\<lambda>r c. result_says ?s r (ct_state c)) (\<lambda>_ _. True)"
      unfolding process_parsed_def
      by (intro triple_bnd [OF triple_state [OF state_env]] triple_sq [OF m] respond_says s)
    then show ?thesis
      using triple_returns assms ParsedRecord s
      by (fastforce simp: process_def with_self_def)
  qed
qed

lemma respond_authorization:
  "triple (\<lambda>_. True) (respond P outcome) (\<lambda>r _. ar_authorization r = Some outcome) (\<lambda>_ _. True)"
proof -
  have release: "triple (\<lambda>_. True) (release P) (\<lambda>r _. ar_authorization r = Some AUTHORIZED) (\<lambda>_ _. True)"
    unfolding release_def
    by (intro triple_with_self triple_pre [OF triple_bnd [OF triple_any]] triple_if triple_ret
        triple_bnd [OF triple_any] triple_sq [OF triple_any]) simp_all
  have other: "triple (\<lambda>_. True) (sq m (sq n (ret (AccessResult (Some outcome) status))))
      (\<lambda>r _. ar_authorization r = Some outcome) (\<lambda>_ _. True)"
    for m n :: "('a controller, unit) prog" and status
    by (intro triple_sq [OF triple_any] triple_ret) simp
  have last: "triple (\<lambda>_. True) (with_self (\<lambda>c. if ct_state c = RELEASED
        then ret (AccessResult (Some AUTHORIZED) ALREADY_RELEASED) else release P))
      (\<lambda>r _. ar_authorization r = Some AUTHORIZED) (\<lambda>_ _. True)"
    by (intro triple_with_self triple_if triple_ret triple_pre [OF release]) simp_all
  show ?thesis
  proof (cases "outcome = AUTHORIZED")
    case True
    show ?thesis
      unfolding respond_def True
      by (simp only: authorization_outcome.distinct if_False) (rule triple_sq [OF triple_any last])
  next
    case False
    then have "outcome = DENIED \<or> outcome = UNKNOWN" by (cases outcome) auto
    then show ?thesis unfolding respond_def using other by (elim disjE) simp_all
  qed
qed

text \<open>The authorization of a result is the outcome of the classification.\<close>

lemma process_authorization:
  assumes "p_classify P cred (ct_env c) = (Inr outcome, w)"
    and "process P (ParsedRecord cred) c = (Inr x, c')"
  shows "ar_authorization x = Some outcome"
proof -
  have "after_classify P outcome (c\<lparr>ct_env := w\<rparr>) = (Inr x, c')"
    using assms by (auto simp: process_ParsedRecord split: if_splits)
  moreover have "triple (\<lambda>_. True) (after_classify P outcome)
      (\<lambda>r _. ar_authorization r = Some outcome) (\<lambda>_ _. True)"
    unfolding after_classify_def
    by (intro triple_bnd [OF triple_any] triple_sq [OF triple_any] respond_authorization)
  ultimately show ?thesis using triple_returns by fast
qed

lemma process_malformed_authorization:
  assumes "process P (MalformedRecord why) c = (Inr x, c')"
  shows "x = AccessResult None NOT_REQUESTED"
proof -
  have "triple (\<lambda>_. True) (sq m (sq n (ret (AccessResult None NOT_REQUESTED))))
      (\<lambda>r _. r = AccessResult None NOT_REQUESTED) (\<lambda>_ _. True)" for m n :: "('a controller, unit) prog"
    by (intro triple_sq [OF triple_any] triple_ret) simp
  from triple_returns [OF this] assms show ?thesis
    by (auto simp: process_def with_self_def throw_def split: if_splits)
qed

lemma submit_recordE:
  assumes "submit_record P r source c = (Inr x, c')"
  obtains y where "process P r c = (Inr y, c')"
    and "x = map_result y source (is_malformed r) (ct_state c')"
  using assms by (auto simp: submit_record_def bnd_def with_self_def ret_def split: prod.splits sum.splits)

text \<open>
  C32. For a controller that agrees with its relay before the call, as it does when every call so
  far has returned, a result of the access service tells the truth about the door. An asserted
  release was authorized, began at a ready controller, the pin is high, and the deadline is
  \<open>release_seconds\<close> after a reading of the monotonic clock taken during the call; an already
  released door is high and keeps its pending deadline; a failed actuation left the controller
  faulted, without a deadline; without a request state, deadline and pin are unchanged. The
  reported controller state is the present one, and the two flags agree with the status.
\<close>

theorem service_result_tells_the_truth:
  assumes "gpio_contract D pin" and "hw_agrees pin c"
    and "submit_record (hw_ports D U) r source c = (Inr x, c')"
  shows "sr_controller_state x = ct_state c' \<and>
    (case sr_physical_release x of
       ASSERTED \<Rightarrow> sr_authorized x \<and> sr_relay_actuation_succeeded x \<and> ct_state c = READY \<and>
         ct_state c' = RELEASED \<and> hw_pin pin c' \<and>
         (\<exists>t. hw_time (ct_env c) \<le> t \<and> t \<le> hw_time (ct_env c') \<and>
            ct_deadline c' = Some (t + ct_release_seconds c))
     | ALREADY_RELEASED \<Rightarrow> sr_authorized x \<and> \<not> sr_relay_actuation_requested x \<and>
         ct_state c = RELEASED \<and> ct_state c' = RELEASED \<and> hw_pin pin c' \<and>
         ct_deadline c' = ct_deadline c \<and> ct_deadline c' \<noteq> None
     | ACTUATION_FAILED \<Rightarrow> sr_authorized x \<and> sr_relay_actuation_requested x \<and>
         \<not> sr_relay_actuation_succeeded x \<and> ct_state c' = FAULTED \<and> ct_deadline c' = None
     | NOT_REQUESTED \<Rightarrow> \<not> sr_authorized x \<and> \<not> sr_relay_actuation_requested x \<and>
         ct_state c' = ct_state c \<and> ct_deadline c' = ct_deadline c \<and> hw_pin pin c' = hw_pin pin c)"
proof -
  obtain y where run: "process (hw_ports D U) r c = (Inr y, c')"
      and x: "x = map_result y source (is_malformed r) (ct_state c')"
    using assms(3) by (rule submit_recordE)
  have "perform (hw_ports D U) (Process r) c = (Inr (), c')"
    using run by (simp add: bnd_def skip_def)
  then have agrees: "hw_agrees pin c'"
    by (rule gpio_contract.hw_perform_agrees [OF assms(1,2)])
  have serving: "ct_state c = READY \<or> ct_state c = RELEASED"
    using run by (auto simp: process_def with_self_def throw_def split: if_splits)
  have says: "result_says (ct_state c) y (ct_state c')" by (rule process_says [OF run])
  note deadline = hw_release.process_deadline_says [OF run]
  show ?thesis
  proof (cases "ar_release y")
    case NOT_REQUESTED
    then show ?thesis using says deadline serving agrees assms(2)
      by (auto simp: x map_result_def result_says_def deadline_says_def hw_agrees_def agrees_def)
  qed (use says deadline agrees assms(2) in
      \<open>auto simp: x map_result_def result_says_def deadline_says_def hw_agrees_def agrees_def\<close>)
qed

lemma service_run:
  "submit_record sample_ports known_record PHYSICAL_READER hw_ready =
    (Inr (map_result (AccessResult (Some AUTHORIZED) ASSERTED) PHYSICAL_READER False RELEASED),
     final (submit_record sample_ports known_record PHYSICAL_READER hw_ready))"
  by (rule returns_pair)
    (simp add: submit_record_def [THEN fun_cong] run_simps known_record_def is_malformed_def
      cong: run_congs)

lemma service_result_tells_the_truth_witness:
  "sr_controller_state (map_result (AccessResult (Some AUTHORIZED) ASSERTED) PHYSICAL_READER False RELEASED)
     = ct_state (final (submit_record sample_ports known_record PHYSICAL_READER hw_ready)) \<and>
   (let x = map_result (AccessResult (Some AUTHORIZED) ASSERTED) PHYSICAL_READER False RELEASED;
        c' = final (submit_record sample_ports known_record PHYSICAL_READER hw_ready)
    in case sr_physical_release x of
       ASSERTED \<Rightarrow> sr_authorized x \<and> sr_relay_actuation_succeeded x \<and> ct_state hw_ready = READY \<and>
         ct_state c' = RELEASED \<and> hw_pin rg_pin c' \<and>
         (\<exists>t. hw_time (ct_env hw_ready) \<le> t \<and> t \<le> hw_time (ct_env c') \<and>
            ct_deadline c' = Some (t + ct_release_seconds hw_ready))
     | ALREADY_RELEASED \<Rightarrow> sr_authorized x \<and> \<not> sr_relay_actuation_requested x \<and>
         ct_state hw_ready = RELEASED \<and> ct_state c' = RELEASED \<and> hw_pin rg_pin c' \<and>
         ct_deadline c' = ct_deadline hw_ready \<and> ct_deadline c' \<noteq> None
     | ACTUATION_FAILED \<Rightarrow> sr_authorized x \<and> sr_relay_actuation_requested x \<and>
         \<not> sr_relay_actuation_succeeded x \<and> ct_state c' = FAULTED \<and> ct_deadline c' = None
     | NOT_REQUESTED \<Rightarrow> \<not> sr_authorized x \<and> \<not> sr_relay_actuation_requested x \<and>
         ct_state c' = ct_state hw_ready \<and> ct_deadline c' = ct_deadline hw_ready \<and> hw_pin rg_pin c' = hw_pin rg_pin hw_ready)"
  unfolding Let_def
  by (rule service_result_tells_the_truth [OF recording.gpio_contract_axioms hw_ready_ok(3) service_run])

text \<open>
  A submitted text is authorized exactly when it is a well-formed identifier that the loaded
  authorizations allow, and it is reported as malformed exactly when it is not well-formed.
\<close>

theorem submit_credential_authorizes:
  assumes "submit_credential (hw_ports D U) text source c = (Inr x, c')"
  shows "(sr_authorized x \<longleftrightarrow> parse_credential_identifier text = Inr (ParsedRecord text) \<and>
      classify text (hw_store (ct_env c)) = AUTHORIZED) \<and>
    (sr_malformed x \<longleftrightarrow> parse_credential_identifier text \<noteq> Inr (ParsedRecord text))"
proof (cases "parse_credential_identifier text = Inr (ParsedRecord text)")
  case True
  then have "submit_record (hw_ports D U) (ParsedRecord text) source c = (Inr x, c')"
    using assms by (simp add: submit_credential_def)
  then obtain y where run: "process (hw_ports D U) (ParsedRecord text) c = (Inr y, c')"
      and x: "x = map_result y source (is_malformed (ParsedRecord text)) (ct_state c')"
    by (rule submit_recordE)
  have "p_classify (hw_ports D U) text (ct_env c) =
      (Inr (classify text (hw_store (ct_env c))), ct_env c)"
    by (simp add: hw_ports_def gets_def)
  from process_authorization [OF this run] True show ?thesis
    by (auto simp: x map_result_def is_malformed_def)
next
  case False
  then have "parse_credential_identifier text = Inl (ReaderRecordError ''invalid_identifier'')"
    by (auto simp: parse_credential_identifier_def split: if_splits)
  then have "submit_record (hw_ports D U) (MalformedRecord ''invalid_identifier'') source c = (Inr x, c')"
    using assms by (simp add: submit_credential_def)
  then obtain y where run: "process (hw_ports D U) (MalformedRecord ''invalid_identifier'') c = (Inr y, c')"
      and x: "x = map_result y source (is_malformed (MalformedRecord ''invalid_identifier'')) (ct_state c')"
    by (rule submit_recordE)
  from process_malformed_authorization [OF run] False show ?thesis
    by (auto simp: x map_result_def is_malformed_def)
qed

lemma sample_identifier: "parse_credential_identifier ''0102030405'' = Inr (ParsedRecord ''0102030405'')"
  by code_simp

lemma submit_credential_run:
  "submit_credential sample_ports ''0102030405'' TEST hw_ready =
    (Inr (map_result (AccessResult (Some AUTHORIZED) ASSERTED) TEST False RELEASED),
     final (submit_credential sample_ports ''0102030405'' TEST hw_ready))"
  by (rule returns_pair)
    (simp add: submit_credential_def sample_identifier submit_record_def [THEN fun_cong] run_simps
      is_malformed_def cong: run_congs)

lemma submit_credential_authorizes_witness:
  "(sr_authorized (map_result (AccessResult (Some AUTHORIZED) ASSERTED) TEST False RELEASED) \<longleftrightarrow>
     parse_credential_identifier ''0102030405'' = Inr (ParsedRecord ''0102030405'') \<and>
     classify ''0102030405'' (hw_store (ct_env hw_ready)) = AUTHORIZED) \<and>
   (sr_malformed (map_result (AccessResult (Some AUTHORIZED) ASSERTED) TEST False RELEASED) \<longleftrightarrow>
     parse_credential_identifier ''0102030405'' \<noteq> Inr (ParsedRecord ''0102030405''))"
  by (rule submit_credential_authorizes [OF submit_credential_run])

end
