(* ===== verification/Reader_Discovery.thy ===== *)
theory Reader_Discovery
  imports Prelude "HOL-Library.Multiset"
begin

text \<open>
  Identity matching, discovery and the backoff policy of \<open>reader.py\<close>. A \<open>Path\<close> is its text.
\<close>

section \<open>Identities and devices\<close>

record reader_identity =
  ri_by_id_path :: "string option"
  ri_vid :: "int option"
  ri_pid :: "int option"
  ri_serial_number :: "string option"
  ri_manufacturer :: "string option"
  ri_product :: "string option"

text \<open>\<open>ReaderIdentity.__post_init__\<close>.\<close>

definition check_identity :: "reader_identity \<Rightarrow> exn + reader_identity" where
  "check_identity i =
     (if ri_by_id_path i = None \<and> (ri_vid i = None \<or> ri_pid i = None)
      then Inl (ValueError ''reader identity requires by-id path or VID/PID'')
      else Inr i)"

record serial_device =
  sd_path :: string
  sd_by_id_path :: "string option"
  sd_vid :: "int option"
  sd_pid :: "int option"
  sd_serial_number :: "string option"
  sd_manufacturer :: "string option"
  sd_product :: "string option"

definition admits :: "string option \<Rightarrow> string option \<Rightarrow> bool" where
  "admits expected actual \<longleftrightarrow> expected = None \<or> expected = actual"

definition device_matches :: "serial_device \<Rightarrow> reader_identity \<Rightarrow> bool" where
  "device_matches d i =
     (let path_matches = (ri_by_id_path i \<noteq> None \<and> sd_by_id_path d = ri_by_id_path i)
      in if ri_vid i = None \<or> ri_pid i = None then path_matches
         else if sd_vid d \<noteq> ri_vid i \<or> sd_pid d \<noteq> ri_pid i then False
         else admits (ri_serial_number i) (sd_serial_number d) \<and>
              admits (ri_manufacturer i) (sd_manufacturer d) \<and>
              admits (ri_product i) (sd_product d))"

section \<open>Discovery\<close>

datatype discovery_status = FOUND | NOT_FOUND | AMBIGUOUS

record discovery_result =
  dr_status :: discovery_status
  dr_device :: "serial_device option"
  dr_unrelated_count :: int

definition discover_reader :: "serial_device list \<Rightarrow> reader_identity \<Rightarrow> discovery_result" where
  "discover_reader devices i =
     (let found = filter (\<lambda>d. device_matches d i) devices
      in case found of
           [] \<Rightarrow> \<lparr>dr_status = NOT_FOUND, dr_device = None, dr_unrelated_count = int (length devices)\<rparr>
         | [d] \<Rightarrow> \<lparr>dr_status = FOUND, dr_device = Some d,
                   dr_unrelated_count = int (length devices) - 1\<rparr>
         | _ \<Rightarrow> \<lparr>dr_status = AMBIGUOUS, dr_device = None,
                 dr_unrelated_count = int (length devices) - int (length found)\<rparr>)"

lemma discover_reader_single:
  "dr_status (discover_reader devices i) = FOUND \<longleftrightarrow>
     (\<exists>d. filter (\<lambda>d. device_matches d i) devices = [d] \<and>
        dr_device (discover_reader devices i) = Some d)"
  by (auto simp: discover_reader_def Let_def split: list.splits)

lemma discover_reader_device:
  "dr_device (discover_reader devices i) \<noteq> None \<longleftrightarrow> dr_status (discover_reader devices i) = FOUND"
  by (auto simp: discover_reader_def Let_def split: list.splits)

lemma discovered_device:
  "dr_device (discover_reader devices i) = Some d \<Longrightarrow> d \<in> set devices \<and> device_matches d i"
proof -
  assume "dr_device (discover_reader devices i) = Some d"
  then have "filter (\<lambda>d. device_matches d i) devices = [d]"
    by (auto simp: discover_reader_def Let_def split: list.splits)
  then have "d \<in> set (filter (\<lambda>d. device_matches d i) devices)" by simp
  then show ?thesis by simp
qed

text \<open>
  The declarative reading of discovery, on the multiset of the devices: how many match decides
  the status, and a single match is the device found.
\<close>

definition discovery_spec :: "serial_device multiset \<Rightarrow> reader_identity \<Rightarrow> discovery_result \<Rightarrow> bool" where
  "discovery_spec ds i r \<longleftrightarrow>
     (let matching = filter_mset (\<lambda>d. device_matches d i) ds
      in dr_status r = (if size matching = 0 then NOT_FOUND
                        else if size matching = 1 then FOUND else AMBIGUOUS) \<and>
         (case dr_device r of
            None \<Rightarrow> size matching \<noteq> 1
          | Some d \<Rightarrow> matching = {#d#}) \<and>
         dr_unrelated_count r = int (size (ds - matching)))"

lemma size_unrelated: "size (ds - filter_mset p ds) = size ds - size (filter_mset p ds)"
  by (simp add: size_Diff_submset)

text \<open>
  C38. Discovery computes its declarative reading. It depends on the set of attached devices
  with their multiplicity only, never on the order in which they are enumerated.
\<close>

theorem discovery_ignores_order:
  "discovery_spec (mset devices) i r \<longleftrightarrow> r = discover_reader devices i"
proof -
  define found where "found = filter (\<lambda>d. device_matches d i) devices"
  have m: "filter_mset (\<lambda>d. device_matches d i) (mset devices) = mset found"
    by (simp add: found_def)
  have le: "length found \<le> length devices" by (simp add: found_def)
  have rest: "int (size (mset devices - mset found)) = int (length devices) - int (length found)"
    using size_unrelated [of "mset devices" "\<lambda>d. device_matches d i"] le by (simp add: m of_nat_diff)
  show ?thesis
  proof (cases found)
    case Nil
    then show ?thesis using rest
      by (cases r) (auto simp: discovery_spec_def discover_reader_def m found_def [symmetric]
          split: option.splits)
  next
    case (Cons d ds)
    show ?thesis
    proof (cases ds)
      case Nil
      then show ?thesis using rest Cons
        by (cases r) (auto simp: discovery_spec_def discover_reader_def m found_def [symmetric]
            split: option.splits)
    next
      case (Cons d' ds')
      then show ?thesis using rest \<open>found = d # ds\<close>
        by (cases r) (auto simp: discovery_spec_def discover_reader_def m found_def [symmetric]
            split: option.splits)
    qed
  qed
qed

text \<open>The path is ignored as soon as the identity gives vendor and product.\<close>

lemma path_ignored_with_vid_pid:
  "ri_vid i \<noteq> None \<Longrightarrow> ri_pid i \<noteq> None \<Longrightarrow>
   device_matches d i = device_matches d (i\<lparr>ri_by_id_path := p\<rparr>)"
  by (auto simp: device_matches_def)

section \<open>Backoff\<close>

record backoff_policy =
  bp_minimum :: seconds
  bp_maximum :: seconds
  bp_jitter :: seconds

definition default_backoff :: backoff_policy where
  "default_backoff = \<lparr>bp_minimum = 1, bp_maximum = 30, bp_jitter = 0\<rparr>"

text \<open>\<open>BackoffPolicy.__post_init__\<close>.\<close>

definition check_backoff :: "backoff_policy \<Rightarrow> exn + backoff_policy" where
  "check_backoff p =
     (if bp_minimum p \<le> 0 \<or> bp_maximum p < bp_minimum p
      then Inl (ValueError ''invalid backoff bounds'')
      else if \<not> (0 \<le> bp_jitter p \<and> bp_jitter p \<le> 1)
      then Inl (ValueError ''jitter must be between zero and one'')
      else Inr p)"

text \<open>
  \<open>self.minimum * (2 ** n)\<close> converts the integer to a float first, which raises
  \<open>OverflowError\<close> from \<open>2 ** 1024\<close> on. The product itself may become infinite without an
  exception; \<open>min\<close> with the finite maximum then yields the maximum, as the exact product does.
\<close>

definition backoff_base :: "backoff_policy \<Rightarrow> int \<Rightarrow> exn + seconds" where
  "backoff_base p attempt =
     (let n = nat (max 0 (attempt - 1))
      in if 1024 \<le> n then Inl (OtherError ''int too large to convert to float'')
         else Inr (min (bp_maximum p) (bp_minimum p * 2 ^ n)))"

definition backoff_delay :: "backoff_policy \<Rightarrow> int \<Rightarrow> seconds \<Rightarrow> exn + seconds" where
  "backoff_delay p attempt random_unit =
     (case backoff_base p attempt of
        Inl e \<Rightarrow> Inl e
      | Inr base \<Rightarrow>
          let spread = base * bp_jitter p in Inr (base - spread + 2 * spread * random_unit))"

definition backoff_ok :: "backoff_policy \<Rightarrow> bool" where
  "backoff_ok p \<longleftrightarrow> check_backoff p = Inr p"

lemma backoff_okD:
  assumes "backoff_ok p"
  shows "0 < bp_minimum p" "bp_minimum p \<le> bp_maximum p" "0 \<le> bp_jitter p" "bp_jitter p \<le> 1"
  using assms by (auto simp: backoff_ok_def check_backoff_def split: if_splits)

lemma backoff_base_bounds:
  assumes "backoff_ok p" and "backoff_base p attempt = Inr b"
  shows "bp_minimum p \<le> b" "b \<le> bp_maximum p"
proof -
  have "(1::seconds) \<le> 2 ^ n" for n by simp
  then have "bp_minimum p \<le> bp_minimum p * 2 ^ n" for n
    using backoff_okD(1) [OF assms(1)] by simp
  then show "bp_minimum p \<le> b"
    using assms(2) backoff_okD(2) [OF assms(1)]
    by (auto simp: backoff_base_def Let_def split: if_splits)
  show "b \<le> bp_maximum p"
    using assms(2) by (auto simp: backoff_base_def Let_def split: if_splits)
qed

lemma backoff_delay_Inl: "backoff_delay p attempt u = Inl e \<Longrightarrow> 1025 \<le> attempt"
  by (auto simp: backoff_delay_def backoff_base_def Let_def split: sum.splits if_splits)

text \<open>
  C39. Every delay the backoff policy computes lies between the minimum less the jitter and the
  maximum plus the jitter; it is never negative; and without jitter it lies between the
  configured bounds.
\<close>

theorem backoff_delay_bounded:
  assumes "backoff_ok p" and "0 \<le> u" and "u \<le> 1" and "backoff_delay p attempt u = Inr d"
  shows "bp_minimum p * (1 - bp_jitter p) \<le> d \<and> d \<le> bp_maximum p * (1 + bp_jitter p) \<and> 0 \<le> d"
proof -
  note p = backoff_okD [OF assms(1)]
  obtain b where b: "backoff_base p attempt = Inr b"
      and d: "d = b - b * bp_jitter p + 2 * (b * bp_jitter p) * u"
    using assms(4) by (auto simp: backoff_delay_def Let_def split: sum.splits)
  note bounds = backoff_base_bounds [OF assms(1) b]
  have b0: "0 \<le> b" using bounds(1) p(1) by simp
  have s0: "0 \<le> b * bp_jitter p" using b0 p(3) by simp
  have "0 \<le> 2 * (b * bp_jitter p) * u" using s0 assms(2) by simp
  then have low: "b * (1 - bp_jitter p) \<le> d" by (simp add: d algebra_simps)
  have "(b * bp_jitter p) * u \<le> b * bp_jitter p" using s0 assms(3) by (simp add: mult_left_le)
  then have high: "d \<le> b * (1 + bp_jitter p)" by (simp add: d algebra_simps)
  have "bp_minimum p * (1 - bp_jitter p) \<le> b * (1 - bp_jitter p)"
    using bounds(1) p(4) by (simp add: mult_right_mono)
  moreover have "b * (1 + bp_jitter p) \<le> bp_maximum p * (1 + bp_jitter p)"
    using bounds(2) p(3) by (simp add: mult_right_mono)
  moreover have "0 \<le> bp_minimum p * (1 - bp_jitter p)" using p(1,4) by simp
  ultimately show ?thesis using low high by linarith
qed

lemma backoff_delay_bounded_witness:
  "bp_minimum default_backoff * (1 - bp_jitter default_backoff) \<le> 4 \<and>
   4 \<le> bp_maximum default_backoff * (1 + bp_jitter default_backoff) \<and> (0::seconds) \<le> 4"
  by (rule backoff_delay_bounded [where attempt = 3 and u = "1 / 2"]) code_simp+

text \<open>
  The policy fails exactly from the 1025th consecutive attempt on: \<open>delay\<close> raises
  \<open>OverflowError\<close> for every larger attempt number, whatever the bounds are.
\<close>

lemma backoff_overflows:
  "(\<exists>e. backoff_delay p attempt u = Inl e) \<longleftrightarrow> 1025 \<le> attempt"
  by (auto simp: backoff_delay_def backoff_base_def Let_def split: sum.splits)

end
