(* ===== verification/Reader_Supervisor.thy ===== *)
theory Reader_Supervisor
  imports Reader_Stream Reader_Discovery
begin

text \<open>
  \<open>ReaderSupervisor\<close> of \<open>reader.py\<close>: the connection life cycle over the callables it is given.
  The state behind the callables is the field \<open>sv_env\<close>; \<open>emit\<close> and \<open>wait\<close> run on the whole
  object, because the callbacks the program passes read the supervisor's health.
\<close>

section \<open>Events and health\<close>

datatype reader_event_type =
    Connecting | Connected | NotFound | IdentityAmbiguous | OpenFailed | ReadFailed
  | Disconnected | ReconnectScheduled | ReconnectRepeatedlyFailed | Recovered
  | RecordReceived | RecordMalformed

fun reader_event_value :: "reader_event_type \<Rightarrow> string" where
  "reader_event_value Connecting = ''reader_connecting''"
| "reader_event_value Connected = ''reader_connected''"
| "reader_event_value NotFound = ''reader_not_found''"
| "reader_event_value IdentityAmbiguous = ''reader_identity_ambiguous''"
| "reader_event_value OpenFailed = ''reader_open_failed''"
| "reader_event_value ReadFailed = ''reader_read_failed''"
| "reader_event_value Disconnected = ''reader_disconnected''"
| "reader_event_value ReconnectScheduled = ''reconnect_scheduled''"
| "reader_event_value ReconnectRepeatedlyFailed = ''reconnect_repeatedly_failed''"
| "reader_event_value Recovered = ''reader_recovered''"
| "reader_event_value RecordReceived = ''reader_record_received''"
| "reader_event_value RecordMalformed = ''reader_record_malformed''"

datatype reader_health_state = HealthConnecting | HealthReady | HealthDegraded | HealthStopped

fun reader_health_value :: "reader_health_state \<Rightarrow> string" where
  "reader_health_value HealthConnecting = ''connecting''"
| "reader_health_value HealthReady = ''ready''"
| "reader_health_value HealthDegraded = ''degraded''"
| "reader_health_value HealthStopped = ''stopped''"

record reader_event =
  re_event_type :: reader_event_type
  re_attempt :: int
  re_backoff_seconds :: "seconds option"
  re_unrelated_count :: int

text \<open>\<open>ReaderEvent(t, attempt)\<close> with the other fields at their defaults.\<close>

definition event_at :: "reader_event_type \<Rightarrow> int \<Rightarrow> reader_event" where
  "event_at t attempt =
     \<lparr>re_event_type = t, re_attempt = attempt, re_backoff_seconds = None, re_unrelated_count = 0\<rparr>"

record reader_snapshot =
  rn_connected :: bool
  rn_health_state :: reader_health_state
  rn_last_record_age :: "seconds option"

section \<open>The object and its callables\<close>

text \<open>A session is known by a handle; an opener may return an object that is no session.\<close>

datatype opened = UsableSession nat | UnusableSession

record 'e supervisor =
  sv_identity :: reader_identity
  sv_backoff :: backoff_policy
  sv_threshold :: int
  sv_session :: "nat option"
  sv_attempt :: int
  sv_had_connection :: bool
  sv_repeated_emitted :: bool
  sv_last_record_at :: "seconds option"
  sv_health_state :: reader_health_state
  sv_env :: 'e

record 'e reader_calls =
  rc_enumerate :: "('e, serial_device list) prog"
  rc_open :: "string \<Rightarrow> ('e, opened) prog"
  rc_read :: "nat \<Rightarrow> ('e, byte list) prog"
  rc_close :: "nat \<Rightarrow> ('e, unit) prog"
  rc_random :: "('e, seconds) prog"
  rc_monotonic :: "('e, seconds) prog option"
  rc_emit :: "reader_event \<Rightarrow> ('e supervisor, unit) prog"
  rc_wait :: "seconds \<Rightarrow> ('e supervisor, bool) prog"

definition world :: "('e, 'a) prog \<Rightarrow> ('e supervisor, 'a) prog" where
  "world m = zoom sv_env sv_env_update m"

text \<open>\<open>ReaderSupervisor.__init__\<close>.\<close>

definition new_supervisor ::
  "reader_identity \<Rightarrow> backoff_policy option \<Rightarrow> int \<Rightarrow> 'e \<Rightarrow> exn + 'e supervisor" where
  "new_supervisor i backoff threshold e =
     (if threshold \<le> 0 then Inl (ValueError ''repeated failure threshold must be positive'')
      else Inr \<lparr>sv_identity = i,
                sv_backoff = (case backoff of None \<Rightarrow> default_backoff | Some p \<Rightarrow> p),
                sv_threshold = threshold, sv_session = None, sv_attempt = 0,
                sv_had_connection = False, sv_repeated_emitted = False,
                sv_last_record_at = None, sv_health_state = HealthDegraded, sv_env = e\<rparr>)"

definition connected :: "'e supervisor \<Rightarrow> bool" where
  "connected s \<longleftrightarrow> sv_session s \<noteq> None"

definition last_record_age :: "'e reader_calls \<Rightarrow> ('e supervisor, seconds option) prog" where
  "last_record_age C =
     with_self (\<lambda>s.
       case sv_last_record_at s of
         None \<Rightarrow> ret None
       | Some since \<Rightarrow>
           (case rc_monotonic C of
              None \<Rightarrow> ret None
            | Some m \<Rightarrow> bnd (world m) (\<lambda>now. ret (Some (now - since)))))"

definition supervisor_snapshot :: "'e reader_calls \<Rightarrow> ('e supervisor, reader_snapshot) prog" where
  "supervisor_snapshot C =
     with_self (\<lambda>s.
       bnd (last_record_age C) (\<lambda>age.
         ret \<lparr>rn_connected = connected s, rn_health_state = sv_health_state s,
              rn_last_record_age = age\<rparr>))"

section \<open>Connecting\<close>

text \<open>\<open>self._emit(ReaderEvent(t, self._attempt, backoff, unrelated))\<close>.\<close>

definition emit_attempt ::
  "'e reader_calls \<Rightarrow> reader_event_type \<Rightarrow> seconds option \<Rightarrow> int \<Rightarrow> ('e supervisor, unit) prog" where
  "emit_attempt C t backoff unrelated =
     with_self (\<lambda>s. rc_emit C
       \<lparr>re_event_type = t, re_attempt = sv_attempt s, re_backoff_seconds = backoff,
        re_unrelated_count = unrelated\<rparr>)"

text \<open>The \<open>try\<close> block around the opener: whether a session was opened.\<close>

definition open_session :: "'e reader_calls \<Rightarrow> serial_device \<Rightarrow> ('e supervisor, bool) prog" where
  "open_session C d =
     try_except is_os_error
       (bnd (world (rc_open C (sd_path d))) (\<lambda>session.
          case session of
            UnusableSession \<Rightarrow> throw (OSError ''reader opener returned an unusable session'')
          | UsableSession h \<Rightarrow> sq (modify (sv_session_update (\<lambda>_. Some h))) (ret True)))
       (\<lambda>_. ret False)"

definition connection_made :: "'e reader_calls \<Rightarrow> int \<Rightarrow> ('e supervisor, bool option) prog" where
  "connection_made C unrelated =
     with_self (\<lambda>s.
       sq (emit_attempt C (if sv_had_connection s then Recovered else Connected) None unrelated)
      (sq (modify (\<lambda>s. s\<lparr>sv_had_connection := True, sv_repeated_emitted := False,
                         sv_health_state := HealthReady, sv_attempt := 0\<rparr>))
          (ret (Some True))))"

definition connection_failed ::
  "'e reader_calls \<Rightarrow> reader_event_type \<Rightarrow> int \<Rightarrow> ('e supervisor, bool option) prog" where
  "connection_failed C failure unrelated =
     sq (modify (sv_health_state_update (\<lambda>_. HealthDegraded)))
    (sq (emit_attempt C failure None unrelated)
    (sq (with_self (\<lambda>s.
           if sv_threshold s \<le> sv_attempt s \<and> \<not> sv_repeated_emitted s
           then sq (emit_attempt C ReconnectRepeatedlyFailed None 0)
                   (modify (sv_repeated_emitted_update (\<lambda>_. True)))
           else skip))
    (bnd (world (rc_random C)) (\<lambda>u.
     with_self (\<lambda>s.
       case backoff_delay (sv_backoff s) (sv_attempt s) u of
         Inl e \<Rightarrow> throw e
       | Inr delay \<Rightarrow>
           sq (emit_attempt C ReconnectScheduled (Some delay) 0)
              (bnd (rc_wait C delay) (\<lambda>go. ret (if go then None else Some False))))))))"

text \<open>What follows discovery: the failure is reported, or the session is opened.\<close>

definition connect_discovered ::
  "'e reader_calls \<Rightarrow> discovery_result \<Rightarrow> ('e supervisor, bool option) prog" where
  "connect_discovered C discovery =
     (let unrelated = dr_unrelated_count discovery
      in case dr_status discovery of
           NOT_FOUND \<Rightarrow> connection_failed C NotFound unrelated
         | AMBIGUOUS \<Rightarrow> connection_failed C IdentityAmbiguous unrelated
         | FOUND \<Rightarrow>
             (case dr_device discovery of
                None \<Rightarrow> throw (OtherError ''AssertionError'')
              | Some d \<Rightarrow>
                  bnd (open_session C d) (\<lambda>ok.
                    if ok then connection_made C unrelated
                    else connection_failed C OpenFailed unrelated)))"

text \<open>
  One round of the loop: \<open>Some b\<close> for \<open>return b\<close>, \<open>None\<close> for the next round.
\<close>

definition attempt_connection :: "'e reader_calls \<Rightarrow> ('e supervisor, bool option) prog" where
  "attempt_connection C =
     sq (modify (\<lambda>s. s\<lparr>sv_attempt := sv_attempt s + 1, sv_health_state := HealthConnecting\<rparr>))
    (sq (emit_attempt C Connecting None 0)
    (bnd (world (rc_enumerate C)) (\<lambda>devices.
     with_self (\<lambda>s. connect_discovered C (discover_reader devices (sv_identity s))))))"

text \<open>The loop runs at most \<open>maximum_attempts\<close> rounds.\<close>

fun connect_rounds :: "'e reader_calls \<Rightarrow> nat \<Rightarrow> ('e supervisor, bool) prog" where
  "connect_rounds C 0 = ret False"
| "connect_rounds C (Suc n) =
     bnd (attempt_connection C) (\<lambda>r.
       case r of Some b \<Rightarrow> ret b | None \<Rightarrow> connect_rounds C n)"

definition connect_until_ready :: "'e reader_calls \<Rightarrow> int \<Rightarrow> ('e supervisor, bool) prog" where
  "connect_until_ready C maximum_attempts = connect_rounds C (nat maximum_attempts)"

section \<open>Reading and disconnecting\<close>

definition disconnect :: "'e reader_calls \<Rightarrow> ('e supervisor, unit) prog" where
  "disconnect C =
     with_self (\<lambda>s.
       case sv_session s of
         None \<Rightarrow> skip
       | Some h \<Rightarrow>
           sq (world (rc_close C h))
              (modify (\<lambda>s. s\<lparr>sv_session := None, sv_health_state := HealthDegraded\<rparr>)))"

definition record_received :: "'e reader_calls \<Rightarrow> byte list \<Rightarrow> ('e supervisor, byte list option) prog" where
  "record_received C data =
     (if data = [] then ret (Some data)
      else
        sq (case rc_monotonic C of
              None \<Rightarrow> skip
            | Some m \<Rightarrow> bnd (world m) (\<lambda>now. modify (sv_last_record_at_update (\<lambda>_. Some now))))
       (sq (rc_emit C (event_at RecordReceived 0)) (ret (Some data))))"

definition read_once :: "'e reader_calls \<Rightarrow> ('e supervisor, byte list option) prog" where
  "read_once C =
     with_self (\<lambda>s.
       case sv_session s of
         None \<Rightarrow> ret None
       | Some h \<Rightarrow>
           bnd (try_except is_os_error
                  (bnd (world (rc_read C h)) (\<lambda>data. ret (Some data)))
                  (\<lambda>e. sq (rc_emit C
                             (event_at (if is_reader_disconnected e then Disconnected else ReadFailed) 0))
                         (sq (disconnect C) (ret None))))
               (\<lambda>answer. case answer of
                  None \<Rightarrow> ret None
                | Some data \<Rightarrow>
                    record_received C data))"

text \<open>
  \<open>feed_stream\<close> is the method \<open>feed\<close> of the stream object the caller passes, run where that
  object lives.
\<close>

definition malformed :: "record_result \<Rightarrow> bool" where
  "malformed r = (case r of MalformedRecord _ \<Rightarrow> True | ParsedRecord _ \<Rightarrow> False)"

definition read_records_once ::
  "'e reader_calls \<Rightarrow> (byte list \<Rightarrow> ('e, record_result list) prog) \<Rightarrow>
   ('e supervisor, record_result list) prog" where
  "read_records_once C feed_stream =
     bnd (read_once C) (\<lambda>data.
       if data = None \<or> data = Some [] then ret []
       else bnd (world (feed_stream (the data))) (\<lambda>results.
         sq (if list_ex malformed results then rc_emit C (event_at RecordMalformed 0) else skip)
            (ret results)))"

definition os_disconnected :: "'e reader_calls \<Rightarrow> ('e supervisor, unit) prog" where
  "os_disconnected C =
     with_self (\<lambda>s.
       if sv_session s \<noteq> None then sq (rc_emit C (event_at Disconnected 0)) (disconnect C)
       else skip)"

definition close_supervisor :: "'e reader_calls \<Rightarrow> ('e supervisor, unit) prog" where
  "close_supervisor C =
     sq (disconnect C) (modify (sv_health_state_update (\<lambda>_. HealthStopped)))"

section \<open>The contract of the callbacks\<close>

text \<open>
  \<open>emit\<close> and \<open>wait\<close> may do anything around the supervisor, but they do not write its own
  attributes: the only public one, \<open>health_state\<close>, is only read by the program.
\<close>

definition around :: "('e supervisor, 'a) prog \<Rightarrow> bool" where
  "around m \<longleftrightarrow> (\<forall>s r t. m s = (r, t) \<longrightarrow> (\<exists>w. t = s\<lparr>sv_env := w\<rparr>))"

lemma aroundD: "around m \<Longrightarrow> m s = (r, t) \<Longrightarrow> \<exists>w. t = s\<lparr>sv_env := w\<rparr>"
  by (auto simp: around_def)

lemma around_world: "around (world m)"
  by (auto simp: around_def world_def zoom_def split: prod.splits)

lemma around_ret: "around (ret x)"
  unfolding around_def ret_def by (metis Pair_inject supervisor.surjective supervisor.update_convs(10))

lemma around_skip: "around skip"
  unfolding around_def skip_def by (metis Pair_inject supervisor.surjective supervisor.update_convs(10))

lemma around_throw: "around (throw e)"
  unfolding around_def throw_def by (metis Pair_inject supervisor.surjective supervisor.update_convs(10))

lemma around_bnd: "around m \<Longrightarrow> (\<And>x. around (f x)) \<Longrightarrow> around (bnd m f)"
  unfolding around_def bnd_def by (fastforce split: prod.splits sum.splits)

lemma around_with_self: "(\<And>s. around (f s)) \<Longrightarrow> around (with_self f)"
  by (auto simp: around_def with_self_def)

lemmas around_rules = around_world around_ret around_skip around_throw around_bnd around_with_self

text \<open>An invariant that does not look at the environment is kept by everything around.\<close>

lemma around_keeps:
  assumes "around m" and "\<And>s w. I s \<Longrightarrow> I (s\<lparr>sv_env := w\<rparr>)"
  shows "keeps I m"
  using assms by (intro keepsI) (metis aroundD)

locale reader_callbacks =
  fixes C :: "'e reader_calls"
  assumes emit_around: "around (rc_emit C ev)"
    and wait_around: "around (rc_wait C seconds)"
begin

lemma emit_attempt_around: "around (emit_attempt C t backoff unrelated)"
  unfolding emit_attempt_def by (intro around_with_self emit_around)

text \<open>
  What the supervisor knows of itself. \<open>settled\<close> is the invariant between calls: the health is
  ready exactly while a session is open.
\<close>

end

definition settled :: "'e supervisor \<Rightarrow> bool" where
  "settled s \<longleftrightarrow> (sv_health_state s = HealthReady \<longleftrightarrow> connected s)"

definition unconnected :: "'e supervisor \<Rightarrow> bool" where
  "unconnected s \<longleftrightarrow> \<not> connected s \<and> sv_health_state s \<noteq> HealthReady"

text \<open>\<open>f\<close> reads the supervisor's own attributes only.\<close>

lemma around_returns:
  "around m \<Longrightarrow> m s = (r, t) \<Longrightarrow> (\<And>w. f (s\<lparr>sv_env := w\<rparr>) = f s) \<Longrightarrow> f t = f s"
  by (metis aroundD)

lemma triple_around:
  "around m \<Longrightarrow> (\<And>s w. P s \<Longrightarrow> P (s\<lparr>sv_env := w\<rparr>)) \<Longrightarrow> triple P m (\<lambda>_. P) (\<lambda>_. P)"
  by (rule triple_keeps) (rule around_keeps)

section \<open>The outcome of connecting\<close>

definition now_connected :: "'e supervisor \<Rightarrow> bool" where
  "now_connected s \<longleftrightarrow> connected s \<and> sv_health_state s = HealthReady \<and> sv_attempt s = 0 \<and>
     sv_had_connection s \<and> \<not> sv_repeated_emitted s"

definition still_down :: "'e supervisor \<Rightarrow> bool" where
  "still_down s \<longleftrightarrow> \<not> connected s \<and> sv_health_state s = HealthDegraded"

definition down_trying :: "'e supervisor \<Rightarrow> bool" where
  "down_trying s \<longleftrightarrow> \<not> connected s \<and> sv_health_state s = HealthConnecting"

lemmas connection_views = now_connected_def still_down_def down_trying_def connected_def

text \<open>What is known after a round, and after the whole call.\<close>

definition attempt_view :: "bool option \<Rightarrow> 'e supervisor \<Rightarrow> bool" where
  "attempt_view r s \<longleftrightarrow> (if r = Some True then now_connected s else still_down s)"

definition connect_view :: "bool \<Rightarrow> 'e supervisor \<Rightarrow> bool" where
  "connect_view b s \<longleftrightarrow> (if b then now_connected s else still_down s)"

abbreviation down :: "'e supervisor \<Rightarrow> bool" where
  "down s \<equiv> \<not> connected s"

lemma triple_frame:
  assumes "around m" and "\<And>s w. P s \<Longrightarrow> P (s\<lparr>sv_env := w\<rparr>)"
  shows "triple P m (\<lambda>_. P) (\<lambda>_ _. True)"
proof -
  have "triple P m (\<lambda>_. P) (\<lambda>_. P)" by (rule triple_around) (use assms in auto)
  then show ?thesis by (rule triple_conseq) simp_all
qed

context reader_callbacks begin

lemma connection_failed_down:
  "triple down (connection_failed C f unrelated)
     (\<lambda>r s. still_down s \<and> r \<noteq> Some True) (\<lambda>_ _. True)"
proof -
  have emit: "triple still_down (emit_attempt C t b u) (\<lambda>_. still_down) (\<lambda>_ _. True)" for t b u
    by (rule triple_frame [OF emit_attempt_around]) (simp add: connection_views)
  have random: "triple still_down (world (rc_random C)) (\<lambda>_. still_down) (\<lambda>_ _. True)"
    by (rule triple_frame [OF around_world]) (simp add: connection_views)
  have wait: "triple still_down (rc_wait C d) (\<lambda>_. still_down) (\<lambda>_ _. True)" for d
    by (rule triple_frame [OF wait_around]) (simp add: connection_views)
  have repeated: "triple still_down
      (with_self (\<lambda>s. if sv_threshold s \<le> sv_attempt s \<and> \<not> sv_repeated_emitted s
         then sq (emit_attempt C ReconnectRepeatedlyFailed None 0)
                 (modify (sv_repeated_emitted_update (\<lambda>_. True)))
         else skip)) (\<lambda>_. still_down) (\<lambda>_ _. True)"
    by (intro triple_with_self triple_if triple_pre [OF triple_sq [OF emit triple_modify]] triple_skip)
      (simp_all add: connection_views)
  have last: "triple still_down
      (with_self (\<lambda>s. case backoff_delay (sv_backoff s) (sv_attempt s) x of
          Inl e \<Rightarrow> throw e
        | Inr delay \<Rightarrow> sq (emit_attempt C ReconnectScheduled (Some delay) 0)
            (bnd (rc_wait C delay) (\<lambda>go. ret (if go then None else Some False)))))
      (\<lambda>r s. still_down s \<and> r \<noteq> Some True) (\<lambda>_ _. True)" for x
  proof (rule triple_with_self)
    fix s :: "'e supervisor"
    show "triple (\<lambda>t. t = s \<and> still_down t)
        (case backoff_delay (sv_backoff s) (sv_attempt s) x of
          Inl e \<Rightarrow> throw e
        | Inr delay \<Rightarrow> sq (emit_attempt C ReconnectScheduled (Some delay) 0)
            (bnd (rc_wait C delay) (\<lambda>go. ret (if go then None else Some False))))
        (\<lambda>r s. still_down s \<and> r \<noteq> Some True) (\<lambda>_ _. True)"
      by (cases "backoff_delay (sv_backoff s) (sv_attempt s) x")
        (auto intro!: triple_throw triple_pre [OF triple_sq [OF emit triple_bnd [OF wait triple_ret]]] split: if_splits)
  qed
  show ?thesis
    unfolding connection_failed_def
  proof (rule triple_sq [where R = still_down])
    show "triple down (modify (sv_health_state_update (\<lambda>_. HealthDegraded))) (\<lambda>_. still_down)
        (\<lambda>_ _. True)"
      by (rule triple_modify) (simp add: connection_views)
  qed (rule triple_sq [OF emit triple_sq [OF repeated triple_bnd [OF random last]]])
qed

lemma connection_made_connected:
  "triple connected (connection_made C unrelated)
     (\<lambda>r s. now_connected s \<and> r = Some True) (\<lambda>_ _. True)"
proof -
  have emit: "triple connected (emit_attempt C t b u) (\<lambda>_. connected) (\<lambda>_ _. True)" for t b u
    by (rule triple_frame [OF emit_attempt_around]) (simp add: connected_def)
  have rest: "triple connected
      (sq (modify (\<lambda>s. s\<lparr>sv_had_connection := True, sv_repeated_emitted := False,
                         sv_health_state := HealthReady, sv_attempt := 0\<rparr>))
          (ret (Some True))) (\<lambda>r s. now_connected s \<and> r = Some True) (\<lambda>_ _. True)"
    by (rule triple_sq [where R = now_connected])
      (auto intro!: triple_modify triple_ret simp: connection_views)
  show ?thesis
    unfolding connection_made_def
    by (intro triple_with_self triple_sq [OF triple_pre [OF emit] rest]) simp
qed

lemma open_session_outcome:
  "triple down (open_session C d) (\<lambda>ok s. connected s = ok) (\<lambda>_ _. True)"
  unfolding open_session_def
proof (rule triple_try_except [where F = "\<lambda>_. down"])
  have "triple down (world (rc_open C (sd_path d))) (\<lambda>_. down) (\<lambda>_. down)"
    by (rule triple_around [OF around_world]) (simp add: connected_def)
  then show "triple down
      (bnd (world (rc_open C (sd_path d))) (\<lambda>session. case session of
            UnusableSession \<Rightarrow> throw (OSError ''reader opener returned an unusable session'')
          | UsableSession h \<Rightarrow> sq (modify (sv_session_update (\<lambda>_. Some h))) (ret True)))
      (\<lambda>ok s. connected s = ok) (\<lambda>_. down)"
  proof (rule triple_bnd)
    fix o' :: opened
    show "triple down (case o' of
            UnusableSession \<Rightarrow> throw (OSError ''reader opener returned an unusable session'')
          | UsableSession h \<Rightarrow> sq (modify (sv_session_update (\<lambda>_. Some h))) (ret True))
        (\<lambda>ok s. connected s = ok) (\<lambda>_. down)"
      by (cases o') (auto intro!: triple_throw triple_sq [where R = connected] triple_modify triple_ret
          simp: connected_def)
  qed
qed (auto intro: triple_ret)

lemma attempt_connection_outcome:
  "triple down (attempt_connection C)
     attempt_view (\<lambda>_ _. True)"
proof -
  have emit: "triple down (emit_attempt C t b u) (\<lambda>_. down) (\<lambda>_ _. True)" for t b u
    by (rule triple_frame [OF emit_attempt_around]) (simp add: connected_def)
  have enumerate: "triple down (world (rc_enumerate C)) (\<lambda>_. down) (\<lambda>_ _. True)"
    by (rule triple_frame [OF around_world]) (simp add: connected_def)
  have fail: "triple down (connection_failed C f u)
      attempt_view (\<lambda>_ _. True)" for f u
    by (rule triple_conseq [OF connection_failed_down]) (auto simp: attempt_view_def)
  have opened: "triple down (bnd (open_session C d) (\<lambda>ok.
        if ok then connection_made C u else connection_failed C OpenFailed u))
      attempt_view (\<lambda>_ _. True)" for d u
  proof (rule triple_bnd [OF open_session_outcome])
    fix ok
    show "triple (\<lambda>s. connected s = ok)
        (if ok then connection_made C u else connection_failed C OpenFailed u)
        attempt_view (\<lambda>_ _. True)"
    proof (cases ok)
      case True
      then show ?thesis
        using triple_conseq [OF connection_made_connected, where Q' = attempt_view and P' = connected]
        by (auto simp: attempt_view_def)
    next
      case False
      then show ?thesis using fail by simp
    qed
  qed
  have choose: "triple down (connect_discovered C r) attempt_view (\<lambda>_ _. True)" for r
    unfolding connect_discovered_def Let_def
    by (cases "dr_status r"; cases "dr_device r") (auto intro: fail opened triple_throw)
  show ?thesis
    unfolding attempt_connection_def
  proof (rule triple_sq [where R = down])
    show "triple down (modify (\<lambda>s. s\<lparr>sv_attempt := sv_attempt s + 1,
        sv_health_state := HealthConnecting\<rparr>)) (\<lambda>_. down) (\<lambda>_ _. True)"
      by (rule triple_modify) (simp add: connected_def)
  qed (intro triple_sq [OF emit] triple_bnd [OF enumerate] triple_with_self triple_pre [OF choose],
      simp)
qed

lemma connect_rounds_outcome:
  "triple down (connect_rounds C (Suc n))
     connect_view (\<lambda>_ _. True)"
proof (induction n)
  case 0
  show ?case
    unfolding connect_rounds.simps
  proof (rule triple_bnd [OF attempt_connection_outcome])
    fix r
    show "triple (attempt_view r) (case r of None \<Rightarrow> ret False | Some b \<Rightarrow> ret b)
        connect_view (\<lambda>_ _. True)"
      by (rule triple_option) (auto intro!: triple_ret simp: attempt_view_def connect_view_def)
  qed
next
  case (Suc n)
  have IH: "triple still_down (connect_rounds C (Suc n)) connect_view (\<lambda>_ _. True)"
    by (rule triple_pre [OF Suc.IH]) (simp add: connection_views)
  show ?case
    unfolding connect_rounds.simps(2) [of C "Suc n"]
  proof (rule triple_bnd [OF attempt_connection_outcome])
    fix r
    show "triple (attempt_view r) (case r of None \<Rightarrow> connect_rounds C (Suc n) | Some b \<Rightarrow> ret b)
        connect_view (\<lambda>_ _. True)"
    proof (rule triple_option)
      assume "r = None"
      then show "triple (attempt_view r) (connect_rounds C (Suc n)) connect_view (\<lambda>_ _. True)"
        by (intro triple_pre [OF IH]) (simp add: attempt_view_def)
    qed (auto intro!: triple_ret simp: attempt_view_def connect_view_def)
  qed
qed

end

section \<open>All operations\<close>

datatype reader_operation = ConnectUntilReady int | ReadOnce | OsDisconnected | CloseReader

fun operate :: "'e reader_calls \<Rightarrow> reader_operation \<Rightarrow> ('e supervisor, unit) prog" where
  "operate C (ConnectUntilReady n) = bnd (connect_until_ready C n) (\<lambda>_. skip)"
| "operate C ReadOnce = bnd (read_once C) (\<lambda>_. skip)"
| "operate C OsDisconnected = os_disconnected C"
| "operate C CloseReader = close_supervisor C"

context reader_callbacks begin

lemma connect_outcome:
  assumes "down s" and "0 < n" and "connect_until_ready C n s = (Inr b, t)"
  shows "connect_view b t"
proof -
  obtain k where "nat n = Suc k" using assms(2) by (cases "nat n") auto
  then have "connect_rounds C (Suc k) s = (Inr b, t)"
    using assms(3) by (simp only: connect_until_ready_def)
  then show ?thesis by (rule triple_returns [OF connect_rounds_outcome assms(1)])
qed

lemma disconnect_down:
  "triple settled (disconnect C) (\<lambda>_. down) (\<lambda>_ _. True)"
  "triple settled (disconnect C) (\<lambda>_. settled) (\<lambda>_ _. True)"
proof -
  have "triple settled (world (rc_close C h)) (\<lambda>_. settled) (\<lambda>_ _. True)" for h
    by (rule triple_frame [OF around_world]) (simp add: settled_def connected_def)
  note close = triple_pre [OF triple_sq [OF this triple_modify]]
  show "triple settled (disconnect C) (\<lambda>_. down) (\<lambda>_ _. True)"
    unfolding disconnect_def
    by (intro triple_with_self triple_option triple_skip close) (auto simp: settled_def connected_def)
  show "triple settled (disconnect C) (\<lambda>_. settled) (\<lambda>_ _. True)"
    unfolding disconnect_def
    by (intro triple_with_self triple_option triple_skip close) (auto simp: settled_def connected_def)
qed

lemma emit_settled: "triple settled (rc_emit C ev) (\<lambda>_. settled) (\<lambda>_ _. True)"
  by (rule triple_frame [OF emit_around]) (simp add: settled_def connected_def)

lemma world_settled: "triple settled (world m) (\<lambda>_. settled) (\<lambda>_ _. True)"
  by (rule triple_frame [OF around_world]) (simp add: settled_def connected_def)

lemma read_once_settled: "triple settled (read_once C) (\<lambda>_. settled) (\<lambda>_ _. True)"
proof -
  have read: "triple settled (bnd (world (rc_read C h)) (\<lambda>data. ret (Some data)))
      (\<lambda>_. settled) (\<lambda>_. settled)" for h
    by (intro triple_keeps keeps_rules around_keeps [OF around_world])
      (simp add: settled_def connected_def)
  have handler: "triple settled (sq (rc_emit C ev) (sq (disconnect C) (ret None)))
      (\<lambda>_. settled) (\<lambda>_ _. True)" for ev
    by (intro triple_sq [OF emit_settled] triple_sq [OF disconnect_down(2)] triple_ret)
  have received: "triple settled (record_received C data) (\<lambda>_. settled) (\<lambda>_ _. True)" for data
    unfolding record_received_def
  proof (intro triple_if triple_ret triple_sq [where R = settled])
    show "triple settled (case rc_monotonic C of
             None \<Rightarrow> skip
           | Some m \<Rightarrow> bnd (world m) (\<lambda>now. modify (sv_last_record_at_update (\<lambda>_. Some now))))
         (\<lambda>_. settled) (\<lambda>_ _. True)"
      by (intro triple_option triple_skip triple_bnd [OF world_settled] triple_modify)
        (simp_all add: settled_def connected_def)
  qed (auto intro: emit_settled)
  show ?thesis
    unfolding read_once_def
    by (intro triple_with_self triple_option triple_ret
        triple_pre [OF triple_bnd [OF triple_try_except [OF read handler]]] triple_pre [OF received])
      auto
qed

text \<open>After every operation that returns the health follows the session.\<close>

lemma operate_settled:
  assumes "settled s" and "\<And>n. op' = ConnectUntilReady n \<Longrightarrow> down s"
    and "operate C op' s = (Inr u, t)"
  shows "settled t"
proof (cases op')
  case (ConnectUntilReady n)
  then obtain b where run: "connect_until_ready C n s = (Inr b, t)"
    using assms(3) by (auto simp: bnd_def skip_def split: prod.splits sum.splits)
  show ?thesis
  proof (cases "0 < n")
    case True
    then have "connect_view b t" using connect_outcome assms(2) ConnectUntilReady run by blast
    then show ?thesis by (cases b) (auto simp: connect_view_def connection_views settled_def)
  next
    case False
    then show ?thesis using run assms(1) by (simp add: connect_until_ready_def ret_def)
  qed
next
  case ReadOnce
  then obtain d where "read_once C s = (Inr d, t)"
    using assms(3) by (auto simp: bnd_def skip_def split: prod.splits sum.splits)
  then show ?thesis by (rule triple_returns [OF read_once_settled assms(1)])
next
  case OsDisconnected
  have "triple settled (os_disconnected C) (\<lambda>_. settled) (\<lambda>_ _. True)"
    unfolding os_disconnected_def
    by (intro triple_with_self triple_if triple_skip
        triple_pre [OF triple_sq [OF emit_settled disconnect_down(2)]]) auto
  then show ?thesis using triple_returns assms(1,3) OsDisconnected by fastforce
next
  case CloseReader
  have "triple settled (close_supervisor C) (\<lambda>_. settled) (\<lambda>_ _. True)"
    unfolding close_supervisor_def
    by (rule triple_sq [OF disconnect_down(1) triple_modify]) (simp add: settled_def connected_def)
  then show ?thesis using triple_returns assms(1,3) CloseReader by fastforce
qed

text \<open>What \<open>read_once\<close> does, for each outcome of the session's \<open>read\<close>.\<close>

lemma read_once_cases:
  assumes "sv_session s = Some h" and "rc_read C h (sv_env s) = (r, w)"
  shows "read_once C s =
    (case r of
       Inr data \<Rightarrow> record_received C data (s\<lparr>sv_env := w\<rparr>)
     | Inl e \<Rightarrow>
         if is_os_error e
         then sq (rc_emit C (event_at (if is_reader_disconnected e then Disconnected else ReadFailed) 0))
                (sq (disconnect C) (ret None)) (s\<lparr>sv_env := w\<rparr>)
         else (Inl e, s\<lparr>sv_env := w\<rparr>))"
proof (cases r)
  case (Inr data)
  then show ?thesis using assms
    by (simp add: read_once_def with_self_def try_except_def bnd_def world_def zoom_def ret_def)
next
  case (Inl e)
  have "(case sq a (sq b (ret None)) u of (Inl e, t) \<Rightarrow> (Inl e, t)
      | (Inr x, t) \<Rightarrow> (case x of None \<Rightarrow> ret None | Some d \<Rightarrow> f d) t) =
      sq a (sq b (ret None)) u" for a b :: "('e supervisor, unit) prog" and f :: "byte list \<Rightarrow> ('e supervisor, byte list option) prog" and u
    by (simp add: sq_def bnd_def ret_def split: prod.split sum.split)
  then show ?thesis using assms Inl
    by (simp add: read_once_def with_self_def try_except_def world_def zoom_def ret_def
        bnd_def [of "try_except C m h" for C m h] bnd_def [of "world m" for m] bnd_def [of "zoom g u m" for g u m]
        cong: if_cong)
qed

lemma received_answer:
  "triple (\<lambda>s. sv_session s = Some h) (record_received C data)
     (\<lambda>answer s. answer = Some data \<and> sv_session s = Some h) (\<lambda>_ _. True)"
proof -
  have frame: "triple (\<lambda>s. sv_session s = Some h) m (\<lambda>_ s. sv_session s = Some h) (\<lambda>_ _. True)"
    if "around m" for m :: "('e supervisor, 'x) prog"
    by (rule triple_frame [OF that]) simp
  show ?thesis
    unfolding record_received_def
  proof (intro triple_if triple_ret triple_sq [where R = "\<lambda>s. sv_session s = Some h"])
    show "triple (\<lambda>s. sv_session s = Some h) (case rc_monotonic C of
             None \<Rightarrow> skip
           | Some m \<Rightarrow> bnd (world m) (\<lambda>now. modify (sv_last_record_at_update (\<lambda>_. Some now))))
         (\<lambda>_ s. sv_session s = Some h) (\<lambda>_ _. True)"
      by (intro triple_option triple_skip triple_bnd [OF frame [OF around_world]] triple_modify) simp_all
  qed (auto intro: frame [OF emit_around])
qed

lemma failed_answer:
  "triple (\<lambda>s. sv_session s = Some h) (sq (rc_emit C ev) (sq (disconnect C) (ret None)))
     (\<lambda>answer s. answer = None \<and> still_down s) (\<lambda>_ _. True)"
proof -
  define P where "P = (\<lambda>s :: 'e supervisor. sv_session s = Some h)"
  have emit: "triple P (rc_emit C ev) (\<lambda>_. P) (\<lambda>_ _. True)"
    by (rule triple_frame [OF emit_around]) (simp add: P_def)
  have close: "triple P (world (rc_close C h)) (\<lambda>_. P) (\<lambda>_ _. True)"
    by (rule triple_frame [OF around_world]) (simp add: P_def)
  have leave: "triple P (modify (\<lambda>s. s\<lparr>sv_session := None, sv_health_state := HealthDegraded\<rparr>))
      (\<lambda>_. still_down) (\<lambda>_ _. True)"
    by (rule triple_modify) (simp add: connection_views)
  have "triple P (disconnect C) (\<lambda>_. still_down) (\<lambda>_ _. True)"
    unfolding disconnect_def
  proof (rule triple_with_self)
    fix u :: "'e supervisor"
    have "triple (\<lambda>t. t = u \<and> P t) (sq (world (rc_close C h))
        (modify (\<lambda>s. s\<lparr>sv_session := None, sv_health_state := HealthDegraded\<rparr>)))
        (\<lambda>_. still_down) (\<lambda>_ _. True)"
      by (rule triple_pre [OF triple_sq [OF close leave]]) simp
    then show "triple (\<lambda>t. t = u \<and> P t)
        (case sv_session u of None \<Rightarrow> skip | Some h \<Rightarrow>
           sq (world (rc_close C h))
              (modify (\<lambda>s. s\<lparr>sv_session := None, sv_health_state := HealthDegraded\<rparr>)))
        (\<lambda>_. still_down) (\<lambda>_ _. True)"
      by (cases "sv_session u = Some h") (auto simp: P_def triple_def)
  qed
  then have "triple P (sq (rc_emit C ev) (sq (disconnect C) (ret None)))
      (\<lambda>answer s. answer = None \<and> still_down s) (\<lambda>_ _. True)"
    by (intro triple_sq [OF emit] triple_sq) (auto intro: triple_ret)
  then show ?thesis by (simp only: P_def)
qed

lemma read_answers:
  assumes "sv_session s = Some h" and "rc_read C h (sv_env s) = (r, w)"
    and "read_once C s = (Inr answer, t)"
  shows "(\<exists>data. r = Inr data \<and> answer = Some data \<and> sv_session t = Some h) \<or>
    (\<exists>e. r = Inl e \<and> is_os_error e \<and> answer = None \<and> still_down t)"
proof (cases r)
  case (Inr data)
  then have "record_received C data (s\<lparr>sv_env := w\<rparr>) = (Inr answer, t)"
    using assms read_once_cases [OF assms(1,2)] by simp
  from triple_returns [OF received_answer _ this, of h] show ?thesis using Inr assms(1) by simp
next
  case (Inl e)
  then have e: "is_os_error e" using assms(3) read_once_cases [OF assms(1,2)] by (auto split: if_splits)
  then have "sq (rc_emit C (event_at (if is_reader_disconnected e then Disconnected else ReadFailed) 0))
      (sq (disconnect C) (ret None)) (s\<lparr>sv_env := w\<rparr>) = (Inr answer, t)"
    using Inl assms(3) read_once_cases [OF assms(1,2)] by simp
  from triple_returns [OF failed_answer _ this, of h] show ?thesis using Inl e assms(1) by simp
qed

end

end
