(* ===== verification/Status_Service.thy ===== *)
theory Status_Service
  imports Access_Controller Reader_Supervisor Authorization_Store Notification_Queue Timestamps
begin

text \<open>
  \<open>application/status_service.py\<close>: the publication of the operational snapshot and the status
  read model. Both objects hold a lock only to make single assignments atomic, so the store is
  its snapshot.
\<close>

section \<open>Times outside the calendar\<close>

text \<open>
  \<open>value.astimezone(UTC)\<close> and \<open>value + timedelta(seconds=s)\<close> raise \<open>OverflowError\<close> when
  they leave the years 1 to 9999.
\<close>

definition date_overflow :: exn where
  "date_overflow = OtherError ''date value out of range''"

definition to_utc :: "datetime \<Rightarrow> exn + datetime" where
  "to_utc d = (if in_calendar (astimezone_utc d) then Inr (astimezone_utc d) else Inl date_overflow)"

definition later_by :: "datetime \<Rightarrow> seconds \<Rightarrow> exn + datetime" where
  "later_by d s =
     (let t = add_seconds d s
      in if 0 \<le> wall_us t \<and> wall_us t < calendar_end * us_per_day then Inr t else Inl date_overflow)"

text \<open>The same where there may be nothing to add.\<close>

definition later_by_option :: "datetime \<Rightarrow> seconds option \<Rightarrow> exn + datetime option" where
  "later_by_option d x = (case x of None \<Rightarrow> Inr None | Some s \<Rightarrow> map_sum id Some (later_by d s))"

section \<open>OperationalSnapshotStore\<close>

record operational_snapshot =
  os_controller :: controller_snapshot
  os_reader :: reader_snapshot
  os_published_at :: datetime
  os_last_reader_record_at :: "datetime option"

type_synonym snapshot_store = "operational_snapshot option"

definition publish ::
  "controller_snapshot \<Rightarrow> reader_snapshot \<Rightarrow> datetime \<Rightarrow> (snapshot_store, unit) prog" where
  "publish controller reader published_at =
     (if \<not> aware published_at
      then throw (ValueError ''snapshot publication timestamp must be timezone-aware'')
      else
        bnd (raise_or_return (to_utc published_at)) (\<lambda>normalized.
        bnd (raise_or_return
               (later_by_option normalized (map_option uminus (rn_last_record_age reader))))
            (\<lambda>last_record_at.
          modify (\<lambda>_. Some
            \<lparr>os_controller = controller, os_reader = reader, os_published_at = normalized,
             os_last_reader_record_at = last_record_at\<rparr>))))"

section \<open>StatusService\<close>

text \<open>
  The sources of the status service over the state \<open>'s\<close> behind them. \<open>ss_latest_event_time\<close>
  and \<open>ss_pending_count\<close> may raise; the two snapshots are plain reads.
\<close>

record 's status_sources =
  ss_operational :: "'s \<Rightarrow> operational_snapshot option"
  ss_authorization :: "'s \<Rightarrow> authorization_snapshot"
  ss_now :: "('s, datetime) prog"
  ss_latest_event_time :: "('s, datetime option) prog"
  ss_pending_count :: "('s, nat) prog"

record status_service =
  st_software_version :: string
  st_started_at :: datetime

record status_snapshot =
  sp_controller_state :: controller_state
  sp_reader_connected :: bool
  sp_reader_health :: reader_health_state
  sp_published_at :: datetime
  sp_age :: seconds
  sp_last_credential_processed_at :: "datetime option"
  sp_last_reader_record_age :: "seconds option"
  sp_release_active :: bool
  sp_release_deadline_at :: "datetime option"
  sp_release_remaining :: "seconds option"
  sp_release_seconds :: seconds
  sp_last_relay_command :: "relay_word option"
  sp_authorization_loaded :: bool
  sp_authorization_record_count :: nat
  sp_source_revision :: "string option"
  sp_source_modified_at :: "datetime option"
  sp_last_audit_event_at :: "datetime option"
  sp_pending_notification_count :: nat
  sp_application_started_at :: datetime
  sp_version :: string

definition new_status_service :: "string \<Rightarrow> datetime \<Rightarrow> exn + status_service" where
  "new_status_service version started =
     (if \<not> aware started
      then Inl (ValueError ''application start timestamp must be timezone-aware'')
      else Inr \<lparr>st_software_version = version, st_started_at = started\<rparr>)"

text \<open>\<open>max(0.0, (now - then).total_seconds())\<close>, of two aware times.\<close>

definition age_at :: "datetime \<Rightarrow> datetime \<Rightarrow> seconds" where
  "age_at now since = max 0 (seconds_between now since)"

text \<open>Subtracting an aware time from a naive one raises \<open>TypeError\<close>.\<close>

definition service_snapshot ::
  "'s status_sources \<Rightarrow> status_service \<Rightarrow> ('s, status_snapshot) prog" where
  "service_snapshot S service =
     with_self (\<lambda>s.
       case ss_operational S s of
         None \<Rightarrow> throw (SnapshotUnavailableError ''operational snapshot unavailable'')
       | Some op \<Rightarrow>
           let controller = os_controller op; reader = os_reader op;
               authorization = ss_authorization S s
           in bnd (ss_now S) (\<lambda>now.
              if \<not> aware now
              then throw (TypeError ''can't subtract offset-naive and offset-aware datetimes'')
              else
                bnd (raise_or_return (later_by_option now (cs_release_remaining controller)))
                  (\<lambda>deadline_at.
                bnd (ss_latest_event_time S) (\<lambda>latest.
                bnd (ss_pending_count S) (\<lambda>pending_notifications.
                  ret \<lparr>sp_controller_state = cs_state controller,
                       sp_reader_connected = rn_connected reader,
                       sp_reader_health = rn_health_state reader,
                       sp_published_at = os_published_at op,
                       sp_age = age_at now (os_published_at op),
                       sp_last_credential_processed_at = cs_last_processed_at controller,
                       sp_last_reader_record_age =
                         map_option (age_at now) (os_last_reader_record_at op),
                       sp_release_active = cs_release_active controller,
                       sp_release_deadline_at = deadline_at,
                       sp_release_remaining = cs_release_remaining controller,
                       sp_release_seconds = cs_release_seconds controller,
                       sp_last_relay_command = cs_last_relay_command controller,
                       sp_authorization_loaded = as_loaded authorization,
                       sp_authorization_record_count = as_record_count authorization,
                       sp_source_revision = as_source_revision authorization,
                       sp_source_modified_at = as_source_modified_at authorization,
                       sp_last_audit_event_at = latest,
                       sp_pending_notification_count = pending_notifications,
                       sp_application_started_at = st_started_at service,
                       sp_version = st_software_version service\<rparr>)))))"

definition json_time :: "datetime option \<Rightarrow> json" where
  "json_time x = (case x of None \<Rightarrow> JNull | Some d \<Rightarrow> JStr (isoformat d))"

definition json_seconds :: "seconds option \<Rightarrow> json" where
  "json_seconds x = (case x of None \<Rightarrow> JNull | Some v \<Rightarrow> JFloat v)"

definition status_dict :: "status_snapshot \<Rightarrow> (string \<times> json) list" where
  "status_dict p =
     [(''controller_state'', JStr (controller_state_value (sp_controller_state p))),
      (''reader_connected'', JBool (sp_reader_connected p)),
      (''reader_health'', JStr (reader_health_value (sp_reader_health p))),
      (''snapshot_published_at'', JStr (isoformat (sp_published_at p))),
      (''snapshot_age_seconds'', JFloat (sp_age p)),
      (''last_credential_processed_at'', json_time (sp_last_credential_processed_at p)),
      (''last_reader_record_age_seconds'', json_seconds (sp_last_reader_record_age p)),
      (''release_active'', JBool (sp_release_active p)),
      (''release_deadline_at'', json_time (sp_release_deadline_at p)),
      (''release_remaining_seconds'', json_seconds (sp_release_remaining p)),
      (''configured_release_seconds'', JFloat (sp_release_seconds p)),
      (''last_relay_command'', json_option (map_option relay_word_value (sp_last_relay_command p))),
      (''authorization_loaded'', JBool (sp_authorization_loaded p)),
      (''authorization_record_count'', JInt (int (sp_authorization_record_count p))),
      (''authorization_source_revision'', json_option (sp_source_revision p)),
      (''authorization_source_modified_at'', json_time (sp_source_modified_at p)),
      (''last_audit_event_at'', json_time (sp_last_audit_event_at p)),
      (''pending_notification_count'', JInt (int (sp_pending_notification_count p))),
      (''application_started_at'', JStr (isoformat (sp_application_started_at p))),
      (''software_version'', JStr (sp_version p))]"

section \<open>What is published\<close>

text \<open>
  Publication times are kept in UTC, and are the instant that was given. A publication raises
  exactly for a naive time and for a time, of publication or of the last record, outside the
  calendar, and then the published snapshot stays.
\<close>

lemma publish_returns:
  "publish c r at' st = (Inr u, st') \<Longrightarrow>
   \<exists>op. st' = Some op \<and> os_controller op = c \<and> os_reader op = r \<and>
     os_published_at op = astimezone_utc at' \<and> aware (os_published_at op)"
  by (auto simp: publish_def prog_simps raise_or_return_def to_utc_def
      split: if_splits sum.splits)

lemma publish_raises:
  "publish c r at' st = (Inl e, st') \<Longrightarrow>
   st' = st \<and>
   (aware at' \<longrightarrow> e = date_overflow \<and>
      (\<not> in_calendar (astimezone_utc at') \<or>
       (\<exists>age. rn_last_record_age r = Some age \<and> later_by (astimezone_utc at') (- age) = Inl e)))"
  by (auto simp: publish_def prog_simps raise_or_return_def to_utc_def later_by_option_def
      later_by_def Let_def split: if_splits sum.splits option.splits)

lemma age_nonneg: "0 \<le> age_at now since"
  by (simp add: age_at_def)

end
