(* ===== verification/Runtime.thy ===== *)
theory Runtime
  imports Access_Service Status_Service
begin

text \<open>
  \<open>application/runtime.py\<close>: \<open>EventWaiter\<close> and \<open>BridgewireRuntime\<close>. The runtime is the reader
  supervisor together with everything behind it: the controller and the world of its ports, the
  record stream, and the published snapshot. The callbacks the supervisor is given are methods of
  the runtime, which is how the program ties them together.
\<close>

section \<open>EventWaiter\<close>

text \<open>
  The loop of \<open>EventWaiter.wait\<close>. It has no bound of its own, so it runs on fuel: \<open>None\<close> when the
  fuel is used up in the middle of the wait.
\<close>

fun wait_rounds ::
  "nat \<Rightarrow> ('s, seconds) prog \<Rightarrow> (seconds \<Rightarrow> ('s, bool) prog) \<Rightarrow> seconds \<Rightarrow> seconds \<Rightarrow>
   ('s, unit) prog \<Rightarrow> ('s, bool option) prog" where
  "wait_rounds 0 clock stop_wait interval deadline on_interval = ret None"
| "wait_rounds (Suc n) clock stop_wait interval deadline on_interval =
     bnd clock (\<lambda>now.
       if \<not> now < deadline then ret (Some True)
       else
         sq on_interval
        (bnd clock (\<lambda>now.
           let remaining = max 0 (deadline - now)
           in bnd (stop_wait (min interval remaining)) (\<lambda>stopped.
                if stopped then ret (Some False)
                else wait_rounds n clock stop_wait interval deadline on_interval))))"

definition event_wait ::
  "nat \<Rightarrow> ('s, seconds) prog \<Rightarrow> (seconds \<Rightarrow> ('s, bool) prog) \<Rightarrow> seconds \<Rightarrow> seconds \<Rightarrow>
   ('s, unit) prog \<Rightarrow> ('s, bool option) prog" where
  "event_wait fuel clock stop_wait interval duration on_interval =
     bnd clock (\<lambda>now. wait_rounds fuel clock stop_wait interval (now + duration) on_interval)"

section \<open>BridgewireRuntime\<close>

record 'w access_side =
  rr_controller :: "'w controller"
  rr_stream :: reader_record_stream
  rr_published :: "snapshot_store option"
  rr_shutdown_complete :: bool

type_synonym 'w runtime = "'w access_side supervisor"

text \<open>
  What the runtime is given: the ports of the controller, the health reporter, the reader device,
  the jitter source, the stop event and the waiter, which runs the callback it is passed.
\<close>

record 'w host =
  ho_ports :: "'w ports"
  ho_report :: "string \<Rightarrow> json_object \<Rightarrow> ('w, unit) prog"
  ho_enumerate :: "('w, serial_device list) prog"
  ho_open :: "string \<Rightarrow> ('w, opened) prog"
  ho_read :: "nat \<Rightarrow> ('w, byte list) prog"
  ho_close :: "nat \<Rightarrow> ('w, unit) prog"
  ho_random :: "('w, seconds) prog"
  ho_is_set :: "('w, bool) prog"
  ho_set_stop :: "('w, unit) prog"
  ho_wait :: "seconds \<Rightarrow> ('w runtime, unit) prog \<Rightarrow> ('w runtime, bool) prog"

definition in_controller :: "('w controller, 'a) prog \<Rightarrow> ('w access_side, 'a) prog" where
  "in_controller m = zoom rr_controller rr_controller_update m"

definition on_controller :: "('w controller, 'a) prog \<Rightarrow> ('w runtime, 'a) prog" where
  "on_controller m = world (in_controller m)"

definition on_host :: "('w, 'a) prog \<Rightarrow> ('w runtime, 'a) prog" where
  "on_host m = on_controller (env m)"

text \<open>\<open>ReaderSupervisor.snapshot\<close> of the supervisor the host builds: it is given the clock.\<close>

definition reader_state_snapshot :: "'w host \<Rightarrow> ('w runtime, reader_snapshot) prog" where
  "reader_state_snapshot H =
     with_self (\<lambda>s.
       bnd (case sv_last_record_at s of
              None \<Rightarrow> ret None
            | Some since \<Rightarrow>
                bnd (on_host (p_monotonic (ho_ports H))) (\<lambda>now. ret (Some (now - since))))
           (\<lambda>age. ret \<lparr>rn_connected = connected s, rn_health_state = sv_health_state s,
                       rn_last_record_age = age\<rparr>))"

definition publish_snapshot :: "'w host \<Rightarrow> ('w runtime, unit) prog" where
  "publish_snapshot H =
     with_self (\<lambda>s.
       if rr_published (sv_env s) = None then skip
       else
         bnd (on_controller (controller_snapshot (ho_ports H))) (\<lambda>c.
         bnd (reader_state_snapshot H) (\<lambda>r.
         bnd (on_host (p_now (ho_ports H))) (\<lambda>now.
           world (zoom (\<lambda>a. the (rr_published a))
                       (\<lambda>f. rr_published_update (map_option f)) (publish c r now))))))"

definition tick_and_publish :: "'w host \<Rightarrow> ('w runtime, unit) prog" where
  "tick_and_publish H = sq (on_controller (tick (ho_ports H))) (publish_snapshot H)"

definition cooperative_wait :: "'w host \<Rightarrow> seconds \<Rightarrow> ('w runtime, bool) prog" where
  "cooperative_wait H duration = ho_wait H duration (tick_and_publish H)"

definition degrading_events :: "reader_event_type list" where
  "degrading_events =
     [NotFound, IdentityAmbiguous, OpenFailed, ReadFailed, Disconnected, ReconnectRepeatedlyFailed]"

definition reader_event_severity :: "reader_event_type \<Rightarrow> severity" where
  "reader_event_severity t =
     (if reader_event_value t \<in> {''reader_connected'', ''reader_recovered'', ''reader_record_received''}
      then SevInfo else SevWarning)"

text \<open>\<open>EventType(text)\<close> raises \<open>ValueError\<close> for a text that names no event type.\<close>

definition record_reader_event :: "'w host \<Rightarrow> reader_event \<Rightarrow> ('w runtime, unit) prog" where
  "record_reader_event H event =
     sq (if re_event_type event \<in> set degrading_events
         then on_host (ho_report H ''degraded''
                [(''reason'', JStr (reader_event_value (re_event_type event)))])
         else skip)
     (case event_type_of (reader_event_value (re_event_type event)) of
        None \<Rightarrow> throw (ValueError ''not a valid EventType'')
      | Some et \<Rightarrow>
          bnd (on_host (p_now (ho_ports H))) (\<lambda>now.
          bnd (on_host (p_uuid (ho_ports H))) (\<lambda>uid.
          with_self (\<lambda>s.
            (case post_init
               \<lparr>ev_event_type = et,
                ev_severity = reader_event_severity (re_event_type event),
                ev_timestamp = now,
                ev_correlation =
                  (if re_attempt event \<noteq> 0 then [(''attempt'', JInt (re_attempt event))] else []),
                ev_reader_state = Some (reader_health_value (sv_health_state s)),
                ev_controller_state =
                  Some (controller_state_value (ct_state (rr_controller (sv_env s)))),
                ev_delivery_status = None,
                ev_event_id = uid\<rparr> of
               Inl e \<Rightarrow> throw e
             | Inr ev \<Rightarrow> on_host (p_audit_append (ho_ports H) ev))))))"

text \<open>The callables the host passes to the supervisor.\<close>

definition runtime_calls :: "'w host \<Rightarrow> 'w access_side reader_calls" where
  "runtime_calls H =
     \<lparr>rc_enumerate = in_controller (env (ho_enumerate H)),
      rc_open = (\<lambda>p. in_controller (env (ho_open H p))),
      rc_read = (\<lambda>h. in_controller (env (ho_read H h))),
      rc_close = (\<lambda>h. in_controller (env (ho_close H h))),
      rc_random = in_controller (env (ho_random H)),
      rc_monotonic = Some (in_controller (env (p_monotonic (ho_ports H)))),
      rc_emit = record_reader_event H,
      rc_wait = cooperative_wait H\<rparr>"

definition feed_runtime :: "byte list \<Rightarrow> ('w access_side, record_result list) prog" where
  "feed_runtime data = zoom rr_stream rr_stream_update (feed data)"

definition runtime_start :: "'w host \<Rightarrow> ('w runtime, unit) prog" where
  "runtime_start H =
     sq (on_controller (start (ho_ports H)))
    (sq (on_host (ho_report H ''degraded'' [(''reason'', JStr ''reader_connecting'')]))
        (publish_snapshot H))"

definition run_once :: "'w host \<Rightarrow> ('w runtime, bool) prog" where
  "run_once H =
     sq (on_controller (tick (ho_ports H)))
        (try_finally
          (with_self (\<lambda>s.
             if \<not> connected s
             then bnd (connect_until_ready (runtime_calls H) 1) (\<lambda>ready.
                    if ready
                    then sq (on_host (ho_report H ''ready'' [(''reader'', JStr ''connected'')])) (ret True)
                    else ret False)
             else
               bnd (read_records_once (runtime_calls H) feed_runtime) (\<lambda>records.
                 sq (for_each records (\<lambda>r.
                       bnd (on_controller (submit_record (ho_ports H) r PHYSICAL_READER)) (\<lambda>_. skip)))
                (sq (on_controller (tick (ho_ports H))) (ret False)))))
          (publish_snapshot H))"

text \<open>
  The loop of \<open>run\<close> on fuel: \<open>True\<close> when it ended because a shutdown was requested. It runs on
  the state of its caller, which the callbacks reach; \<open>is_set\<close> and \<open>once\<close> are the stop event and
  \<open>run_once\<close> seen from there.
\<close>

fun run_rounds ::
  "nat \<Rightarrow> ('s, bool) prog \<Rightarrow> ('s, bool) prog \<Rightarrow> ('s, unit) prog option \<Rightarrow>
   ('s, unit) prog option \<Rightarrow> ('s, bool) prog" where
  "run_rounds 0 is_set once on_ready on_iteration = ret False"
| "run_rounds (Suc n) is_set once on_ready on_iteration =
     bnd is_set (\<lambda>stop.
       if stop then ret True
       else
         bnd once (\<lambda>ready.
           sq (if ready then (case on_ready of None \<Rightarrow> skip | Some f \<Rightarrow> f) else skip)
          (sq (case on_iteration of None \<Rightarrow> skip | Some f \<Rightarrow> f)
              (run_rounds n is_set once on_ready on_iteration))))"

definition request_shutdown :: "'w host \<Rightarrow> ('w runtime, unit) prog" where
  "request_shutdown H = on_host (ho_set_stop H)"

definition report_fault :: "'w host \<Rightarrow> ('w runtime, unit) prog" where
  "report_fault H = on_host (ho_report H ''faulted'' [])"

definition handle_failure :: "'w host \<Rightarrow> ('w runtime, unit) prog" where
  "handle_failure H =
     sq (on_controller (recoverable_failure (ho_ports H))) (publish_snapshot H)"

text \<open>
  \<open>for cleanup in (...): try: cleanup() except BaseException as exc: failures.append(exc)\<close>.
\<close>

fun collect_failures :: "('s, unit) prog list \<Rightarrow> ('s, exn list) prog" where
  "collect_failures [] = ret []"
| "collect_failures (m # ms) =
     bnd (try_except (\<lambda>_. True) (sq m (ret [])) (\<lambda>e. ret [e])) (\<lambda>failure.
       bnd (collect_failures ms) (\<lambda>failures. ret (failure @ failures)))"

definition runtime_shutdown :: "'w host \<Rightarrow> ('w runtime, unit) prog" where
  "runtime_shutdown H =
     with_self (\<lambda>s.
       if rr_shutdown_complete (sv_env s) then skip
       else
         bnd (collect_failures
                [on_controller (shutdown (ho_ports H)),
                 close_supervisor (runtime_calls H),
                 on_host (ho_report H ''stopped'' [])])
           (\<lambda>failures.
              if failures \<noteq> []
              then sq (publish_snapshot H)
                      (throw (ExceptionGroup ''runtime shutdown failed'' failures))
              else sq (world (modify (rr_shutdown_complete_update (\<lambda>_. True))))
                      (publish_snapshot H)))"

end
