(* ===== verification/Waiting.thy ===== *)
theory Waiting
  imports Runtime
begin

text \<open>
  The termination of \<open>EventWaiter.wait\<close>: what the loop needs of the clock, the stop event and its
  callback, and how much fuel is then enough.
\<close>

text \<open>
  \<open>time\<close> reads the clock off the state. Reading it, waiting on the stop event and the callback
  return; time does not run backwards; and a wait that is not interrupted lasts as long as it was
  asked to.
\<close>

definition time_passes ::
  "('s \<Rightarrow> seconds) \<Rightarrow> ('s, seconds) prog \<Rightarrow> (seconds \<Rightarrow> ('s, bool) prog) \<Rightarrow> ('s, unit) prog \<Rightarrow> bool" where
  "time_passes time clock stop_wait on_interval \<longleftrightarrow>
     (\<forall>s. \<exists>s'. clock s = (Inr (time s'), s') \<and> time s \<le> time s') \<and>
     (\<forall>d s. \<exists>b s'. stop_wait d s = (Inr b, s') \<and> (\<not> b \<longrightarrow> time s + d \<le> time s')) \<and>
     (\<forall>s. \<exists>s'. on_interval s = (Inr (), s') \<and> time s \<le> time s')"

text \<open>One round of the loop: it ends, or the clock gets an interval further, or to the deadline.\<close>

lemma wait_round:
  assumes "time_passes time clock stop_wait on_interval" and "0 < interval"
  shows "\<exists>s'. (wait_rounds (Suc n) clock stop_wait interval deadline on_interval s =
        (Inr (Some True), s') \<and> deadline \<le> time s') \<or>
    wait_rounds (Suc n) clock stop_wait interval deadline on_interval s = (Inr (Some False), s') \<or>
    (wait_rounds (Suc n) clock stop_wait interval deadline on_interval s =
        wait_rounds n clock stop_wait interval deadline on_interval s' \<and>
      min deadline (time s + interval) \<le> time s')"
proof -
  note t = assms(1) [unfolded time_passes_def]
  obtain s1 where s1: "clock s = (Inr (time s1), s1)" "time s \<le> time s1" using t by blast
  show ?thesis
  proof (cases "time s1 < deadline")
    case False
    then show ?thesis using s1 by (auto simp: bnd_def ret_def)
  next
    case True
    obtain s2 where s2: "on_interval s1 = (Inr (), s2)" "time s1 \<le> time s2" using t by blast
    obtain s3 where s3: "clock s2 = (Inr (time s3), s3)" "time s2 \<le> time s3" using t by blast
    define d where "d = min interval (max 0 (deadline - time s3))"
    obtain b s4 where s4: "stop_wait d s3 = (Inr b, s4)" "\<not> b \<longrightarrow> time s3 + d \<le> time s4"
      using t by blast
    have run: "wait_rounds (Suc n) clock stop_wait interval deadline on_interval s =
        (if b then (Inr (Some False), s4)
         else wait_rounds n clock stop_wait interval deadline on_interval s4)"
      using s1(1) s2(1) s3(1) s4(1) True by (simp add: bnd_def sq_def ret_def Let_def d_def)
    show ?thesis
    proof (cases b)
      case False
      have "min deadline (time s + interval) \<le> time s3 + d"
        using s1(2) s2(2) s3(2) assms(2) by (auto simp: d_def min_def max_def)
      then show ?thesis using run False s4(2) by auto
    qed (use run in auto)
  qed
qed

lemma wait_rounds_end:
  assumes "time_passes time clock stop_wait on_interval" and "0 < interval"
    and "deadline - time s \<le> of_nat k * interval"
  shows "\<exists>b s'. wait_rounds (Suc k) clock stop_wait interval deadline on_interval s = (Inr (Some b), s') \<and>
    (b \<longrightarrow> deadline \<le> time s')"
  using assms(3)
proof (induction k arbitrary: s)
  case 0
  have t: "deadline \<le> time s" using 0 by simp
  obtain s1 where "clock s = (Inr (time s1), s1)" "time s \<le> time s1"
    using assms(1) unfolding time_passes_def by blast
  with t show ?case by (auto simp: bnd_def ret_def)
next
  case (Suc k)
  obtain s' where s': "(wait_rounds (Suc (Suc k)) clock stop_wait interval deadline on_interval s =
        (Inr (Some True), s') \<and> deadline \<le> time s') \<or>
    wait_rounds (Suc (Suc k)) clock stop_wait interval deadline on_interval s = (Inr (Some False), s') \<or>
    (wait_rounds (Suc (Suc k)) clock stop_wait interval deadline on_interval s =
        wait_rounds (Suc k) clock stop_wait interval deadline on_interval s' \<and>
      min deadline (time s + interval) \<le> time s')"
    using wait_round [OF assms(1,2)] by blast
  have "deadline - time s' \<le> of_nat k * interval" if m: "min deadline (time s + interval) \<le> time s'"
  proof (cases "deadline \<le> time s'")
    case True
    have "0 \<le> of_nat k * interval" using assms(2) by simp
    then show ?thesis using True by linarith
  next
    case False
    then have "time s + interval \<le> time s'" using m by (auto simp: min_def split: if_splits)
    then show ?thesis using Suc.prems by (simp add: algebra_simps)
  qed
  with s' Suc.IH [of s'] show ?case by fastforce
qed

text \<open>
  C40. Waiting ends. When time passes and the interval is positive, fuel for one round more than
  \<open>duration / interval\<close>, rounded up, is enough for the loop of \<open>EventWaiter.wait\<close>: it returns,
  and unless the stop event interrupted it the deadline has been reached.
\<close>

theorem event_wait_ends:
  assumes "time_passes time clock stop_wait on_interval" and "0 < interval"
    and "nat \<lceil>duration / interval\<rceil> < fuel"
  shows "\<exists>s'. event_wait fuel clock stop_wait interval duration on_interval s = (Inr (Some False), s') \<or>
    (event_wait fuel clock stop_wait interval duration on_interval s = (Inr (Some True), s') \<and>
      time s + duration \<le> time s')"
proof -
  obtain s1 where s1: "clock s = (Inr (time s1), s1)" "time s \<le> time s1"
    using assms(1) unfolding time_passes_def by blast
  obtain k where fuel: "fuel = Suc k" using assms(3) by (cases fuel) auto
  have "\<lceil>duration / interval\<rceil> \<le> int k" using assms(3) fuel by linarith
  then have "duration / interval \<le> of_nat k" by (simp add: ceiling_le_iff)
  then have "time s1 + duration - time s1 \<le> of_nat k * interval"
    using assms(2) by (simp add: pos_divide_le_eq)
  then obtain b s' where s': "wait_rounds (Suc k) clock stop_wait interval (time s1 + duration) on_interval s1 =
      (Inr (Some b), s')" "b \<longrightarrow> time s1 + duration \<le> time s'"
    using wait_rounds_end [OF assms(1,2)] by blast
  have "event_wait fuel clock stop_wait interval duration on_interval s = (Inr (Some b), s')"
    using s'(1) s1(1) fuel by (simp add: event_wait_def bnd_def)
  then show ?thesis using s'(2) s1(2) by (cases b) auto
qed

text \<open>The test waiter's world: \<open>ManualClock\<close>, advanced by every wait.\<close>

definition manual_wait :: "seconds \<Rightarrow> (manual_clock, bool) prog" where
  "manual_wait d = sq (manual_advance (max 0 d)) (ret False)"

lemma manual_time_passes: "time_passes mc_elapsed manual_monotonic manual_wait skip"
proof -
  have "\<exists>s'. manual_wait d s = (Inr False, s') \<and> mc_elapsed s' = mc_elapsed s + max 0 d" for d s
    by (simp add: manual_wait_def manual_advance_def prog_simps)
  then show ?thesis by (fastforce simp: time_passes_def manual_monotonic_def prog_simps)
qed

lemma event_wait_ends_witness:
  "\<exists>s'. event_wait 21 manual_monotonic manual_wait (1 / 20) 1 skip new_manual_clock = (Inr (Some False), s') \<or>
    (event_wait 21 manual_monotonic manual_wait (1 / 20) 1 skip new_manual_clock = (Inr (Some True), s') \<and>
      mc_elapsed new_manual_clock + 1 \<le> mc_elapsed s')"
  by (rule event_wait_ends [OF manual_time_passes]) simp_all

end
