(* ===== verification/Runtime_Invariants.thy ===== *)
theory Runtime_Invariants
  imports Runtime
begin

text \<open>
  What every operation of the runtime keeps. The contract of the host is the locale
  \<open>runtime_host\<close>: the ports obey \<open>controller_ports\<close>, nothing else the host provides touches the
  relay or the audit trail, and the waiter does nothing but wait and run its callback.
\<close>

section \<open>Invariants of the environment through the supervisor\<close>

definition calls_keep :: "'e reader_calls \<Rightarrow> ('e \<Rightarrow> bool) \<Rightarrow> bool" where
  "calls_keep C J \<longleftrightarrow>
     keeps J (rc_enumerate C) \<and> (\<forall>p. keeps J (rc_open C p)) \<and> (\<forall>h. keeps J (rc_read C h)) \<and>
     (\<forall>h. keeps J (rc_close C h)) \<and> keeps J (rc_random C) \<and>
     (\<forall>m. rc_monotonic C = Some m \<longrightarrow> keeps J m) \<and>
     (\<forall>ev. keeps (\<lambda>s. J (sv_env s)) (rc_emit C ev)) \<and>
     (\<forall>d. keeps (\<lambda>s. J (sv_env s)) (rc_wait C d))"

lemma keeps_world: "keeps J m \<Longrightarrow> keeps (\<lambda>s. J (sv_env s)) (world m)"
  unfolding world_def by (rule keeps_zoom [where J = J]) auto

lemma calls_keepD:
  assumes "calls_keep C J"
  shows "keeps (\<lambda>s. J (sv_env s)) (world (rc_enumerate C))"
    "keeps (\<lambda>s. J (sv_env s)) (world (rc_open C p))"
    "keeps (\<lambda>s. J (sv_env s)) (world (rc_read C h))"
    "keeps (\<lambda>s. J (sv_env s)) (world (rc_close C h))"
    "keeps (\<lambda>s. J (sv_env s)) (world (rc_random C))"
    "rc_monotonic C = Some m \<Longrightarrow> keeps (\<lambda>s. J (sv_env s)) (world m)"
    "keeps (\<lambda>s. J (sv_env s)) (rc_emit C ev)"
    "keeps (\<lambda>s. J (sv_env s)) (rc_wait C d)"
  using assms by (auto simp: calls_keep_def intro: keeps_world)

lemma keeps_emit_attempt:
  "calls_keep C J \<Longrightarrow> keeps (\<lambda>s. J (sv_env s)) (emit_attempt C t b u)"
  unfolding emit_attempt_def by (intro keeps_rules calls_keepD(7))

lemma keeps_connection_failed:
  assumes "calls_keep C J"
  shows "keeps (\<lambda>s. J (sv_env s)) (connection_failed C f u)"
  unfolding connection_failed_def
  by (intro keeps_rules keeps_emit_attempt [OF assms] calls_keepD [OF assms]) simp_all

lemma keeps_connect_discovered:
  assumes "calls_keep C J"
  shows "keeps (\<lambda>s. J (sv_env s)) (connect_discovered C r)"
proof -
  have opened: "keeps (\<lambda>s. J (sv_env s)) (open_session C d)" for d
    unfolding open_session_def
    by (auto intro!: keeps_rules calls_keepD [OF assms] split: opened.split)
  have made: "keeps (\<lambda>s. J (sv_env s)) (connection_made C u)" for u
    unfolding connection_made_def by (intro keeps_rules keeps_emit_attempt [OF assms]) simp_all
  show ?thesis
    unfolding connect_discovered_def Let_def
    by (cases "dr_status r"; cases "dr_device r")
      (auto intro!: keeps_rules opened made keeps_connection_failed [OF assms])
qed

lemma keeps_connect_until_ready:
  assumes "calls_keep C J"
  shows "keeps (\<lambda>s. J (sv_env s)) (connect_until_ready C n)"
proof -
  have attempt: "keeps (\<lambda>s. J (sv_env s)) (attempt_connection C)"
    unfolding attempt_connection_def
    by (intro keeps_rules keeps_emit_attempt [OF assms] calls_keepD [OF assms]
        keeps_connect_discovered [OF assms]) simp_all
  have "keeps (\<lambda>s. J (sv_env s)) (connect_rounds C k)" for k
    by (induction k) (auto intro!: keeps_rules attempt split: option.split)
  then show ?thesis by (simp add: connect_until_ready_def)
qed

lemma keeps_disconnect:
  assumes "calls_keep C J"
  shows "keeps (\<lambda>s. J (sv_env s)) (disconnect C)"
  unfolding disconnect_def by (intro keeps_rules calls_keepD [OF assms]) simp_all

lemma keeps_read_records_once:
  assumes "calls_keep C J" and "\<And>data. keeps J (feed_stream data)"
  shows "keeps (\<lambda>s. J (sv_env s)) (read_records_once C feed_stream)"
proof -
  have received: "keeps (\<lambda>s. J (sv_env s)) (record_received C data)" for data
    unfolding record_received_def
    by (auto intro!: keeps_rules calls_keepD [OF assms(1)] split: option.split)
  have "keeps (\<lambda>s. J (sv_env s)) (read_once C)"
    unfolding read_once_def
    by (intro keeps_rules calls_keepD [OF assms(1)] keeps_disconnect [OF assms(1)] received)
  then show ?thesis
    unfolding read_records_once_def
    by (intro keeps_rules keeps_world assms(2) calls_keepD [OF assms(1)])
qed

lemma keeps_close_supervisor:
  assumes "calls_keep C J"
  shows "keeps (\<lambda>s. J (sv_env s)) (close_supervisor C)"
  unfolding close_supervisor_def by (intro keeps_rules keeps_disconnect [OF assms]) simp_all

section \<open>Invariants of the world through the runtime\<close>

definition world_of :: "'w runtime \<Rightarrow> 'w" where
  "world_of s = ct_env (rr_controller (sv_env s))"

lemma keeps_in_controller:
  "keeps (\<lambda>c. J (ct_env c)) m \<Longrightarrow> keeps (\<lambda>a. J (ct_env (rr_controller a))) (in_controller m)"
  unfolding in_controller_def by (rule keeps_zoom [where J = "\<lambda>c. J (ct_env c)"]) auto

lemma keeps_on_controller:
  "keeps (\<lambda>c. J (ct_env c)) m \<Longrightarrow> keeps (\<lambda>s. J (world_of s)) (on_controller m)"
  unfolding on_controller_def world_of_def by (intro keeps_world keeps_in_controller)

lemma keeps_on_host: "keeps J m \<Longrightarrow> keeps (\<lambda>s. J (world_of s)) (on_host m)"
  unfolding on_host_def by (intro keeps_on_controller keeps_env)

lemma keeps_own_part:
  "(\<And>a. ct_env (rr_controller (f a)) = ct_env (rr_controller a)) \<Longrightarrow>
   keeps (\<lambda>s. J (world_of s)) (world (modify f))"
  by (rule keepsI) (auto simp: world_def zoom_def modify_def world_of_def)

text \<open>
  \<open>J\<close> is kept by everything the host provides, and by every call of the controller.
\<close>

definition host_keeps :: "'w host \<Rightarrow> ('w \<Rightarrow> bool) \<Rightarrow> bool" where
  "host_keeps H J \<longleftrightarrow>
     (\<forall>x. keeps (\<lambda>c. J (ct_env c)) (perform (ho_ports H) x)) \<and>
     keeps J (p_monotonic (ho_ports H)) \<and> keeps J (p_now (ho_ports H)) \<and>
     keeps J (p_uuid (ho_ports H)) \<and>
     (\<forall>ev. public_event (drawn_ids (ho_ports H)) ev \<longrightarrow> keeps J (p_audit_append (ho_ports H) ev)) \<and>
     (\<forall>status details. keeps J (ho_report H status details)) \<and>
     keeps J (ho_enumerate H) \<and> (\<forall>p. keeps J (ho_open H p)) \<and> (\<forall>h. keeps J (ho_read H h)) \<and>
     (\<forall>h. keeps J (ho_close H h)) \<and> keeps J (ho_random H) \<and> keeps J (ho_is_set H) \<and>
     keeps J (ho_set_stop H) \<and>
     (\<forall>d m. keeps (\<lambda>s. J (world_of s)) m \<longrightarrow> keeps (\<lambda>s. J (world_of s)) (ho_wait H d m))"

lemma host_keepsD:
  assumes "host_keeps H J"
  shows "keeps (\<lambda>c. J (ct_env c)) (perform (ho_ports H) x)"
    "keeps J (p_monotonic (ho_ports H))" "keeps J (p_now (ho_ports H))"
    "keeps J (p_uuid (ho_ports H))"
    "public_event (drawn_ids (ho_ports H)) ev \<Longrightarrow> keeps J (p_audit_append (ho_ports H) ev)"
    "keeps J (ho_report H status details)" "keeps J (ho_enumerate H)" "keeps J (ho_open H p)"
    "keeps J (ho_read H h)" "keeps J (ho_close H h)" "keeps J (ho_random H)"
    "keeps J (ho_is_set H)" "keeps J (ho_set_stop H)"
    "keeps (\<lambda>s. J (world_of s)) m \<Longrightarrow> keeps (\<lambda>s. J (world_of s)) (ho_wait H d m)"
  using assms by (auto simp: host_keeps_def)

lemma keeps_calls:
  assumes "host_keeps H J"
  shows "keeps (\<lambda>s. J (world_of s)) (on_controller (start (ho_ports H)))"
    "keeps (\<lambda>s. J (world_of s)) (on_controller (tick (ho_ports H)))"
    "keeps (\<lambda>s. J (world_of s)) (on_controller (recoverable_failure (ho_ports H)))"
    "keeps (\<lambda>s. J (world_of s)) (on_controller (shutdown (ho_ports H)))"
    "keeps (\<lambda>s. J (world_of s)) (on_controller (submit_record (ho_ports H) r source))"
proof -
  show "keeps (\<lambda>s. J (world_of s)) (on_controller (start (ho_ports H)))"
    using keeps_on_controller [OF host_keepsD(1) [OF assms, of Start]] by simp
  show "keeps (\<lambda>s. J (world_of s)) (on_controller (tick (ho_ports H)))"
    using keeps_on_controller [OF host_keepsD(1) [OF assms, of Tick]] by simp
  show "keeps (\<lambda>s. J (world_of s)) (on_controller (recoverable_failure (ho_ports H)))"
    using keeps_on_controller [OF host_keepsD(1) [OF assms, of RecoverableFailure]] by simp
  show "keeps (\<lambda>s. J (world_of s)) (on_controller (shutdown (ho_ports H)))"
    using keeps_on_controller [OF host_keepsD(1) [OF assms, of Shutdown]] by simp
  have "keeps (\<lambda>c. J (ct_env c)) (process (ho_ports H) r)"
  proof (rule keepsI)
    fix c x c' assume "J (ct_env c)" and "process (ho_ports H) r c = (x, c')"
    moreover obtain y where "perform (ho_ports H) (Process r) c = (y, c')"
      using calculation(2) by (cases x) (auto simp: bnd_def skip_def)
    ultimately show "J (ct_env c')" using keepsD [OF host_keepsD(1) [OF assms]] by blast
  qed
  then show "keeps (\<lambda>s. J (world_of s)) (on_controller (submit_record (ho_ports H) r source))"
    unfolding submit_record_def by (intro keeps_on_controller keeps_rules)
qed

lemma keeps_publish_snapshot:
  assumes "host_keeps H J"
  shows "keeps (\<lambda>s. J (world_of s)) (publish_snapshot H)"
proof -
  have c: "keeps (\<lambda>c. J (ct_env c)) (controller_snapshot (ho_ports H))"
    unfolding controller_snapshot_def by (intro keeps_rules keeps_env host_keepsD [OF assms])
  have p: "keeps (\<lambda>s. J (world_of s)) (world (zoom (\<lambda>a. the (rr_published a))
      (\<lambda>f. rr_published_update (map_option f)) m))" for m :: "(snapshot_store, unit) prog"
    by (rule keepsI) (auto simp: world_def zoom_def world_of_def split: prod.splits)
  have r: "keeps (\<lambda>s. J (world_of s)) (reader_state_snapshot H)"
    unfolding reader_state_snapshot_def
    by (intro keeps_rules keeps_on_host host_keepsD [OF assms])
  show ?thesis
    unfolding publish_snapshot_def
    by (intro keeps_rules keeps_on_controller [OF c] r keeps_on_host host_keepsD [OF assms] p)
qed

text \<open>The events recorded for the reader are within the vocabulary of the audit trail.\<close>

lemma reader_words_value: "reader_health_value h \<in> reader_words"
  by (cases h) (simp_all add: reader_words_def)

lemma reader_event_public:
  assumes "post_init
       \<lparr>ev_event_type = et, ev_severity = sev, ev_timestamp = now,
        ev_correlation = (if n \<noteq> 0 then [(''attempt'', JInt n)] else []),
        ev_reader_state = Some (reader_health_value h),
        ev_controller_state = Some (controller_state_value x),
        ev_delivery_status = None, ev_event_id = uid\<rparr> = Inr ev"
    and "uid \<in> drawn"
  shows "public_event drawn ev"
  using assms reader_words_value
  by (intro public_eventI) (auto simp: post_init_Inr shape_rules)

lemma drawing_id:
  assumes "host_keeps H J"
  shows "triple (\<lambda>s. J (world_of s)) (on_host (p_uuid (ho_ports H)))
    (\<lambda>uid s. J (world_of s) \<and> uid \<in> drawn_ids (ho_ports H)) (\<lambda>_ s. J (world_of s))"
proof (rule tripleI)
  fix s uid t assume "J (world_of s)" and run: "on_host (p_uuid (ho_ports H)) s = (Inr uid, t)"
  moreover have "uid \<in> drawn_ids (ho_ports H)"
    using run by (auto simp: on_host_def on_controller_def in_controller_def world_def env_def
        zoom_def drawn_ids_def split: prod.splits)
  ultimately show "J (world_of t) \<and> uid \<in> drawn_ids (ho_ports H)"
    using keepsD [OF keeps_on_host [OF host_keepsD(4) [OF assms]]] by blast
qed (use keepsD [OF keeps_on_host [OF host_keepsD(4) [OF assms]]] in blast)

lemma keeps_record_reader_event:
  assumes "host_keeps H J"
  shows "keeps (\<lambda>s. J (world_of s)) (record_reader_event H ev)"
proof -
  have append: "keeps (\<lambda>s. J (world_of s)) (case post_init
         \<lparr>ev_event_type = et, ev_severity = sev, ev_timestamp = now,
          ev_correlation = (if n \<noteq> 0 then [(''attempt'', JInt n)] else []),
          ev_reader_state = Some (reader_health_value h),
          ev_controller_state = Some (controller_state_value x),
          ev_delivery_status = None, ev_event_id = uid\<rparr> of
       Inl e \<Rightarrow> throw e | Inr ev \<Rightarrow> on_host (p_audit_append (ho_ports H) ev))"
    if "uid \<in> drawn_ids (ho_ports H)" for et sev now n h x uid
  proof (rule keeps_sum)
    fix ev
    assume "post_init
         \<lparr>ev_event_type = et, ev_severity = sev, ev_timestamp = now,
          ev_correlation = (if n \<noteq> 0 then [(''attempt'', JInt n)] else []),
          ev_reader_state = Some (reader_health_value h),
          ev_controller_state = Some (controller_state_value x),
          ev_delivery_status = None, ev_event_id = uid\<rparr> = Inr ev"
    from reader_event_public [OF this that]
    show "keeps (\<lambda>s. J (world_of s)) (on_host (p_audit_append (ho_ports H) ev))"
      by (intro keeps_on_host host_keepsD [OF assms])
  qed (rule keeps_throw)
  show ?thesis
    unfolding record_reader_event_def
    by (intro keeps_sq keeps_if keeps_skip keeps_option keeps_throw keeps_bnd
        keeps_bnd_value [OF drawing_id [OF assms]] keeps_with_self append keeps_on_host
        host_keepsD [OF assms])
qed

lemma runtime_calls_keep:
  assumes "host_keeps H J"
  shows "calls_keep (runtime_calls H) (\<lambda>a. J (ct_env (rr_controller a)))"
proof -
  have "keeps (\<lambda>s. J (world_of s)) (tick_and_publish H)"
    unfolding tick_and_publish_def
    by (intro keeps_rules keeps_calls [OF assms] keeps_publish_snapshot [OF assms])
  then have "keeps (\<lambda>s. J (world_of s)) (cooperative_wait H d)" for d
    unfolding cooperative_wait_def by (rule host_keepsD(14) [OF assms])
  then show ?thesis
    using keeps_record_reader_event [OF assms]
    by (auto simp: calls_keep_def runtime_calls_def world_of_def
        intro!: keeps_in_controller keeps_env host_keepsD [OF assms])
qed

section \<open>All operations of the runtime\<close>

datatype runtime_call =
  RuntimeStart | RunOnce | Wait seconds | RequestShutdown | ReportFault | HandleFailure
| RuntimeShutdown

fun runtime_perform :: "'w host \<Rightarrow> runtime_call \<Rightarrow> ('w runtime, unit) prog" where
  "runtime_perform H RuntimeStart = runtime_start H"
| "runtime_perform H RunOnce = bnd (run_once H) (\<lambda>_. skip)"
| "runtime_perform H (Wait d) = bnd (cooperative_wait H d) (\<lambda>_. skip)"
| "runtime_perform H RequestShutdown = request_shutdown H"
| "runtime_perform H ReportFault = report_fault H"
| "runtime_perform H HandleFailure = handle_failure H"
| "runtime_perform H RuntimeShutdown = runtime_shutdown H"

lemma keeps_collect_failures:
  "(\<And>m. m \<in> set ms \<Longrightarrow> keeps I m) \<Longrightarrow> keeps I (collect_failures ms)"
  by (induction ms) (auto intro!: keeps_rules)

lemma keeps_run_once:
  assumes "host_keeps H J"
  shows "keeps (\<lambda>s. J (world_of s)) (run_once H)"
proof -
  note calls = runtime_calls_keep [OF assms]
  have c: "keeps (\<lambda>s. J (world_of s)) (connect_until_ready (runtime_calls H) n)" for n
    using keeps_connect_until_ready [OF calls] by (simp add: world_of_def)
  have "keeps (\<lambda>a. J (ct_env (rr_controller a))) (feed_runtime data)" for data
    unfolding feed_runtime_def by (rule keepsI) (auto simp: zoom_def split: prod.splits)
  then have r: "keeps (\<lambda>s. J (world_of s)) (read_records_once (runtime_calls H) feed_runtime)"
    using keeps_read_records_once [OF calls] by (simp add: world_of_def)
  show ?thesis
    unfolding run_once_def
    by (intro keeps_rules keeps_calls [OF assms] c r keeps_publish_snapshot [OF assms]
        keeps_on_host host_keepsD [OF assms])
qed

lemma keeps_runtime_perform:
  assumes "host_keeps H J"
  shows "keeps (\<lambda>s. J (world_of s)) (runtime_perform H x)"
proof (cases x)
  case (Wait d)
  have "keeps (\<lambda>s. J (world_of s)) (cooperative_wait H d)"
    using calls_keepD(8) [OF runtime_calls_keep [OF assms], of d]
    by (simp add: runtime_calls_def world_of_def)
  then show ?thesis using Wait by (auto intro: keeps_rules)
next
  case RuntimeShutdown
  have close: "keeps (\<lambda>s. J (world_of s)) (close_supervisor (runtime_calls H))"
    using keeps_close_supervisor [OF runtime_calls_keep [OF assms]] by (simp add: world_of_def)
  have "keeps (\<lambda>s. J (world_of s)) (collect_failures
      [on_controller (shutdown (ho_ports H)), close_supervisor (runtime_calls H),
       on_host (ho_report H ''stopped'' [])])"
    by (rule keeps_collect_failures)
      (auto intro!: close keeps_calls [OF assms] keeps_on_host host_keepsD [OF assms])
  then have "keeps (\<lambda>s. J (world_of s)) (runtime_shutdown H)"
    unfolding runtime_shutdown_def
    by (intro keeps_rules keeps_publish_snapshot [OF assms] keeps_own_part) simp_all
  then show ?thesis using RuntimeShutdown by simp
qed (auto simp: runtime_start_def request_shutdown_def report_fault_def handle_failure_def
    intro!: keeps_rules keeps_run_once [OF assms] keeps_calls [OF assms]
      keeps_publish_snapshot [OF assms] keeps_on_host host_keepsD [OF assms])

end
