(* ===== verification/Runtime_Hardware.thy ===== *)
theory Runtime_Hardware
  imports Runtime_Invariants
begin

text \<open>
  The contract \<open>runtime_host\<close> of what the runtime is given, and the host of
  \<open>hardware_service.py\<close> as its interpretation: the hardware ports of the controller, the
  \<open>EventWaiter\<close>, and the peripherals (serial reader, health file, stop event), which are part of
  the state \<open>'g\<close> of the hardware and need only leave the relay pin alone.
\<close>

section \<open>The contract of the host\<close>

definition quiet_step ::
  "('w \<Rightarrow> bool) \<Rightarrow> ('w \<Rightarrow> bool) \<Rightarrow> ('w \<Rightarrow> 'e list) \<Rightarrow> 'w \<Rightarrow> 'w \<Rightarrow> bool" where
  "quiet_step ok level trail w w' \<longleftrightarrow>
     (ok w \<longrightarrow> ok w') \<and> level w' = level w \<and> trail w' = trail w"

definition quiet ::
  "('w \<Rightarrow> bool) \<Rightarrow> ('w \<Rightarrow> bool) \<Rightarrow> ('w \<Rightarrow> 'e list) \<Rightarrow> ('w, 'a) prog \<Rightarrow> bool" where
  "quiet ok level trail m \<longleftrightarrow>
     (\<forall>w r w'. m w = (r, w') \<longrightarrow> quiet_step ok level trail w w')"

lemma quiet_keeps:
  "quiet ok level trail m \<Longrightarrow> (\<And>w w'. J w \<Longrightarrow> quiet_step ok level trail w w' \<Longrightarrow> J w') \<Longrightarrow>
   keeps J m"
  by (rule keepsI) (auto simp: quiet_def)

locale runtime_host =
  controller_ports "ho_ports H" level inv trail entry
  for H :: "'w host" and level :: "'w \<Rightarrow> bool" and inv :: "'w \<Rightarrow> bool"
    and trail :: "'w \<Rightarrow> 'e list" and entry :: "audit_event \<Rightarrow> 'e" +
  assumes report_quiet: "quiet inv level trail (ho_report H status details)"
    and enumerate_quiet: "quiet inv level trail (ho_enumerate H)"
    and open_quiet: "quiet inv level trail (ho_open H path)"
    and read_quiet: "quiet inv level trail (ho_read H h)"
    and close_quiet: "quiet inv level trail (ho_close H h)"
    and random_quiet: "quiet inv level trail (ho_random H)"
    and is_set_quiet: "quiet inv level trail (ho_is_set H)"
    and set_stop_quiet: "quiet inv level trail (ho_set_stop H)"
    and wait_keeps:
      "(\<And>w w'. J w \<Longrightarrow> quiet_step inv level trail w w' \<Longrightarrow> J w') \<Longrightarrow>
       keeps (\<lambda>s. J (world_of s)) m \<Longrightarrow> keeps (\<lambda>s. J (world_of s)) (ho_wait H d m)"
begin

lemma ports_quiet:
  "quiet inv level trail (p_monotonic (ho_ports H))" "quiet inv level trail (p_now (ho_ports H))"
  "quiet inv level trail (p_uuid (ho_ports H))"
  using keepsD [OF monotonic_inv] keepsD [OF now_inv] keepsD [OF uuid_inv]
    preservesD [OF monotonic_level] preservesD [OF now_level] preservesD [OF uuid_level]
    preservesD [OF monotonic_trail] preservesD [OF now_trail] preservesD [OF uuid_trail]
  by (auto simp: quiet_def quiet_step_def)

lemma host_keeps_stable:
  assumes stable: "\<And>w w'. J w \<Longrightarrow> quiet_step inv level trail w w' \<Longrightarrow> J w'"
    and "\<And>x. keeps (\<lambda>c. J (ct_env c)) (perform (ho_ports H) x)"
    and "\<And>ev. public_event (drawn_ids (ho_ports H)) ev \<Longrightarrow>
      keeps J (p_audit_append (ho_ports H) ev)"
  shows "host_keeps H J"
proof -
  note q = quiet_keeps [where ok = inv and level = level and trail = trail and J = J, OF _ stable]
  have w: "keeps (\<lambda>s. J (world_of s)) (ho_wait H d m)" if "keeps (\<lambda>s. J (world_of s)) m" for d m
    by (rule wait_keeps [OF _ that]) (rule stable)
  show ?thesis
    unfolding host_keeps_def
    by (intro conjI allI impI assms(2,3) w q ports_quiet report_quiet enumerate_quiet open_quiet
        read_quiet close_quiet random_quiet is_set_quiet set_stop_quiet)
qed

text \<open>
  The guard of the door: since the trail was \<open>old\<close> it has only grown, and when the relay is high
  it has grown by an audited authorization.
\<close>

definition guarded :: "'e list \<Rightarrow> 'w \<Rightarrow> bool" where
  "guarded old w \<longleftrightarrow> inv w \<and>
     (\<exists>new. trail w = old @ new \<and>
        (level w \<longrightarrow> (\<exists>ev. event_ok ev \<and> ev_event_type ev = CREDENTIAL_AUTHORIZED \<and>
           entry ev \<in> set new)))"

lemma guarded_low: "inv w \<Longrightarrow> \<not> level w \<Longrightarrow> guarded (trail w) w"
  by (simp add: guarded_def)

lemma guarded_quiet: "guarded old w \<Longrightarrow> quiet_step inv level trail w w' \<Longrightarrow> guarded old w'"
  by (auto simp: guarded_def quiet_step_def)

lemma guarded_append: "event_ok ev \<Longrightarrow> keeps (guarded old) (p_audit_append (ho_ports H) ev)"
proof (rule keepsI)
  fix w r w' assume g: "guarded old w" and run: "p_audit_append (ho_ports H) ev w = (r, w')"
  have "inv w'" using keepsD [OF append_inv run] g by (simp add: guarded_def)
  moreover have "level w' = level w" by (rule preservesD [OF append_level run])
  moreover obtain new where "trail w' = trail w @ new" using append_grows [OF run] by blast
  ultimately show "guarded old w'" using g by (fastforce simp: guarded_def)
qed

lemma trail_grows:
  assumes "perform (ho_ports H) x c = (r, c')"
  shows "\<exists>new. trail (ct_env c') = trail (ct_env c) @ new"
proof -
  have "keeps (\<lambda>w. \<exists>new. trail w = trail (ct_env c) @ new) (p_audit_append (ho_ports H) ev)" for ev
    by (rule keepsI) (auto dest!: append_grows)
  then have k: "ports_keep (ho_ports H) (\<lambda>_. True) (\<lambda>w. \<exists>new. trail w = trail (ct_env c) @ new)"
    by (rule keep_trail_property [where Q = "\<lambda>t. \<exists>new. t = trail (ct_env c) @ new"])
  show ?thesis using keepsD [OF keeps_perform [OF k] assms] by simp
qed

lemma guarded_perform: "keeps (\<lambda>c. guarded old (ct_env c)) (perform (ho_ports H) x)"
proof (rule keepsI)
  fix c r c' assume g: "guarded old (ct_env c)" and run: "perform (ho_ports H) x c = (r, c')"
  have i: "inv (ct_env c')"
    using keepsD [OF keeps_perform [OF keep_inv] run] g by (simp add: guarded_def)
  obtain new where new: "trail (ct_env c') = trail (ct_env c) @ new" using trail_grows [OF run] by blast
  obtain before where before: "trail (ct_env c) = old @ before" using g by (auto simp: guarded_def)
  show "guarded old (ct_env c')"
  proof (cases "level (ct_env c') \<and> \<not> level (ct_env c)")
    case True
    then have "authorization_audited trail entry (trail (ct_env c)) (ct_env c')"
      using rising_call [OF _ _ run] g by (auto simp: guarded_def)
    then show ?thesis
      using i before by (fastforce simp: guarded_def authorization_audited_def)
  next
    case False
    then show ?thesis using g i new by (fastforce simp: guarded_def)
  qed
qed

lemma host_keeps_guarded: "host_keeps H (guarded old)"
proof (rule host_keeps_stable)
  show "guarded old w'" if "guarded old w" "quiet_step inv level trail w w'" for w w'
    using that by (rule guarded_quiet)
  show "keeps (guarded old) (p_audit_append (ho_ports H) ev)"
    if "public_event (drawn_ids (ho_ports H)) ev" for ev
    by (rule guarded_append [OF public_event_ok [OF that]])
qed (rule guarded_perform)

text \<open>What every append keeps of the trail, the whole runtime keeps.\<close>

lemma host_keeps_trail:
  assumes "\<And>ev. public_event (drawn_ids (ho_ports H)) ev \<Longrightarrow>
    keeps (\<lambda>w. Q (trail w)) (p_audit_append (ho_ports H) ev)"
  shows "host_keeps H (\<lambda>w. Q (trail w))"
proof (rule host_keeps_stable)
  show "keeps (\<lambda>c. Q (trail (ct_env c))) (perform (ho_ports H) x)" for x
    using keeps_perform [OF keep_trail_property [OF assms]] by simp
qed (auto simp: quiet_step_def assms)

lemma host_keeps_private:
  assumes "\<And>ev. public_event (drawn_ids (ho_ports H)) ev \<Longrightarrow> Q (entry ev)"
  shows "host_keeps H (\<lambda>w. \<forall>x\<in>set (trail w). Q x)"
  by (rule host_keeps_trail) (rule append_keeps_all, rule assms)

end

section \<open>Runs of the runtime\<close>

text \<open>Calls of the runtime, and changes of the world in between.\<close>

inductive runtime_step :: "'w host \<Rightarrow> ('w \<Rightarrow> 'w \<Rightarrow> bool) \<Rightarrow> 'w runtime \<Rightarrow> 'w runtime \<Rightarrow> bool"
  for H W where
  call: "runtime_perform H x s = (r, t) \<Longrightarrow> runtime_step H W s t"
| outside: "W (world_of s) (world_of t) \<Longrightarrow> runtime_step H W s t"

lemma runtime_reachable:
  assumes "host_keeps H J" and "\<And>w w'. J w \<Longrightarrow> W w w' \<Longrightarrow> J w'"
  shows "(runtime_step H W)\<^sup>*\<^sup>* s t \<Longrightarrow> J (world_of s) \<Longrightarrow> J (world_of t)"
proof (induction rule: rtranclp_induct)
  case (step t u)
  then have "J (world_of t)" by blast
  with step.hyps(2) show ?case
    using keepsD [OF keeps_runtime_perform [OF assms(1)]] assms(2)
    by (cases rule: runtime_step.cases) blast+
qed

section \<open>The peripherals of the hardware\<close>

text \<open>
  What the hardware service uses besides relay, clock, database and queue, over the state of the
  hardware: the health file, the serial devices, the jitter source and the stop event.
\<close>

record 'g peripherals =
  pe_report :: "string \<Rightarrow> json_object \<Rightarrow> ('g, unit) prog"
  pe_enumerate :: "('g, serial_device list) prog"
  pe_open :: "string \<Rightarrow> ('g, opened) prog"
  pe_read :: "nat \<Rightarrow> ('g, byte list) prog"
  pe_close :: "nat \<Rightarrow> ('g, unit) prog"
  pe_random :: "('g, seconds) prog"
  pe_is_set :: "('g, bool) prog"
  pe_set_stop :: "('g, unit) prog"
  pe_stop_wait :: "seconds \<Rightarrow> ('g, bool) prog"

locale hardware = gpio_contract D pin
  for D :: "'g gpio_driver" and pin :: "'g \<Rightarrow> bool" +
  fixes E :: "'g peripherals"
  assumes report_pin: "preserves pin (pe_report E status details)"
    and enumerate_pin: "preserves pin (pe_enumerate E)"
    and open_pin: "preserves pin (pe_open E path)"
    and read_pin: "preserves pin (pe_read E h)"
    and close_pin: "preserves pin (pe_close E h)"
    and random_pin: "preserves pin (pe_random E)"
    and is_set_pin: "preserves pin (pe_is_set E)"
    and set_stop_pin: "preserves pin (pe_set_stop E)"
    and stop_wait_pin: "preserves pin (pe_stop_wait E seconds)"

definition at_hardware :: "('g, 'a) prog \<Rightarrow> ('g hw_world, 'a) prog" where
  "at_hardware m = zoom hw_relay hw_relay_update (on_gpio m)"

text \<open>\<open>EventWaiter\<close> with its interval of 50 ms, on fuel.\<close>

definition hw_wait ::
  "'g gpio_driver \<Rightarrow> 'g peripherals \<Rightarrow> (nat \<Rightarrow> string) \<Rightarrow> nat \<Rightarrow> seconds \<Rightarrow>
   ('g hw_world runtime, unit) prog \<Rightarrow> ('g hw_world runtime, bool) prog" where
  "hw_wait D E U fuel duration on_interval =
     bnd (event_wait fuel (on_host (p_monotonic (hw_ports D U)))
            (\<lambda>s. on_host (at_hardware (pe_stop_wait E s))) (1 / 20) duration on_interval)
         (\<lambda>r. case r of
                None \<Rightarrow> throw (OtherError ''the wait has not ended'')
              | Some b \<Rightarrow> ret b)"

definition hw_host ::
  "'g gpio_driver \<Rightarrow> 'g peripherals \<Rightarrow> (nat \<Rightarrow> string) \<Rightarrow> nat \<Rightarrow> 'g hw_world host" where
  "hw_host D E U fuel =
     \<lparr>ho_ports = hw_ports D U,
      ho_report = (\<lambda>status details. at_hardware (pe_report E status details)),
      ho_enumerate = at_hardware (pe_enumerate E),
      ho_open = (\<lambda>path. at_hardware (pe_open E path)),
      ho_read = (\<lambda>h. at_hardware (pe_read E h)),
      ho_close = (\<lambda>h. at_hardware (pe_close E h)),
      ho_random = at_hardware (pe_random E),
      ho_is_set = at_hardware (pe_is_set E),
      ho_set_stop = at_hardware (pe_set_stop E),
      ho_wait = hw_wait D E U fuel\<rparr>"

lemma hw_host_ports: "ho_ports (hw_host D E U fuel) = hw_ports D U"
  by (simp add: hw_host_def)

lemma keeps_wait_rounds:
  assumes "keeps I clock" and "\<And>d. keeps I (stop_wait d)" and "keeps I m"
  shows "keeps I (wait_rounds n clock stop_wait interval deadline m)"
  by (induction n) (auto simp: Let_def intro!: keeps_rules assms)

lemma keeps_event_wait:
  "keeps I clock \<Longrightarrow> (\<And>d. keeps I (stop_wait d)) \<Longrightarrow> keeps I m \<Longrightarrow>
   keeps I (event_wait n clock stop_wait interval duration m)"
  unfolding event_wait_def by (intro keeps_rules keeps_wait_rounds)

lemma at_hardware_quiet:
  assumes "preserves pin m"
  shows "quiet (\<lambda>w. rpi_ok (hw_relay w)) (\<lambda>w. pin (rp_gpio (hw_relay w)))
    (\<lambda>w. sq_rows (hw_audit w)) (at_hardware m)"
  using preservesD [OF assms]
  by (auto simp: quiet_def quiet_step_def at_hardware_def on_gpio_def zoom_def rpi_ok_def
      split: prod.splits)

sublocale hardware \<subseteq> rt: runtime_host "hw_host D E U fuel" "\<lambda>w. pin (rp_gpio (hw_relay w))"
  "\<lambda>w. rpi_ok (hw_relay w)" "\<lambda>w. sq_rows (hw_audit w)" row_of_event for U fuel
proof (intro runtime_host.intro runtime_host_axioms.intro)
  show "controller_ports (ho_ports (hw_host D E U fuel)) (\<lambda>w. pin (rp_gpio (hw_relay w)))
      (\<lambda>w. rpi_ok (hw_relay w)) (\<lambda>w. sq_rows (hw_audit w)) row_of_event"
    unfolding hw_host_ports by (rule hw.controller_ports_axioms)
next
  fix J :: "'g hw_world \<Rightarrow> bool" and m :: "('g hw_world runtime, unit) prog" and d
  assume stable: "\<And>w w'. J w \<Longrightarrow> quiet_step (\<lambda>w. rpi_ok (hw_relay w))
      (\<lambda>w. pin (rp_gpio (hw_relay w))) (\<lambda>w. sq_rows (hw_audit w)) w w' \<Longrightarrow> J w'"
    and m: "keeps (\<lambda>s. J (world_of s)) m"
  have clock: "keeps J (p_monotonic (hw_ports D U))"
    by (rule quiet_keeps [OF _ stable])
      (auto simp: quiet_def quiet_step_def hw_ports_def zoom_def split: prod.splits)
  have stop: "keeps J (at_hardware (pe_stop_wait E d))" for d
    by (rule quiet_keeps [OF at_hardware_quiet [OF stop_wait_pin] stable])
  show "keeps (\<lambda>s. J (world_of s)) (ho_wait (hw_host D E U fuel) d m)"
    unfolding hw_host_def host.simps hw_wait_def
    by (intro keeps_rules keeps_event_wait m keeps_on_host clock stop)
qed (simp_all add: hw_host_def at_hardware_quiet report_pin enumerate_pin open_pin read_pin
    close_pin random_pin is_set_pin set_stop_pin)

section \<open>The callbacks of the supervisor\<close>

text \<open>
  What the runtime passes to the supervisor works around it: recording an event and waiting, with
  its ticks and publications, do not write the supervisor's own attributes.
\<close>

lemma around_sq: "around m \<Longrightarrow> around n \<Longrightarrow> around (sq m n)"
  unfolding sq_def by (rule around_bnd)

lemma around_on_controller: "around (on_controller m)"
  unfolding on_controller_def by (rule around_world)

lemma around_on_host: "around (on_host m)"
  unfolding on_host_def by (rule around_on_controller)

lemmas runtime_around = around_sq around_on_controller around_on_host around_rules

lemma around_record_reader_event: "around (record_reader_event H event)"
  unfolding record_reader_event_def
  by (auto intro!: runtime_around split: option.splits sum.splits)

lemma around_publish_snapshot: "around (publish_snapshot H)"
  unfolding publish_snapshot_def reader_state_snapshot_def
  by (auto intro!: runtime_around split: option.splits)

lemma around_wait_rounds:
  "around clock \<Longrightarrow> (\<And>d. around (stop_wait d)) \<Longrightarrow> around m \<Longrightarrow>
   around (wait_rounds n clock stop_wait interval deadline m)"
  by (induction n) (auto simp: Let_def intro!: runtime_around)

lemma around_hw_wait: "around m \<Longrightarrow> around (hw_wait D E U fuel d m)"
  unfolding hw_wait_def event_wait_def
  by (auto intro!: runtime_around around_wait_rounds split: option.splits)

interpretation rt_calls: reader_callbacks "runtime_calls (hw_host D E U fuel)" for D E U fuel
proof
  fix ev seconds
  show "around (rc_emit (runtime_calls (hw_host D E U fuel)) ev)"
    by (simp add: runtime_calls_def around_record_reader_event)
  have "around (tick_and_publish (hw_host D E U fuel))"
    unfolding tick_and_publish_def by (intro runtime_around around_publish_snapshot)
  then show "around (rc_wait (runtime_calls (hw_host D E U fuel)) seconds)"
    by (simp add: runtime_calls_def cooperative_wait_def hw_host_def around_hw_wait)
qed

text \<open>What the runtime publishes of the reader is the supervisor's own snapshot.\<close>

lemma reader_state_is_supervisor_snapshot:
  "reader_state_snapshot H = supervisor_snapshot (runtime_calls H)"
proof
  fix x :: "'a runtime"
  show "reader_state_snapshot H x = supervisor_snapshot (runtime_calls H) x"
    by (cases "sv_last_record_at x")
      (simp_all add: reader_state_snapshot_def supervisor_snapshot_def runtime_calls_def
        last_record_age_def with_self_def bnd_def on_host_def on_controller_def)
qed

end
