(* ===== verification/Uvicorn_Server.thy ===== *)
theory Uvicorn_Server
  imports Prelude
begin

text \<open>
  \<open>adapters/http/uvicorn_server.py\<close>: the life cycle of the read-only API server. The callers of
  \<open>start\<close> and \<open>stop\<close> and the server's own thread run concurrently. Each block under the lock, and
  each access outside it, is one function here; an inductive step relation interleaves them. The
  \<open>uvicorn\<close> package is seen through \<open>started\<close>, \<open>should_exit\<close> and the way \<open>Server.run\<close> ends, at
  any time and with or without an exception.
\<close>

section \<open>States and failures\<close>

datatype api_state =
    ApiNew
  | ApiStarting
  | ApiRunning
  | ApiStartFailed
  | ApiStartTimedOut
  | ApiFailed
  | ApiStopping
  | ApiStopped
  | ApiStopTimedOut

fun api_state_value :: "api_state \<Rightarrow> string" where
  "api_state_value ApiNew = ''new''"
| "api_state_value ApiStarting = ''starting''"
| "api_state_value ApiRunning = ''running''"
| "api_state_value ApiStartFailed = ''start_failed''"
| "api_state_value ApiStartTimedOut = ''start_timed_out''"
| "api_state_value ApiFailed = ''failed''"
| "api_state_value ApiStopping = ''stopping''"
| "api_state_value ApiStopped = ''stopped''"
| "api_state_value ApiStopTimedOut = ''stop_timed_out''"

text \<open>The exceptions of the module, and any exception raised by the thread or by starting it.\<close>

datatype api_error =
    LifecycleError string
  | StartupError string
  | StartupTimeout string
  | StartupCancelled string
  | ShutdownTimeout string
  | ApiServerError string
  | Foreign exn

text \<open>
  The server's thread. \<open>Ended r\<close>: \<open>Server.run\<close> has returned, or raised \<open>r\<close>, and the handler has
  not yet taken the lock. \<open>Leaving\<close>: the handler is done, and the thread is still alive.
\<close>

datatype server_thread = Unstarted | Serving | Ended "exn option" | Leaving | Dead

definition is_alive :: "server_thread \<Rightarrow> bool" where
  "is_alive t \<longleftrightarrow> t \<noteq> Unstarted \<and> t \<noteq> Dead"

record uvicorn_server =
  us_state :: api_state
  us_failures :: "api_error list"
  us_thread :: server_thread
  us_started :: bool
  us_should_exit :: bool
  us_stop_complete :: bool

record api_snapshot =
  an_state :: api_state
  an_thread_alive :: bool
  an_failures :: "api_error list"

definition new_server :: "seconds \<Rightarrow> seconds \<Rightarrow> exn + uvicorn_server" where
  "new_server startup_timeout shutdown_timeout =
     (if startup_timeout \<le> 0 \<or> shutdown_timeout \<le> 0
      then Inl (ValueError ''API lifecycle timeouts must be positive'')
      else Inr \<lparr>us_state = ApiNew, us_failures = [], us_thread = Unstarted, us_started = False,
                us_should_exit = False, us_stop_complete = False\<rparr>)"

definition server_snapshot :: "uvicorn_server \<Rightarrow> api_snapshot" where
  "server_snapshot s =
     \<lparr>an_state = us_state s, an_thread_alive = is_alive (us_thread s), an_failures = us_failures s\<rparr>"

definition fail :: "api_error \<Rightarrow> api_state \<Rightarrow> uvicorn_server \<Rightarrow> uvicorn_server" where
  "fail e st s = s\<lparr>us_failures := us_failures s @ [e], us_state := st\<rparr>"

section \<open>start\<close>

text \<open>The first block: \<open>None\<close> when the caller goes on to start the thread.\<close>

definition start_enter :: "uvicorn_server \<Rightarrow> api_error option \<times> uvicorn_server" where
  "start_enter s =
     (if us_state s \<noteq> ApiNew
      then (Some (LifecycleError ''server instances cannot be restarted''), s)
      else (None, s\<lparr>us_state := ApiStarting\<rparr>))"

text \<open>\<open>self._thread.start()\<close>, which raises \<open>r\<close> or starts the thread.\<close>

definition start_launch :: "exn option \<Rightarrow> uvicorn_server \<Rightarrow> api_error option \<times> uvicorn_server" where
  "start_launch r s =
     (case r of
        None \<Rightarrow> (None, s\<lparr>us_thread := Serving\<rparr>)
      | Some e \<Rightarrow>
          if is_exception e
          then (Some (StartupError ''API thread could not start''),
                fail (Foreign e) ApiStartFailed s)
          else (Some (Foreign e), s))"

text \<open>The block after the polling loop: \<open>None\<close> when the server runs.\<close>

definition start_finish :: "uvicorn_server \<Rightarrow> api_error option \<times> uvicorn_server" where
  "start_finish s =
     (if us_state s = ApiStartFailed
      then (Some (StartupError ''API server failed during startup''), s)
      else if us_state s = ApiFailed
      then (Some (StartupError ''API server failed immediately after startup''), s)
      else if us_state s \<in> {ApiStopping, ApiStopped}
      then (Some (StartupCancelled ''API server startup was cancelled''), s)
      else if us_started s \<and> us_state s = ApiStarting
      then (None, s\<lparr>us_state := ApiRunning\<rparr>)
      else if \<not> is_alive (us_thread s)
      then (Some (StartupError ''API server exited before startup''), s)
      else (Some (StartupTimeout ''API server startup timed out''),
            fail (StartupTimeout ''API server startup timed out'') ApiStartTimedOut s))"

definition request_exit :: "uvicorn_server \<Rightarrow> uvicorn_server" where
  "request_exit s = s\<lparr>us_should_exit := True\<rparr>"

section \<open>stop\<close>

datatype stop_decision = NothingToStop | AwaitOtherStop | JoinThread

definition stop_enter :: "uvicorn_server \<Rightarrow> stop_decision \<times> uvicorn_server" where
  "stop_enter s =
     (let alive = is_alive (us_thread s)
      in if us_state s = ApiNew then (NothingToStop, s\<lparr>us_state := ApiStopped\<rparr>)
         else if \<not> alive \<and> us_state s \<in> {ApiStartFailed, ApiFailed, ApiStopped}
         then (NothingToStop, s)
         else if \<not> alive then (NothingToStop, s\<lparr>us_state := ApiStopped\<rparr>)
         else if us_state s = ApiStopping then (AwaitOtherStop, s)
         else (JoinThread,
               request_exit (s\<lparr>us_state := ApiStopping, us_stop_complete := False\<rparr>)))"

text \<open>
  After waiting for the other stop. \<open>self._failures[-1]\<close> raises on an empty list, and the
  assertion on a failure of another kind.
\<close>

definition stop_awaited :: "uvicorn_server \<Rightarrow> api_error option" where
  "stop_awaited s =
     (if us_state s \<noteq> ApiStopTimedOut then None
      else if us_failures s = [] then Some (Foreign (OtherError ''list index out of range''))
      else case last (us_failures s) of
             ShutdownTimeout m \<Rightarrow> Some (ShutdownTimeout m)
           | _ \<Rightarrow> Some (Foreign (OtherError ''assertion failed'')))"

definition stop_joined :: "uvicorn_server \<Rightarrow> api_error option \<times> uvicorn_server" where
  "stop_joined s =
     (if is_alive (us_thread s)
      then (Some (ShutdownTimeout ''API server shutdown timed out''),
            (fail (ShutdownTimeout ''API server shutdown timed out'') ApiStopTimedOut s)
              \<lparr>us_stop_complete := True\<rparr>)
      else (None, s\<lparr>us_state := ApiStopped, us_stop_complete := True\<rparr>))"

section \<open>The thread\<close>

text \<open>The two ends of \<open>_thread_main\<close>: \<open>Server.run\<close> raised, or returned.\<close>

definition thread_failed :: "exn \<Rightarrow> uvicorn_server \<Rightarrow> uvicorn_server" where
  "thread_failed e s =
     fail (Foreign e)
       (if us_state s = ApiStarting \<and> \<not> us_started s then ApiStartFailed else ApiFailed) s"

definition thread_returned :: "uvicorn_server \<Rightarrow> uvicorn_server" where
  "thread_returned s =
     (if us_state s = ApiStarting
      then fail (StartupError ''API server exited before startup'') ApiStartFailed s
      else if us_state s = ApiRunning
      then fail (ApiServerError ''API server exited unexpectedly'') ApiFailed s
      else if us_state s = ApiStopping then s\<lparr>us_state := ApiStopped\<rparr>
      else s)"

definition thread_main_end :: "exn option \<Rightarrow> uvicorn_server \<Rightarrow> uvicorn_server" where
  "thread_main_end r s =
     (case r of None \<Rightarrow> thread_returned s | Some e \<Rightarrow> thread_failed e s)"

section \<open>Callers and steps\<close>

text \<open>Where a caller of \<open>start\<close> or \<open>stop\<close> is.\<close>

datatype caller =
    Idle
  | Launching
  | Polling
  | TimedOut api_error
  | JoiningStart api_error
  | Awaiting
  | Joining
  | StartReturned
  | StopReturned
  | Raised api_error

definition outside_calls :: "caller \<Rightarrow> bool" where
  "outside_calls c \<longleftrightarrow> (case c of
     Idle \<Rightarrow> True | StartReturned \<Rightarrow> True | StopReturned \<Rightarrow> True | Raised _ \<Rightarrow> True | _ \<Rightarrow> False)"

record api_system =
  sys_server :: uvicorn_server
  sys_callers :: "nat \<Rightarrow> caller"

definition moves :: "nat \<Rightarrow> caller \<Rightarrow> uvicorn_server \<Rightarrow> api_system \<Rightarrow> api_system" where
  "moves i c s y = \<lparr>sys_server = s, sys_callers = (sys_callers y)(i := c)\<rparr>"

text \<open>
  When \<open>sequential\<close>, a call begins only while no other call is in progress, as in the hardware
  service, where the main thread makes all of them.
\<close>

definition may_call :: "bool \<Rightarrow> nat \<Rightarrow> api_system \<Rightarrow> bool" where
  "may_call sequential i y \<longleftrightarrow>
     outside_calls (sys_callers y i) \<and> (sequential \<longrightarrow> (\<forall>j. outside_calls (sys_callers y j)))"

inductive api_step :: "bool \<Rightarrow> api_system \<Rightarrow> api_system \<Rightarrow> bool" for sequential where
  start_call: "may_call sequential i y \<Longrightarrow> start_enter (sys_server y) = (r, s) \<Longrightarrow>
    api_step sequential y (moves i (case r of None \<Rightarrow> Launching | Some e \<Rightarrow> Raised e) s y)"
| launch: "sys_callers y i = Launching \<Longrightarrow> start_launch x (sys_server y) = (r, s) \<Longrightarrow>
    api_step sequential y (moves i (case r of None \<Rightarrow> Polling | Some e \<Rightarrow> Raised e) s y)"
| poll_end: "sys_callers y i = Polling \<Longrightarrow> start_finish (sys_server y) = (r, s) \<Longrightarrow>
    api_step sequential y
      (moves i (case r of
                  None \<Rightarrow> StartReturned
                | Some (StartupTimeout m) \<Rightarrow> TimedOut (StartupTimeout m)
                | Some e \<Rightarrow> Raised e) s y)"
| timed_out: "sys_callers y i = TimedOut e \<Longrightarrow>
    api_step sequential y (moves i (JoiningStart e) (request_exit (sys_server y)) y)"
| start_joined: "sys_callers y i = JoiningStart e \<Longrightarrow>
    api_step sequential y (moves i (Raised e) (sys_server y) y)"
| stop_call: "may_call sequential i y \<Longrightarrow> stop_enter (sys_server y) = (d, s) \<Longrightarrow>
    api_step sequential y
      (moves i (case d of NothingToStop \<Rightarrow> StopReturned | AwaitOtherStop \<Rightarrow> Awaiting
                | JoinThread \<Rightarrow> Joining) s y)"
| awaited: "sys_callers y i = Awaiting \<Longrightarrow>
    api_step sequential y
      (moves i (case stop_awaited (sys_server y) of None \<Rightarrow> StopReturned | Some e \<Rightarrow> Raised e)
         (sys_server y) y)"
| joined: "sys_callers y i = Joining \<Longrightarrow> stop_joined (sys_server y) = (r, s) \<Longrightarrow>
    api_step sequential y (moves i (case r of None \<Rightarrow> StopReturned | Some e \<Rightarrow> Raised e) s y)"
| server_started: "us_thread (sys_server y) = Serving \<Longrightarrow>
    api_step sequential y (y\<lparr>sys_server := (sys_server y)\<lparr>us_started := True\<rparr>\<rparr>)"
| run_ends: "us_thread (sys_server y) = Serving \<Longrightarrow>
    api_step sequential y (y\<lparr>sys_server := (sys_server y)\<lparr>us_thread := Ended x\<rparr>\<rparr>)"
| handled: "us_thread (sys_server y) = Ended x \<Longrightarrow>
    api_step sequential y
      (y\<lparr>sys_server := (thread_main_end x (sys_server y))\<lparr>us_thread := Leaving\<rparr>\<rparr>)"
| dies: "us_thread (sys_server y) = Leaving \<Longrightarrow>
    api_step sequential y (y\<lparr>sys_server := (sys_server y)\<lparr>us_thread := Dead\<rparr>\<rparr>)"

definition fresh_system :: api_system where
  "fresh_system =
     \<lparr>sys_server =
        \<lparr>us_state = ApiNew, us_failures = [], us_thread = Unstarted, us_started = False,
         us_should_exit = False, us_stop_complete = False\<rparr>,
      sys_callers = (\<lambda>_. Idle)\<rparr>"

definition api_reachable :: "bool \<Rightarrow> api_system \<Rightarrow> bool" where
  "api_reachable sequential y \<longleftrightarrow> (api_step sequential)\<^sup>*\<^sup>* fresh_system y"

inductive_cases api_stepE: "api_step sequential y y'"

section \<open>Every failure is accounted for\<close>

text \<open>What a state says of the failures that were recorded, and of the thread.\<close>

definition accounted :: "uvicorn_server \<Rightarrow> bool" where
  "accounted s \<longleftrightarrow>
     (case us_state s of
        ApiNew \<Rightarrow> us_thread s = Unstarted \<and> us_failures s = []
      | ApiRunning \<Rightarrow> us_started s
      | ApiStartFailed \<Rightarrow> us_failures s \<noteq> []
      | ApiFailed \<Rightarrow> us_failures s \<noteq> []
      | ApiStartTimedOut \<Rightarrow> us_failures s \<noteq> [] \<and> (\<exists>m. last (us_failures s) = StartupTimeout m)
      | ApiStopTimedOut \<Rightarrow> us_failures s \<noteq> [] \<and> (\<exists>m. last (us_failures s) = ShutdownTimeout m)
      | _ \<Rightarrow> True)"

text \<open>The thread is started at most once: whoever is about to start it is alone in this.\<close>

definition single_use :: "api_system \<Rightarrow> bool" where
  "single_use y \<longleftrightarrow>
     (\<forall>i. sys_callers y i = Launching \<longrightarrow>
        us_state (sys_server y) \<noteq> ApiNew \<and> us_thread (sys_server y) = Unstarted \<and>
        (\<forall>j. sys_callers y j = Launching \<longrightarrow> j = i))"

definition bookkeeping :: "api_system \<Rightarrow> bool" where
  "bookkeeping y \<longleftrightarrow> accounted (sys_server y) \<and> single_use y \<and>
     (us_started (sys_server y) \<longrightarrow> us_thread (sys_server y) \<noteq> Unstarted)"

lemma moves_simps [simp]:
  "sys_server (moves i c s y) = s" "sys_callers (moves i c s y) = (sys_callers y)(i := c)"
  by (simp_all add: moves_def)

lemmas server_defs =
  start_enter_def start_launch_def start_finish_def stop_enter_def stop_joined_def
  thread_main_end_def thread_returned_def thread_failed_def request_exit_def fail_def Let_def
  is_alive_def

lemma accounted_ops:
  "accounted s \<Longrightarrow> start_enter s = (r, t) \<Longrightarrow> accounted t"
  "accounted s \<Longrightarrow> us_state s \<noteq> ApiNew \<Longrightarrow> start_launch x s = (r, t) \<Longrightarrow> accounted t"
  "accounted s \<Longrightarrow> start_finish s = (r, t) \<Longrightarrow> accounted t"
  "accounted s \<Longrightarrow> stop_enter s = (d, t) \<Longrightarrow> accounted t"
  "accounted s \<Longrightarrow> stop_joined s = (r, t) \<Longrightarrow> accounted t"
  "accounted s \<Longrightarrow> accounted (thread_main_end x s)"
  "accounted s \<Longrightarrow> accounted (request_exit s)"
  by (cases "us_state s"; auto simp: accounted_def server_defs split: if_splits option.splits)+

lemma ops_keep:
  "start_enter s = (r, t) \<Longrightarrow> us_thread t = us_thread s \<and> us_started t = us_started s"
  "start_finish s = (r, t) \<Longrightarrow> us_thread t = us_thread s \<and> us_started t = us_started s"
  "stop_enter s = (d, t) \<Longrightarrow> us_thread t = us_thread s \<and> us_started t = us_started s"
  "stop_joined s = (r, t) \<Longrightarrow> us_thread t = us_thread s \<and> us_started t = us_started s"
  "us_thread (request_exit s) = us_thread s" "us_started (request_exit s) = us_started s"
  "us_started (thread_main_end x s) = us_started s"
  by (auto simp: server_defs split: if_splits option.splits)

text \<open>No operation leads back to \<open>NEW\<close>.\<close>

lemma ops_leave_new:
  "start_enter s = (r, t) \<Longrightarrow> us_state s \<noteq> ApiNew \<or> r = None \<Longrightarrow> us_state t \<noteq> ApiNew"
  "start_launch x s = (r, t) \<Longrightarrow> us_state s \<noteq> ApiNew \<Longrightarrow> us_state t \<noteq> ApiNew"
  "start_finish s = (r, t) \<Longrightarrow> us_state s \<noteq> ApiNew \<Longrightarrow> us_state t \<noteq> ApiNew"
  "stop_enter s = (d, t) \<Longrightarrow> us_state t \<noteq> ApiNew"
  "stop_joined s = (r, t) \<Longrightarrow> us_state s \<noteq> ApiNew \<Longrightarrow> us_state t \<noteq> ApiNew"
  "us_state s \<noteq> ApiNew \<Longrightarrow> us_state (thread_main_end x s) \<noteq> ApiNew"
  "us_state (request_exit s) = us_state s"
  by (auto simp: server_defs split: if_splits option.splits)

lemma bookkeeping_fresh: "bookkeeping fresh_system"
  by (simp add: bookkeeping_def accounted_def single_use_def fresh_system_def)

lemma single_use_moves:
  assumes "single_use y" and "c \<noteq> Launching" and "us_thread s = us_thread (sys_server y)"
    and "us_state (sys_server y) \<noteq> ApiNew \<Longrightarrow> us_state s \<noteq> ApiNew"
  shows "single_use (moves i c s y)"
  using assms by (auto simp: single_use_def)

lemma bookkeeping_moves:
  assumes "bookkeeping y" and "accounted s" and "c \<noteq> Launching"
    and "us_thread s = us_thread (sys_server y) \<and> us_started s = us_started (sys_server y)"
    and "us_state (sys_server y) \<noteq> ApiNew \<Longrightarrow> us_state s \<noteq> ApiNew"
  shows "bookkeeping (moves i c s y)"
  using assms by (auto simp: bookkeeping_def intro: single_use_moves)

text \<open>The steps that \<open>bookkeeping_moves\<close> does not cover: a start, a launch, and those of the thread.\<close>

lemma bookkeeping_start_call:
  assumes "bookkeeping y" and run: "start_enter (sys_server y) = (r, s)"
  shows "bookkeeping (moves i (case r of None \<Rightarrow> Launching | Some e \<Rightarrow> Raised e) s y)"
proof (cases r)
  case None
  have new: "us_state (sys_server y) = ApiNew" "us_state s = ApiStarting"
    "us_thread s = us_thread (sys_server y)" "us_started s = us_started (sys_server y)"
    using run None by (auto simp: start_enter_def split: if_splits)
  then have "us_thread s = Unstarted" "\<forall>j. sys_callers y j \<noteq> Launching"
    using assms(1) by (auto simp: bookkeeping_def accounted_def single_use_def)
  then have "single_use (moves i Launching s y)" using new by (auto simp: single_use_def)
  moreover have "accounted s" using accounted_ops(1) [OF _ run] assms(1) by (simp add: bookkeeping_def)
  ultimately show ?thesis using assms(1) new None by (simp add: bookkeeping_def)
next
  case (Some e)
  have s: "s = sys_server y" using Some run by (auto simp: start_enter_def split: if_splits)
  show ?thesis
    unfolding Some option.case s
    using assms(1) by (intro bookkeeping_moves) (auto simp: bookkeeping_def)
qed

lemma bookkeeping_launch:
  assumes "bookkeeping y" and "sys_callers y i = Launching" and run: "start_launch x (sys_server y) = (r, s)"
  shows "bookkeeping (moves i (case r of None \<Rightarrow> Polling | Some e \<Rightarrow> Raised e) s y)"
proof -
  have only: "us_state (sys_server y) \<noteq> ApiNew" "us_thread (sys_server y) = Unstarted"
    "\<forall>j. sys_callers y j = Launching \<longrightarrow> j = i"
    using assms(1,2) by (auto simp: bookkeeping_def single_use_def)
  have "accounted s" using accounted_ops(2) [OF _ only(1) run] assms(1)
    by (simp add: bookkeeping_def)
  moreover have "single_use (moves i (case r of None \<Rightarrow> Polling | Some e \<Rightarrow> Raised e) s y)"
    using only by (auto simp: single_use_def split: option.splits)
  moreover have "us_started s \<longrightarrow> us_thread s \<noteq> Unstarted"
    using run assms(1) only(2)
    by (auto simp: bookkeeping_def start_launch_def fail_def split: option.splits if_splits)
  ultimately show ?thesis by (simp add: bookkeeping_def)
qed

lemma accounted_thread:
  assumes "accounted s" and "us_thread s \<noteq> Unstarted"
  shows "accounted (s\<lparr>us_started := True\<rparr>)" "accounted (s\<lparr>us_thread := t\<rparr>)"
    "accounted ((thread_main_end x s)\<lparr>us_thread := t\<rparr>)"
proof -
  have state: "us_state s \<noteq> ApiNew" using assms by (auto simp: accounted_def)
  then show "accounted (s\<lparr>us_started := True\<rparr>)" "accounted (s\<lparr>us_thread := t\<rparr>)"
    using assms(1) by (auto simp: accounted_def split: api_state.splits)
  show "accounted ((thread_main_end x s)\<lparr>us_thread := t\<rparr>)"
    using accounted_ops(6) [OF assms(1), of x] ops_leave_new(6) [OF state, of x]
    by (auto simp: accounted_def split: api_state.splits)
qed

lemma bookkeeping_step:
  assumes "api_step sequential y y'" and "bookkeeping y"
  shows "bookkeeping y'"
  using assms(1)
proof (cases rule: api_step.cases)
  case (start_call i r s)
  then show ?thesis using bookkeeping_start_call [OF assms(2)] by simp
next
  case (launch i x r s)
  then show ?thesis using bookkeeping_launch [OF assms(2)] by simp
next
  case (poll_end i r s)
  show ?thesis
    unfolding poll_end(1)
    using accounted_ops(3) [OF _ poll_end(3)] ops_keep(2) [OF poll_end(3)]
      ops_leave_new(3) [OF poll_end(3)] assms(2)
    by (intro bookkeeping_moves) (auto simp: bookkeeping_def split: option.splits api_error.splits)
next
  case (stop_call i d s)
  show ?thesis
    unfolding stop_call(1)
    using accounted_ops(4) [OF _ stop_call(3)] ops_keep(3) [OF stop_call(3)]
      ops_leave_new(4) [OF stop_call(3)] assms(2)
    by (intro bookkeeping_moves) (auto simp: bookkeeping_def split: stop_decision.splits)
next
  case (joined i r s)
  show ?thesis
    unfolding joined(1)
    using accounted_ops(5) [OF _ joined(3)] ops_keep(4) [OF joined(3)]
      ops_leave_new(5) [OF joined(3)] assms(2)
    by (intro bookkeeping_moves) (auto simp: bookkeeping_def split: option.splits)
next
  case (timed_out i e)
  show ?thesis
    unfolding timed_out(1) using assms(2)
    by (intro bookkeeping_moves) (auto simp: bookkeeping_def ops_keep ops_leave_new intro: accounted_ops)
next
  case (start_joined i e)
  show ?thesis
    unfolding start_joined(1) using assms(2) by (intro bookkeeping_moves) (auto simp: bookkeeping_def)
next
  case (awaited i)
  show ?thesis
    unfolding awaited(1)
    using assms(2) by (intro bookkeeping_moves) (auto simp: bookkeeping_def split: option.splits)
qed (use assms(2) in \<open>auto simp: bookkeeping_def single_use_def accounted_thread ops_keep\<close>)

lemma bookkeeping_reachable: "api_reachable sequential y \<Longrightarrow> bookkeeping y"
  unfolding api_reachable_def
  by (induction rule: rtranclp_induct) (auto intro: bookkeeping_fresh bookkeeping_step)

text \<open>
  The waiting branch of \<open>stop\<close>: the assertion on the last failure never fails, and the list of
  failures is not empty there.
\<close>

lemma stop_awaited_accounted:
  "accounted s \<Longrightarrow> stop_awaited s = None \<or> (\<exists>m. stop_awaited s = Some (ShutdownTimeout m))"
  by (auto simp: accounted_def stop_awaited_def)

section \<open>A stopped server is down\<close>

definition down :: "uvicorn_server \<Rightarrow> bool" where
  "down s \<longleftrightarrow> \<not> is_alive (us_thread s) \<and> us_state s \<noteq> ApiNew"

definition one_call :: "api_system \<Rightarrow> bool" where
  "one_call y \<longleftrightarrow>
     (\<forall>i j. \<not> outside_calls (sys_callers y i) \<and> \<not> outside_calls (sys_callers y j) \<longrightarrow> i = j)"

definition orderly :: "api_system \<Rightarrow> bool" where
  "orderly y \<longleftrightarrow> bookkeeping y \<and> one_call y \<and> (\<forall>i. sys_callers y i \<noteq> Awaiting) \<and>
     (us_state (sys_server y) = ApiStopping \<longrightarrow> (\<exists>i. sys_callers y i = Joining)) \<and>
     (\<forall>i. sys_callers y i = StopReturned \<longrightarrow>
        down (sys_server y) \<and> (\<forall>j. sys_callers y j \<noteq> Launching))"

lemma outside_simps [simp]:
  "outside_calls Idle" "outside_calls StartReturned" "outside_calls StopReturned"
  "outside_calls (Raised e)" "\<not> outside_calls Launching" "\<not> outside_calls Polling"
  "\<not> outside_calls (TimedOut e)" "\<not> outside_calls (JoiningStart e)" "\<not> outside_calls Awaiting"
  "\<not> outside_calls Joining"
  by (simp_all add: outside_calls_def)

lemma orderly_fresh: "orderly fresh_system"
  using bookkeeping_fresh by (simp add: orderly_def one_call_def fresh_system_def)

lemma ops_stopping:
  "start_enter s = (r, t) \<Longrightarrow> us_state t = ApiStopping \<Longrightarrow> us_state s = ApiStopping"
  "start_launch x s = (r, t) \<Longrightarrow> us_state t = ApiStopping \<Longrightarrow> us_state s = ApiStopping"
  "start_finish s = (r, t) \<Longrightarrow> us_state t = ApiStopping \<Longrightarrow> us_state s = ApiStopping"
  "stop_joined s = (r, t) \<Longrightarrow> us_state t \<noteq> ApiStopping"
  "us_state (thread_main_end x s) = ApiStopping \<Longrightarrow> us_state s = ApiStopping"
  by (auto simp: server_defs split: if_splits option.splits)

text \<open>The caller who is in a call is the only one.\<close>

lemma one_callD: "one_call y \<Longrightarrow> \<not> outside_calls (sys_callers y i) \<Longrightarrow> j \<noteq> i \<Longrightarrow>
    outside_calls (sys_callers y j)"
  by (auto simp: one_call_def)

lemma one_call_moves:
  "one_call y \<Longrightarrow> \<not> outside_calls (sys_callers y i) \<or> (\<forall>j. outside_calls (sys_callers y j)) \<Longrightarrow>
   one_call (moves i c s y)"
  by (auto simp: one_call_def)

lemma one_call_outside: "one_call y \<Longrightarrow> outside_calls c \<Longrightarrow> one_call (moves i c s y)"
  by (auto simp: one_call_def)

text \<open>What is left to show of a step of a caller, by the kind of its next position.\<close>

lemma orderly_moves:
  assumes "orderly y" and "bookkeeping (moves i c s y)"
    and "\<not> outside_calls (sys_callers y i) \<or> (\<forall>j. outside_calls (sys_callers y j))"
    and "c \<noteq> Awaiting"
    and "us_state s = ApiStopping \<Longrightarrow>
      c = Joining \<or> us_state (sys_server y) = ApiStopping \<and> sys_callers y i \<noteq> Joining"
    and "c = StopReturned \<Longrightarrow> down s"
    and "\<exists>j. sys_callers y j = StopReturned \<Longrightarrow> down (sys_server y) \<Longrightarrow> down s \<and> c \<noteq> Launching"
  shows "orderly (moves i c s y)"
proof -
  have one: "one_call (moves i c s y)"
    using assms(1,3) by (auto simp: orderly_def intro: one_call_moves)
  have joining: "\<exists>j. ((sys_callers y)(i := c)) j = Joining" if "us_state s = ApiStopping"
  proof (cases "c = Joining")
    case False
    have st: "us_state (sys_server y) = ApiStopping" "sys_callers y i \<noteq> Joining"
      using assms(5) [OF that] False by auto
    then obtain j where j: "sys_callers y j = Joining" using assms(1) by (auto simp: orderly_def)
    then have "j \<noteq> i" using st by auto
    with j show ?thesis by (intro exI [of _ j]) simp
  qed (auto intro: exI [of _ i])
  have returned: "down s \<and> (\<forall>j. ((sys_callers y)(i := c)) j \<noteq> Launching)"
    if "((sys_callers y)(i := c)) k = StopReturned" for k
  proof (cases "k = i")
    case True
    then have "c = StopReturned" using that by simp
    moreover have "sys_callers y j \<noteq> Launching" if "j \<noteq> i" for j
    proof -
      have "outside_calls (sys_callers y j)"
        using assms(1,3) one_callD [OF _ _ that] by (auto simp: orderly_def)
      then show ?thesis by auto
    qed
    ultimately show ?thesis using assms(6) by auto
  next
    case False
    then have k: "sys_callers y k = StopReturned" using that by simp
    then have "down (sys_server y)" "\<forall>j. sys_callers y j \<noteq> Launching"
      using assms(1) by (auto simp: orderly_def)
    then show ?thesis using assms(7) k by auto
  qed
  show ?thesis
    using assms(1,2,4) one joining returned by (auto simp: orderly_def)
qed

lemma down_ops:
  "start_enter s = (r, t) \<Longrightarrow> down s \<Longrightarrow> down t \<and> r \<noteq> None"
  "start_finish s = (r, t) \<Longrightarrow> down s \<Longrightarrow> down t"
  "stop_enter s = (d, t) \<Longrightarrow> down s \<Longrightarrow> down t"
  "stop_joined s = (r, t) \<Longrightarrow> down s \<Longrightarrow> down t"
  "stop_enter s = (NothingToStop, t) \<Longrightarrow> accounted s \<Longrightarrow> down t"
  "stop_joined s = (None, t) \<Longrightarrow> down t"
  by (auto simp: down_def accounted_def server_defs split: if_splits option.splits)

lemma orderly_start_call:
  assumes "orderly y" and "may_call True i y" and run: "start_enter (sys_server y) = (r, s)"
  shows "orderly (moves i (case r of None \<Rightarrow> Launching | Some e \<Rightarrow> Raised e) s y)"
proof -
  have "bookkeeping y" using assms(1) by (simp add: orderly_def)
  from bookkeeping_start_call [OF this run] show ?thesis
    using assms(2) down_ops(1) [OF run] ops_stopping(1) [OF run]
    by (intro orderly_moves [OF assms(1)]) (auto simp: may_call_def down_def split: option.splits)
qed

lemma orderly_stop_call:
  assumes "orderly y" and "may_call True i y" and run: "stop_enter (sys_server y) = (d, s)"
    and book: "bookkeeping (moves i (case d of NothingToStop \<Rightarrow> StopReturned
      | AwaitOtherStop \<Rightarrow> Awaiting | JoinThread \<Rightarrow> Joining) s y)"
  shows "orderly (moves i (case d of NothingToStop \<Rightarrow> StopReturned
      | AwaitOtherStop \<Rightarrow> Awaiting | JoinThread \<Rightarrow> Joining) s y)"
proof -
  have acc: "accounted (sys_server y)" using assms(1) by (simp add: orderly_def bookkeeping_def)
  have "sys_callers y j \<noteq> Joining" for j
  proof -
    have "outside_calls (sys_callers y j)" using assms(2) by (simp add: may_call_def)
    then show ?thesis by auto
  qed
  then have "us_state (sys_server y) \<noteq> ApiStopping" using assms(1) by (auto simp: orderly_def)
  then have "d \<noteq> AwaitOtherStop" "us_state s = ApiStopping \<longrightarrow> d = JoinThread"
    using run by (auto simp: server_defs split: if_splits)
  then show ?thesis
    using book assms(2) down_ops(3) [OF run] acc down_ops(5) [of "sys_server y" s] run
    by (intro orderly_moves [OF assms(1)]) (auto simp: may_call_def split: stop_decision.splits)
qed

lemma orderly_step:
  assumes "api_step True y y'" and "orderly y"
  shows "orderly y'"
proof -
  have "bookkeeping y" using assms(2) by (simp add: orderly_def)
  note book = bookkeeping_step [OF assms(1) this]
  show ?thesis
    using assms(1)
  proof (cases rule: api_step.cases)
    case (start_call i r s)
    then show ?thesis using orderly_start_call [OF assms(2)] by simp
  next
    case (launch i x r s)
    show ?thesis
      using book launch(2) ops_stopping(2) [OF launch(3)] assms(2)
      unfolding launch(1)
      by (intro orderly_moves [OF assms(2)]) (auto simp: orderly_def split: option.splits)
  next
    case (poll_end i r s)
    show ?thesis
      using book poll_end(2) down_ops(2) [OF poll_end(3)] ops_stopping(3) [OF poll_end(3)]
      unfolding poll_end(1)
      by (intro orderly_moves [OF assms(2)]) (auto split: option.splits api_error.splits)
  next
    case (timed_out i e)
    show ?thesis
      using book timed_out(2) unfolding timed_out(1)
      by (intro orderly_moves [OF assms(2)]) (auto simp: down_def request_exit_def)
  next
    case (start_joined i e)
    show ?thesis
      using book start_joined(2) unfolding start_joined(1)
      by (intro orderly_moves [OF assms(2)]) auto
  next
    case (stop_call i d s)
    then show ?thesis using orderly_stop_call [OF assms(2)] book by simp
  next
    case (joined i r s)
    show ?thesis
      using book joined(2) down_ops(4) [OF joined(3)] ops_stopping(4) [OF joined(3)]
        down_ops(6) [of "sys_server y" s] joined(3)
      unfolding joined(1)
      by (intro orderly_moves [OF assms(2)]) (auto split: option.splits)
  qed (use book assms(2) ops_leave_new ops_stopping(5) in
      \<open>auto simp: orderly_def one_call_def down_def is_alive_def\<close>)
qed

lemma orderly_reachable: "api_reachable True y \<Longrightarrow> orderly y"
  unfolding api_reachable_def
  by (induction rule: rtranclp_induct) (auto intro: orderly_fresh orderly_step)

text \<open>
  C26. Whatever calls of \<open>start\<close> and \<open>stop\<close> run concurrently and however the server behaves, a
  failure state comes with a recorded failure, of the kind the state names when it is a timeout;
  the server is only said to run once it has started; the thread is started at most once, since
  a caller about to start it is alone and nobody has started it; and the assertion in \<open>stop\<close>
  cannot fail.
\<close>

theorem api_failures_are_accounted_for:
  assumes "api_reachable sequential y"
  shows "accounted (sys_server y) \<and> single_use y \<and>
    stop_awaited (sys_server y) \<in> insert None (range (Some \<circ> ShutdownTimeout))"
  using bookkeeping_reachable [OF assms] stop_awaited_accounted [of "sys_server y"]
  by (auto simp: bookkeeping_def image_iff)

text \<open>
  C27. When calls do not overlap, as in the hardware service, a server whose \<open>stop\<close> has returned
  is down, for good: its thread is not alive, and no later call can start it.
\<close>

theorem stopped_server_is_down:
  assumes "api_reachable True y" and "sys_callers y i = StopReturned"
  shows "us_thread (sys_server y) \<in> {Unstarted, Dead} \<and> us_state (sys_server y) \<noteq> ApiNew \<and>
    sys_callers y j \<noteq> Launching"
  using orderly_reachable [OF assms(1)] assms(2) by (auto simp: orderly_def down_def is_alive_def)

section \<open>Runs\<close>

text \<open>The steps as actions, to follow a run.\<close>

datatype action = CallStart nat | CallStop nat | Continue nat | BecomeStarted | EndRun "exn option"
  | Advance

fun act :: "action \<Rightarrow> api_system \<Rightarrow> api_system" where
  "act (CallStart i) y =
     (case start_enter (sys_server y) of (r, s) \<Rightarrow>
        moves i (case r of None \<Rightarrow> Launching | Some e \<Rightarrow> Raised e) s y)"
| "act (CallStop i) y =
     (case stop_enter (sys_server y) of (d, s) \<Rightarrow>
        moves i (case d of NothingToStop \<Rightarrow> StopReturned | AwaitOtherStop \<Rightarrow> Awaiting
                 | JoinThread \<Rightarrow> Joining) s y)"
| "act (Continue i) y =
     (case sys_callers y i of
        Launching \<Rightarrow>
          (case start_launch None (sys_server y) of (r, s) \<Rightarrow>
             moves i (case r of None \<Rightarrow> Polling | Some e \<Rightarrow> Raised e) s y)
      | Polling \<Rightarrow>
          (case start_finish (sys_server y) of (r, s) \<Rightarrow>
             moves i (case r of
                  None \<Rightarrow> StartReturned
                | Some (StartupTimeout m) \<Rightarrow> TimedOut (StartupTimeout m)
                | Some e \<Rightarrow> Raised e) s y)
      | Joining \<Rightarrow>
          (case stop_joined (sys_server y) of (r, s) \<Rightarrow>
             moves i (case r of None \<Rightarrow> StopReturned | Some e \<Rightarrow> Raised e) s y)
      | _ \<Rightarrow> y)"
| "act BecomeStarted y = y\<lparr>sys_server := (sys_server y)\<lparr>us_started := True\<rparr>\<rparr>"
| "act (EndRun x) y = y\<lparr>sys_server := (sys_server y)\<lparr>us_thread := Ended x\<rparr>\<rparr>"
| "act Advance y =
     (case us_thread (sys_server y) of
        Ended x \<Rightarrow> y\<lparr>sys_server := (thread_main_end x (sys_server y))\<lparr>us_thread := Leaving\<rparr>\<rparr>
      | Leaving \<Rightarrow> y\<lparr>sys_server := (sys_server y)\<lparr>us_thread := Dead\<rparr>\<rparr>
      | _ \<Rightarrow> y)"

fun allowed :: "bool \<Rightarrow> action \<Rightarrow> api_system \<Rightarrow> bool" where
  "allowed sequential (CallStart i) y = may_call sequential i y"
| "allowed sequential (CallStop i) y = may_call sequential i y"
| "allowed sequential (Continue i) y = (sys_callers y i \<in> {Launching, Polling, Joining})"
| "allowed sequential BecomeStarted y = (us_thread (sys_server y) = Serving)"
| "allowed sequential (EndRun x) y = (us_thread (sys_server y) = Serving)"
| "allowed sequential Advance y =
     (case us_thread (sys_server y) of Ended x \<Rightarrow> True | Leaving \<Rightarrow> True | _ \<Rightarrow> False)"

lemma act_step: "allowed sequential a y \<Longrightarrow> api_step sequential y (act a y)"
  by (cases a) (auto split: prod.splits server_thread.splits
      intro: start_call stop_call launch poll_end joined server_started run_ends handled dies)

fun all_allowed :: "bool \<Rightarrow> action list \<Rightarrow> api_system \<Rightarrow> bool" where
  "all_allowed sequential [] y = True"
| "all_allowed sequential (a # as) y = (allowed sequential a y \<and> all_allowed sequential as (act a y))"

lemma fold_act_reachable:
  "all_allowed sequential as y \<Longrightarrow> (api_step sequential)\<^sup>*\<^sup>* y (fold act as y)"
  by (induction as arbitrary: y) (auto intro: act_step converse_rtranclp_into_rtranclp)

lemma run_reachable: "all_allowed sequential as fresh_system \<Longrightarrow>
    api_reachable sequential (fold act as fresh_system)"
  unfolding api_reachable_def by (rule fold_act_reachable)

lemmas act_simps =
  fresh_system_def may_call_def server_defs outside_calls_def fun_upd_def stop_awaited_def

text \<open>A server that starts, serves and is stopped.\<close>

definition ordinary_run :: "action list" where
  "ordinary_run = [CallStart 0, Continue 0, BecomeStarted, Continue 0, CallStop 0, EndRun None,
     Advance, Advance, Continue 0]"

lemma ordinary_run_reachable: "api_reachable True (fold act ordinary_run fresh_system)"
  by (rule run_reachable) (simp add: ordinary_run_def act_simps)

lemma api_failures_are_accounted_for_witness:
  "accounted (sys_server (fold act ordinary_run fresh_system)) \<and>
   single_use (fold act ordinary_run fresh_system) \<and>
   stop_awaited (sys_server (fold act ordinary_run fresh_system)) \<in>
     insert None (range (Some \<circ> ShutdownTimeout))"
  by (rule api_failures_are_accounted_for [OF ordinary_run_reachable])

lemma stopped_server_is_down_witness:
  "us_thread (sys_server (fold act ordinary_run fresh_system)) \<in> {Unstarted, Dead} \<and>
   us_state (sys_server (fold act ordinary_run fresh_system)) \<noteq> ApiNew \<and>
   sys_callers (fold act ordinary_run fresh_system) 1 \<noteq> Launching"
  by (rule stopped_server_is_down [OF ordinary_run_reachable, of 0])
    (simp add: ordinary_run_def act_simps)

text \<open>
  When calls do overlap, this fails. A \<open>stop\<close> between the first block of \<open>start\<close> and the start
  of the thread finds no thread alive and returns, with the state \<open>STOPPED\<close>. The caller of
  \<open>start\<close> then starts the thread all the same, and is told that the startup was cancelled. Nobody
  asks the server to exit: it goes on serving.
\<close>

definition overlapping_run :: "action list" where
  "overlapping_run = [CallStart 0, CallStop 1, Continue 0, BecomeStarted, Continue 0]"

lemma cancelled_server_may_serve:
  "\<exists>y. api_reachable False y \<and> sys_callers y 1 = StopReturned \<and>
     sys_callers y 0 = Raised (StartupCancelled ''API server startup was cancelled'') \<and>
     us_state (sys_server y) = ApiStopped \<and> us_thread (sys_server y) = Serving \<and>
     us_started (sys_server y) \<and> \<not> us_should_exit (sys_server y)"
proof (intro exI conjI)
  show "api_reachable False (fold act overlapping_run fresh_system)"
    by (rule run_reachable) (simp add: overlapping_run_def act_simps)
qed (simp_all add: overlapping_run_def act_simps)

end
