(* ===== verification/Configuration.thy ===== *)
theory Configuration
  imports Reader_Discovery Escalation Wall_Clock
begin

text \<open>
  \<open>configuration.py\<close>: the checks of a TOML configuration. Reading the file and parsing it as
  TOML is the argument \<open>parsed\<close>: the table, or the exception that was raised. Here the floats are
  all of Python's, because a TOML file can contain \<open>nan\<close> and \<open>inf\<close>.
\<close>

section \<open>Floats\<close>

datatype pyfloat = Finite rat | PosInf | NegInf | NaN

fun float_less :: "pyfloat \<Rightarrow> pyfloat \<Rightarrow> bool" where
  "float_less NaN _ = False"
| "float_less _ NaN = False"
| "float_less (Finite a) (Finite b) = (a < b)"
| "float_less PosInf _ = False"
| "float_less _ NegInf = False"
| "float_less NegInf _ = True"
| "float_less _ PosInf = True"

definition float_le :: "pyfloat \<Rightarrow> pyfloat \<Rightarrow> bool" where
  "float_le a b \<longleftrightarrow> float_less a b \<or> (a = b \<and> a \<noteq> NaN)"

text \<open>
  \<open>float(n)\<close> of an integer: rounded to 53 significant bits, ties to even, or \<open>OverflowError\<close>.
\<close>

fun bit_size :: "nat \<Rightarrow> nat" where
  "bit_size n = (if n = 0 then 0 else Suc (bit_size (n div 2)))"

declare bit_size.simps [simp del]

definition round_53 :: "int \<Rightarrow> int" where
  "round_53 n =
     (let b = bit_size (nat \<bar>n\<bar>)
      in if b \<le> 53 then n
         else sgn n * round_half_even (of_int \<bar>n\<bar> / 2 ^ (b - 53)) * 2 ^ (b - 53))"

definition float_of_int :: "int \<Rightarrow> exn + pyfloat" where
  "float_of_int n =
     (let m = round_53 n
      in if 2 ^ 1024 \<le> \<bar>m\<bar> then Inl (OtherError ''int too large to convert to float'')
         else Inr (Finite (of_int m)))"

section \<open>TOML values\<close>

text \<open>\<open>TTime\<close> stands for the date and time values of TOML, which no setting accepts.\<close>

datatype toml =
    TBool bool
  | TInt int
  | TFloat pyfloat
  | TStr string
  | TTime string
  | TArray "toml list"
  | TTable "(string \<times> toml) list"

type_synonym toml_table = "(string \<times> toml) list"

definition invalid_type :: "string \<Rightarrow> exn" where
  "invalid_type name = ConfigurationError (name @ '' has invalid type'')"

definition table_at :: "toml_table \<Rightarrow> string \<Rightarrow> exn + toml_table" where
  "table_at parent name =
     (case map_of parent name of
        Some (TTable t) \<Rightarrow> Inr t
      | _ \<Rightarrow> Inl (ConfigurationError (name @ '' must be a table'')))"

definition integer_at :: "toml_table \<Rightarrow> string \<Rightarrow> exn + int" where
  "integer_at t name =
     (case map_of t name of Some (TInt n) \<Rightarrow> Inr n | _ \<Rightarrow> Inl (invalid_type name))"

definition number_at :: "toml_table \<Rightarrow> string \<Rightarrow> exn + pyfloat" where
  "number_at t name =
     (case map_of t name of
        Some (TInt n) \<Rightarrow> float_of_int n
      | Some (TFloat x) \<Rightarrow> Inr x
      | _ \<Rightarrow> Inl (invalid_type name))"

definition string_at :: "toml_table \<Rightarrow> string \<Rightarrow> exn + string" where
  "string_at t name =
     (case map_of t name of Some (TStr s) \<Rightarrow> Inr s | _ \<Rightarrow> Inl (invalid_type name))"

definition boolean_at :: "toml_table \<Rightarrow> string \<Rightarrow> exn + bool" where
  "boolean_at t name =
     (case map_of t name of Some (TBool b) \<Rightarrow> Inr b | _ \<Rightarrow> Inl (invalid_type name))"

definition optional_integer_at :: "toml_table \<Rightarrow> string \<Rightarrow> exn + int option" where
  "optional_integer_at t name =
     (case map_of t name of
        None \<Rightarrow> Inr None
      | Some (TInt n) \<Rightarrow> Inr (Some n)
      | _ \<Rightarrow> Inl (invalid_type name))"

definition optional_string_at :: "toml_table \<Rightarrow> string \<Rightarrow> exn + string option" where
  "optional_string_at t name =
     (case map_of t name of
        None \<Rightarrow> Inr None
      | Some (TStr s) \<Rightarrow> Inr (Some s)
      | _ \<Rightarrow> Inl (invalid_type name))"

section \<open>The configuration classes\<close>

record serial_configuration =
  se_baud_rate :: int
  se_data_bits :: int
  se_parity :: string
  se_stop_bits :: int
  se_timeout_seconds :: pyfloat
  se_maximum_record_bytes :: int

record gpio_configuration =
  gc_numbering :: string
  gc_channel :: int
  gc_normal_high :: bool
  gc_release_high :: bool
  gc_release_seconds :: pyfloat

record api_configuration =
  ap_enabled :: bool
  ap_host :: string
  ap_port :: int
  ap_max_event_page_size :: int
  ap_stale_after_seconds :: pyfloat

definition api_defaults :: api_configuration where
  "api_defaults =
     \<lparr>ap_enabled = False, ap_host = ''127.0.0.1'', ap_port = 8080, ap_max_event_page_size = 100,
      ap_stale_after_seconds = Finite 10\<rparr>"

text \<open>\<open>BackoffPolicy\<close> and \<open>EscalationPolicy\<close> with the floats of the file.\<close>

record backoff_values =
  bv_minimum :: pyfloat
  bv_maximum :: pyfloat
  bv_jitter :: pyfloat

record escalation_values =
  va_warning_count :: int
  va_warning_window :: pyfloat
  va_critical_count :: int
  va_critical_window :: pyfloat
  va_reset_after :: pyfloat

record system_configuration =
  sy_reader_identity :: reader_identity
  sy_serial :: serial_configuration
  sy_gpio :: gpio_configuration
  sy_backoff :: backoff_values
  sy_escalation :: escalation_values
  sy_relay_backend :: string
  sy_api :: api_configuration

definition check_backoff_values :: "backoff_values \<Rightarrow> exn + backoff_values" where
  "check_backoff_values v =
     (if float_le (bv_minimum v) (Finite 0) \<or> float_less (bv_maximum v) (bv_minimum v)
      then Inl (ValueError ''invalid backoff bounds'')
      else if \<not> (float_le (Finite 0) (bv_jitter v) \<and> float_le (bv_jitter v) (Finite 1))
      then Inl (ValueError ''jitter must be between zero and one'')
      else Inr v)"

definition check_escalation_values :: "escalation_values \<Rightarrow> exn + escalation_values" where
  "check_escalation_values v =
     (if va_warning_count v \<le> 0 \<or> va_critical_count v \<le> va_warning_count v
      then Inl (ValueError ''escalation thresholds must be positive and increasing'')
      else if float_le (va_warning_window v) (Finite 0) \<or>
        float_less (va_critical_window v) (va_warning_window v) \<or>
        float_le (va_reset_after v) (Finite 0)
      then Inl (ValueError ''escalation windows must be positive and ordered'')
      else Inr v)"

text \<open>On finite floats these are the checks of the policies themselves.\<close>

definition finite_backoff :: "backoff_policy \<Rightarrow> backoff_values" where
  "finite_backoff p =
     \<lparr>bv_minimum = Finite (bp_minimum p), bv_maximum = Finite (bp_maximum p),
      bv_jitter = Finite (bp_jitter p)\<rparr>"

definition finite_escalation :: "escalation_policy \<Rightarrow> escalation_values" where
  "finite_escalation p =
     \<lparr>va_warning_count = warning_count p, va_warning_window = Finite (warning_window p),
      va_critical_count = critical_count p, va_critical_window = Finite (critical_window p),
      va_reset_after = Finite (reset_after p)\<rparr>"

lemma check_finite_backoff:
  "check_backoff_values (finite_backoff p) = map_sum id finite_backoff (check_backoff p)"
  by (auto simp: check_backoff_values_def check_backoff_def finite_backoff_def float_le_def)

lemma check_finite_escalation:
  "check_escalation_values (finite_escalation p) =
   map_sum id finite_escalation (check_escalation_policy p)"
  by (auto simp: check_escalation_values_def check_escalation_policy_def finite_escalation_def
      float_le_def)

section \<open>load_configuration\<close>

text \<open>
  \<open>str(Path(text))\<close> on POSIX: empty and \<open>.\<close> parts go away, and only exactly two leading slashes
  are kept as two.
\<close>

fun split_slash :: "string \<Rightarrow> string list" where
  "split_slash [] = [[]]"
| "split_slash (c # cs) =
     (if c = CHR ''/'' then [] # split_slash cs
      else case split_slash cs of [] \<Rightarrow> [[c]] | p # ps \<Rightarrow> (c # p) # ps)"

fun join_slash :: "string list \<Rightarrow> string" where
  "join_slash [] = []"
| "join_slash [p] = p"
| "join_slash (p # ps) = p @ ''/'' @ join_slash ps"

definition leading_slashes :: "string \<Rightarrow> string" where
  "leading_slashes text =
     (let n = length (takeWhile (\<lambda>c. c = CHR ''/'') text)
      in if n = 0 then [] else if n = 2 then ''//'' else ''/'')"

definition posix_path :: "string \<Rightarrow> string" where
  "posix_path text =
     (let parts = filter (\<lambda>p. p \<noteq> [] \<and> p \<noteq> ''.'') (split_slash text);
          path = leading_slashes text @ join_slash parts
      in if path = [] then ''.'' else path)"

text \<open>\<open>str.strip()\<close>, for the characters below 256.\<close>

definition is_space :: "char \<Rightarrow> bool" where
  "is_space c \<longleftrightarrow> of_char c \<in> {9, 10, 11, 12, 13, 28, 29, 30, 31, 32, 133, 160 :: int}"

definition strip :: "string \<Rightarrow> string" where
  "strip s = rev (dropWhile is_space (rev (dropWhile is_space s)))"

definition load_identity :: "toml_table \<Rightarrow> exn + reader_identity" where
  "load_identity reader =
     chain (optional_string_at reader ''by_id_path'') (\<lambda>by_id_path.
     chain (optional_integer_at reader ''vid'') (\<lambda>vid.
     chain (optional_integer_at reader ''pid'') (\<lambda>pid.
     chain (optional_string_at reader ''serial_number'') (\<lambda>serial_number.
     chain (optional_string_at reader ''manufacturer'') (\<lambda>manufacturer.
     chain (optional_string_at reader ''product'') (\<lambda>prod.
       check_identity
         \<lparr>ri_by_id_path = (case by_id_path of
            None \<Rightarrow> None | Some p \<Rightarrow> if p = [] then None else Some (posix_path p)),
          ri_vid = vid, ri_pid = pid, ri_serial_number = serial_number,
          ri_manufacturer = manufacturer, ri_product = prod\<rparr>))))))"

definition load_serial :: "toml_table \<Rightarrow> exn + serial_configuration" where
  "load_serial serial =
     chain (integer_at serial ''baud_rate'') (\<lambda>baud_rate.
     chain (integer_at serial ''data_bits'') (\<lambda>data_bits.
     chain (string_at serial ''parity'') (\<lambda>parity.
     chain (integer_at serial ''stop_bits'') (\<lambda>stop_bits.
     chain (number_at serial ''timeout_seconds'') (\<lambda>timeout_seconds.
     chain (integer_at serial ''maximum_record_bytes'') (\<lambda>maximum_record_bytes.
       Inr \<lparr>se_baud_rate = baud_rate, se_data_bits = data_bits, se_parity = parity,
            se_stop_bits = stop_bits, se_timeout_seconds = timeout_seconds,
            se_maximum_record_bytes = maximum_record_bytes\<rparr>))))))"

definition load_gpio :: "toml_table \<Rightarrow> exn + gpio_configuration" where
  "load_gpio gpio =
     chain (string_at gpio ''numbering'') (\<lambda>numbering.
     chain (integer_at gpio ''channel'') (\<lambda>channel.
     chain (boolean_at gpio ''normal_high'') (\<lambda>normal_high.
     chain (boolean_at gpio ''release_high'') (\<lambda>release_high.
     chain (number_at gpio ''release_seconds'') (\<lambda>release_seconds.
       Inr \<lparr>gc_numbering = numbering, gc_channel = channel, gc_normal_high = normal_high,
            gc_release_high = release_high, gc_release_seconds = release_seconds\<rparr>)))))"

definition load_backoff :: "toml_table \<Rightarrow> exn + backoff_values" where
  "load_backoff reconnect =
     chain (number_at reconnect ''minimum_seconds'') (\<lambda>minimum.
     chain (number_at reconnect ''maximum_seconds'') (\<lambda>maximum.
     chain (number_at reconnect ''jitter'') (\<lambda>jitter.
       check_backoff_values \<lparr>bv_minimum = minimum, bv_maximum = maximum, bv_jitter = jitter\<rparr>)))"

definition load_escalation :: "toml_table \<Rightarrow> exn + escalation_values" where
  "load_escalation escalation =
     chain (integer_at escalation ''warning_count'') (\<lambda>warning_count.
     chain (number_at escalation ''warning_window_seconds'') (\<lambda>warning_window.
     chain (integer_at escalation ''critical_count'') (\<lambda>critical_count.
     chain (number_at escalation ''critical_window_seconds'') (\<lambda>critical_window.
     chain (number_at escalation ''reset_after_seconds'') (\<lambda>reset_after.
       check_escalation_values
         \<lparr>va_warning_count = warning_count, va_warning_window = warning_window,
          va_critical_count = critical_count, va_critical_window = critical_window,
          va_reset_after = reset_after\<rparr>)))))"

text \<open>A setting of \<open>[api]\<close>: its value when the key is there, else the default.\<close>

definition api_setting ::
  "toml_table \<Rightarrow> string \<Rightarrow> (toml_table \<Rightarrow> string \<Rightarrow> exn + 'a) \<Rightarrow> 'a \<Rightarrow> exn + 'a" where
  "api_setting api name get fallback =
     (if map_of api name \<noteq> None then get api name else Inr fallback)"

definition load_api :: "toml_table \<Rightarrow> exn + api_configuration" where
  "load_api api =
     chain (api_setting api ''enabled'' boolean_at (ap_enabled api_defaults)) (\<lambda>enabled.
     chain (api_setting api ''host'' (\<lambda>t n. map_sum id strip (string_at t n)) (ap_host api_defaults)) (\<lambda>host.
     chain (api_setting api ''port'' integer_at (ap_port api_defaults)) (\<lambda>port.
     chain (api_setting api ''max_event_page_size'' integer_at
              (ap_max_event_page_size api_defaults)) (\<lambda>max_event_page_size.
     chain (api_setting api ''operational_snapshot_stale_after_seconds'' number_at
              (ap_stale_after_seconds api_defaults)) (\<lambda>stale_after.
       Inr \<lparr>ap_enabled = enabled, ap_host = host, ap_port = port,
            ap_max_event_page_size = max_event_page_size,
            ap_stale_after_seconds = stale_after\<rparr>)))))"

text \<open>The body of the \<open>try\<close>: the first exception, in the order of the source, wins.\<close>

definition read_settings :: "exn + toml_table \<Rightarrow> exn + system_configuration" where
  "read_settings parsed =
     chain parsed (\<lambda>raw.
     chain (table_at raw ''reader'') (\<lambda>reader.
     chain (table_at raw ''serial'') (\<lambda>serial.
     chain (table_at raw ''gpio'') (\<lambda>gpio.
     chain (table_at raw ''reconnect'') (\<lambda>reconnect.
     chain (table_at raw ''escalation'') (\<lambda>escalation.
     chain (if map_of raw ''relay'' = None then Inr [(''backend'', TStr ''simulated'')]
            else table_at raw ''relay'') (\<lambda>relay.
     chain (if map_of raw ''api'' = None then Inr [] else table_at raw ''api'') (\<lambda>api.
     chain (load_identity reader) (\<lambda>identity.
     chain (load_serial serial) (\<lambda>serial_config.
     chain (load_gpio gpio) (\<lambda>gpio_config.
     chain (load_backoff reconnect) (\<lambda>backoff.
     chain (load_escalation escalation) (\<lambda>escalation_policy.
     chain (string_at relay ''backend'') (\<lambda>backend.
     chain (load_api api) (\<lambda>api_config.
       Inr \<lparr>sy_reader_identity = identity, sy_serial = serial_config, sy_gpio = gpio_config,
            sy_backoff = backoff, sy_escalation = escalation_policy, sy_relay_backend = backend,
            sy_api = api_config\<rparr>)))))))))))))))"

text \<open>
  The \<open>except\<close> clause: \<open>TOMLDecodeError\<close> and \<open>UnicodeDecodeError\<close> are \<open>ValueError\<close>s. An
  \<open>OverflowError\<close> is none of these and passes.
\<close>

fun exn_text :: "exn \<Rightarrow> string" where
  "exn_text (OSError m) = m"
| "exn_text (ReaderDisconnectedError m) = m"
| "exn_text (KeyError m) = [CHR 0x27] @ m @ [CHR 0x27]"
| "exn_text (TypeError m) = m"
| "exn_text (ValueError m) = m"
| "exn_text (ReaderRecordError m) = m"
| "exn_text (AuthorizationError m) = m"
| "exn_text (ConfigurationError m) = m"
| "exn_text (InvalidQueryError m) = m"
| "exn_text (UnicodeError m) = m"
| "exn_text _ = []"

fun is_configuration_failure :: "exn \<Rightarrow> bool" where
  "is_configuration_failure (KeyError _) = True"
| "is_configuration_failure (TypeError _) = True"
| "is_configuration_failure e = (is_os_error e \<or> is_value_error e)"

definition as_configuration_error :: "exn \<Rightarrow> exn" where
  "as_configuration_error e =
     (if is_configuration_failure e
      then ConfigurationError (exn_text e) else e)"

definition approved_serial :: serial_configuration where
  "approved_serial =
     \<lparr>se_baud_rate = 9600, se_data_bits = 8, se_parity = ''none'', se_stop_bits = 1,
      se_timeout_seconds = Finite 1, se_maximum_record_bytes = 16\<rparr>"

definition approved_gpio :: gpio_configuration where
  "approved_gpio =
     \<lparr>gc_numbering = ''BCM'', gc_channel = 23, gc_normal_high = False, gc_release_high = True,
      gc_release_seconds = Finite 3\<rparr>"

definition check_configuration :: "system_configuration \<Rightarrow> exn + system_configuration" where
  "check_configuration c =
     (let api = sy_api c
      in if sy_serial c \<noteq> approved_serial
         then Inl (ConfigurationError ''serial configuration violates the approved reader contract'')
         else if sy_gpio c \<noteq> approved_gpio
         then Inl (ConfigurationError ''GPIO configuration violates the approved GPIO contract'')
         else if sy_relay_backend c \<notin> {''simulated'', ''raspberry_pi''}
         then Inl (ConfigurationError ''relay backend must be simulated or raspberry_pi'')
         else if ap_host api = []
         then Inl (ConfigurationError ''api host must not be empty'')
         else if \<not> (1 \<le> ap_port api \<and> ap_port api \<le> 65535)
         then Inl (ConfigurationError ''api port must be between 1 and 65535'')
         else if \<not> (1 \<le> ap_max_event_page_size api \<and> ap_max_event_page_size api \<le> 1000)
         then Inl (ConfigurationError ''api maximum event page size must be between 1 and 1000'')
         else if float_le (ap_stale_after_seconds api) (Finite 0)
         then Inl (ConfigurationError ''api snapshot freshness threshold must be positive'')
         else Inr c)"

definition load_configuration :: "exn + toml_table \<Rightarrow> exn + system_configuration" where
  "load_configuration parsed =
     (case read_settings parsed of
        Inl e \<Rightarrow> Inl (as_configuration_error e)
      | Inr c \<Rightarrow> check_configuration c)"

section \<open>What is accepted\<close>

text \<open>
  The acceptable configurations, said of the values: the two approved contracts to the letter, a
  known backend, the ranges of the API settings, and policies in order. A bound that is \<open>nan\<close>
  violates no comparison that must fail.
\<close>

definition acceptable_identity :: "reader_identity \<Rightarrow> bool" where
  "acceptable_identity i \<longleftrightarrow>
     (case ri_by_id_path i of
        None \<Rightarrow> ri_vid i \<noteq> None \<and> ri_pid i \<noteq> None
      | Some p \<Rightarrow> \<exists>text. text \<noteq> [] \<and> p = posix_path text)"

definition acceptable_api :: "api_configuration \<Rightarrow> bool" where
  "acceptable_api a \<longleftrightarrow>
     ap_host a \<noteq> [] \<and> strip (ap_host a) = ap_host a \<and> ap_port a \<in> {1..65535} \<and>
     ap_max_event_page_size a \<in> {1..1000} \<and> \<not> float_le (ap_stale_after_seconds a) (Finite 0)"

definition acceptable :: "system_configuration \<Rightarrow> bool" where
  "acceptable c \<longleftrightarrow>
     acceptable_identity (sy_reader_identity c) \<and> sy_serial c = approved_serial \<and>
     sy_gpio c = approved_gpio \<and> check_backoff_values (sy_backoff c) = Inr (sy_backoff c) \<and>
     check_escalation_values (sy_escalation c) = Inr (sy_escalation c) \<and>
     sy_relay_backend c \<in> {''simulated'', ''raspberry_pi''} \<and> acceptable_api (sy_api c)"

lemma strip_strip: "strip (strip s) = strip s"
proof -
  define t where "t = dropWhile is_space s"
  have t: "dropWhile is_space t = t" by (simp add: t_def)
  obtain u where u: "rev t = takeWhile is_space (rev t) @ u" "u = dropWhile is_space (rev t)"
    by (metis takeWhile_dropWhile_id)
  have "dropWhile is_space (rev u) = rev u"
  proof (cases "rev u")
    case (Cons c cs)
    have "t = rev u @ rev (takeWhile is_space (rev t))" by (metis rev_append rev_rev_ident u(1))
    then have "t = c # (cs @ rev (takeWhile is_space (rev t)))" using Cons by simp
    then have "\<not> is_space c" using t by (metis dropWhile_eq_Cons_conv list.inject)
    then show ?thesis using Cons by simp
  qed simp
  moreover have "dropWhile is_space u = u" by (simp add: u(2))
  ultimately show ?thesis by (simp add: strip_def t_def [symmetric] u(2) [symmetric])
qed

lemma check_values_Inr:
  "check_backoff_values v = Inr w \<Longrightarrow> w = v" "check_escalation_values u = Inr x \<Longrightarrow> x = u"
  by (auto simp: check_backoff_values_def check_escalation_values_def split: if_splits)

lemma load_identity_acceptable: "load_identity t = Inr i \<Longrightarrow> acceptable_identity i"
  by (auto simp: load_identity_def chain_Inr check_identity_def acceptable_identity_def
      split: if_splits option.splits)

lemma load_policies:
  "load_backoff t = Inr v \<Longrightarrow> check_backoff_values v = Inr v"
  "load_escalation t = Inr w \<Longrightarrow> check_escalation_values w = Inr w"
  by (auto simp: load_backoff_def load_escalation_def chain_Inr dest: check_values_Inr)

lemma load_api_host: "load_api t = Inr a \<Longrightarrow> strip (ap_host a) = ap_host a"
proof -
  assume "load_api t = Inr a"
  then have "ap_host a \<in> insert ''127.0.0.1'' (range strip)"
    by (auto simp: load_api_def chain_Inr api_setting_def api_defaults_def map_sum_def
        split: if_splits sum.splits)
  moreover have "strip ''127.0.0.1'' = ''127.0.0.1''" by code_simp
  ultimately show ?thesis by (auto simp: strip_strip)
qed

lemma load_configuration_acceptable: "load_configuration parsed = Inr c \<Longrightarrow> acceptable c"
proof -
  assume load: "load_configuration parsed = Inr c"
  then have read: "read_settings parsed = Inr c" and check: "check_configuration c = Inr c"
    by (auto simp: load_configuration_def check_configuration_def Let_def
        split: sum.splits if_splits)
  obtain reader reconnect escalation api where
    "load_identity reader = Inr (sy_reader_identity c)" "load_backoff reconnect = Inr (sy_backoff c)"
    "load_escalation escalation = Inr (sy_escalation c)" "load_api api = Inr (sy_api c)"
    using read by (auto simp: read_settings_def chain_Inr)
  with check show ?thesis
    using load_api_host load_policies load_identity_acceptable
    by (auto simp: acceptable_def acceptable_api_def check_configuration_def Let_def
        split: if_splits)
qed

section \<open>The document of a configuration\<close>

definition entry :: "string \<Rightarrow> ('a \<Rightarrow> toml) \<Rightarrow> 'a option \<Rightarrow> toml_table" where
  "entry name f x = (case x of None \<Rightarrow> [] | Some v \<Rightarrow> [(name, f v)])"

definition reader_table :: "string option \<Rightarrow> reader_identity \<Rightarrow> toml_table" where
  "reader_table path i =
     entry ''by_id_path'' TStr path @ entry ''vid'' TInt (ri_vid i) @
     entry ''pid'' TInt (ri_pid i) @ entry ''serial_number'' TStr (ri_serial_number i) @
     entry ''manufacturer'' TStr (ri_manufacturer i) @ entry ''product'' TStr (ri_product i)"

definition serial_table :: "serial_configuration \<Rightarrow> toml_table" where
  "serial_table c =
     [(''baud_rate'', TInt (se_baud_rate c)), (''data_bits'', TInt (se_data_bits c)),
      (''parity'', TStr (se_parity c)), (''stop_bits'', TInt (se_stop_bits c)),
      (''timeout_seconds'', TFloat (se_timeout_seconds c)),
      (''maximum_record_bytes'', TInt (se_maximum_record_bytes c))]"

definition gpio_table :: "gpio_configuration \<Rightarrow> toml_table" where
  "gpio_table c =
     [(''numbering'', TStr (gc_numbering c)), (''channel'', TInt (gc_channel c)),
      (''normal_high'', TBool (gc_normal_high c)), (''release_high'', TBool (gc_release_high c)),
      (''release_seconds'', TFloat (gc_release_seconds c))]"

definition reconnect_table :: "backoff_values \<Rightarrow> toml_table" where
  "reconnect_table v =
     [(''minimum_seconds'', TFloat (bv_minimum v)), (''maximum_seconds'', TFloat (bv_maximum v)),
      (''jitter'', TFloat (bv_jitter v))]"

definition escalation_table :: "escalation_values \<Rightarrow> toml_table" where
  "escalation_table v =
     [(''warning_count'', TInt (va_warning_count v)),
      (''warning_window_seconds'', TFloat (va_warning_window v)),
      (''critical_count'', TInt (va_critical_count v)),
      (''critical_window_seconds'', TFloat (va_critical_window v)),
      (''reset_after_seconds'', TFloat (va_reset_after v))]"

definition api_table :: "api_configuration \<Rightarrow> toml_table" where
  "api_table a =
     [(''enabled'', TBool (ap_enabled a)), (''host'', TStr (ap_host a)), (''port'', TInt (ap_port a)),
      (''max_event_page_size'', TInt (ap_max_event_page_size a)),
      (''operational_snapshot_stale_after_seconds'', TFloat (ap_stale_after_seconds a))]"

definition document :: "string option \<Rightarrow> system_configuration \<Rightarrow> toml_table" where
  "document path c =
     [(''reader'', TTable (reader_table path (sy_reader_identity c))),
      (''serial'', TTable (serial_table (sy_serial c))),
      (''gpio'', TTable (gpio_table (sy_gpio c))),
      (''reconnect'', TTable (reconnect_table (sy_backoff c))),
      (''escalation'', TTable (escalation_table (sy_escalation c))),
      (''relay'', TTable [(''backend'', TStr (sy_relay_backend c))]),
      (''api'', TTable (api_table (sy_api c)))]"

lemma load_reader_table:
  assumes "acceptable_identity i"
  obtains path where "load_identity (reader_table path i) = Inr i"
proof -
  have "\<exists>path. ri_by_id_path i =
      (case path of None \<Rightarrow> None | Some p \<Rightarrow> if p = [] then None else Some (posix_path p))"
  proof (cases "ri_by_id_path i")
    case (Some p)
    then obtain t where "t \<noteq> []" "p = posix_path t"
      using assms by (auto simp: acceptable_identity_def)
    with Some show ?thesis by (intro exI [of _ "Some t"]) simp
  qed (auto intro: exI [of _ None])
  then obtain path where path: "ri_by_id_path i =
      (case path of None \<Rightarrow> None | Some p \<Rightarrow> if p = [] then None else Some (posix_path p))" ..
  have "optional_string_at (reader_table path i) ''by_id_path'' = Inr path"
    "optional_integer_at (reader_table path i) ''vid'' = Inr (ri_vid i)"
    "optional_integer_at (reader_table path i) ''pid'' = Inr (ri_pid i)"
    "optional_string_at (reader_table path i) ''serial_number'' = Inr (ri_serial_number i)"
    "optional_string_at (reader_table path i) ''manufacturer'' = Inr (ri_manufacturer i)"
    "optional_string_at (reader_table path i) ''product'' = Inr (ri_product i)"
    by (simp_all add: reader_table_def entry_def optional_string_at_def optional_integer_at_def
        map_add_def split: option.split)
  then have "load_identity (reader_table path i) = check_identity i"
    by (cases i) (simp add: load_identity_def path [symmetric])
  also have "\<dots> = Inr i"
    using assms by (auto simp: check_identity_def acceptable_identity_def split: option.splits)
  finally show thesis by (rule that)
qed

lemma load_tables:
  "load_serial (serial_table s) = Inr s" "load_gpio (gpio_table g) = Inr g"
  "load_backoff (reconnect_table v) = check_backoff_values v"
  "load_escalation (escalation_table w) = check_escalation_values w"
  by (cases s; cases g; cases v; cases w;
      simp add: load_serial_def serial_table_def load_gpio_def gpio_table_def load_backoff_def
        reconnect_table_def load_escalation_def escalation_table_def integer_at_def number_at_def
        string_at_def boolean_at_def)+

lemma load_api_table: "strip (ap_host a) = ap_host a \<Longrightarrow> load_api (api_table a) = Inr a"
  by (simp add: load_api_def api_table_def api_setting_def integer_at_def number_at_def
      string_at_def boolean_at_def)

lemma read_document:
  assumes "acceptable c" and "load_identity (reader_table path (sy_reader_identity c)) =
    Inr (sy_reader_identity c)"
  shows "load_configuration (Inr (document path c)) = Inr c"
proof -
  have "read_settings (Inr (document path c)) = Inr c"
    using assms load_api_table [of "sy_api c"]
    by (simp add: read_settings_def document_def table_at_def string_at_def load_tables
        acceptable_def acceptable_api_def)
  moreover have "check_configuration c = Inr c"
    using assms(1) by (auto simp: check_configuration_def acceptable_def acceptable_api_def Let_def)
  ultimately show ?thesis by (simp add: load_configuration_def)
qed

text \<open>
  C28. The configurations that \<open>load_configuration\<close> returns, from whatever file, are exactly the
  acceptable ones: a returned configuration has the approved serial and GPIO contract, a known
  backend, policies that pass their checks and API settings in their ranges, and for each such
  configuration there is a document that loads to it.
\<close>

theorem configurations_loaded_are_acceptable:
  "(\<exists>parsed. load_configuration parsed = Inr c) \<longleftrightarrow> acceptable c"
proof
  assume "acceptable c"
  then show "\<exists>parsed. load_configuration parsed = Inr c"
    using load_reader_table [of "sy_reader_identity c"] read_document
    by (metis acceptable_def)
qed (use load_configuration_acceptable in blast)

section \<open>Failures\<close>

text \<open>
  What the loading raises by itself is a \<open>ConfigurationError\<close>, with one exception: the
  \<open>OverflowError\<close> of an integer that no float can hold is not in the list of the \<open>except\<close> clause.
\<close>

definition overflow :: exn where
  "overflow = OtherError ''int too large to convert to float''"

definition fails_well :: "exn + 'a \<Rightarrow> bool" where
  "fails_well x \<longleftrightarrow> (case x of Inl e \<Rightarrow> is_configuration_failure e \<or> e = overflow | Inr _ \<Rightarrow> True)"

lemma fails_well_chain: "fails_well x \<Longrightarrow> (\<And>v. fails_well (f v)) \<Longrightarrow> fails_well (chain x f)"
  by (cases x) (auto simp: fails_well_def)

lemma fails_well_Inr: "fails_well (Inr v)"
  by (simp add: fails_well_def)

lemma fails_well_if: "fails_well x \<Longrightarrow> fails_well y \<Longrightarrow> fails_well (if b then x else y)"
  by simp

lemma fails_well_map_sum: "fails_well x \<Longrightarrow> fails_well (map_sum id g x)"
  by (cases x) (simp_all add: fails_well_def)

lemma fails_well_at:
  "fails_well (table_at t name)" "fails_well (integer_at t name)" "fails_well (number_at t name)"
  "fails_well (string_at t name)" "fails_well (boolean_at t name)"
  "fails_well (optional_integer_at t name)" "fails_well (optional_string_at t name)"
  by (auto simp: fails_well_def table_at_def integer_at_def number_at_def string_at_def
      boolean_at_def optional_integer_at_def optional_string_at_def float_of_int_def overflow_def
      invalid_type_def Let_def split: option.splits toml.splits)

lemma fails_well_checks:
  "fails_well (check_identity i)" "fails_well (check_backoff_values v)"
  "fails_well (check_escalation_values w)"
  by (simp_all add: fails_well_def check_identity_def check_backoff_values_def
      check_escalation_values_def)

lemmas fails_well_rules =
  fails_well_chain fails_well_Inr fails_well_if fails_well_map_sum fails_well_at fails_well_checks

lemma fails_well_settings: "fails_well parsed \<Longrightarrow> fails_well (read_settings parsed)"
  unfolding read_settings_def load_identity_def load_serial_def load_gpio_def load_backoff_def
    load_escalation_def load_api_def api_setting_def
  by (intro fails_well_rules)

lemma load_configuration_failures:
  assumes "fails_well parsed" and "load_configuration parsed = Inl e"
  shows "(\<exists>m. e = ConfigurationError m) \<or> e = overflow"
proof (cases "read_settings parsed")
  case (Inl e')
  then have "is_configuration_failure e' \<or> e' = overflow"
    using fails_well_settings [OF assms(1)] by (simp add: fails_well_def)
  then show ?thesis
    using assms(2) Inl
    by (auto simp: load_configuration_def as_configuration_error_def overflow_def)
next
  case (Inr c)
  then show ?thesis
    using assms(2)
    by (auto simp: load_configuration_def check_configuration_def Let_def split: if_splits)
qed

text \<open>
  Two consequences of Python's comparisons: a freshness threshold of \<open>nan\<close> is accepted, and an
  integer too large for a float escapes as an \<open>OverflowError\<close>.
\<close>

lemma nan_threshold_is_acceptable:
  "acceptable c \<Longrightarrow> acceptable (c\<lparr>sy_api := (sy_api c)\<lparr>ap_stale_after_seconds := NaN\<rparr>\<rparr>)"
  by (simp add: acceptable_def acceptable_api_def float_le_def)

end
