(* ===== verification/Hardware_Service.thy ===== *)
theory Hardware_Service
  imports Runtime_Hardware Uvicorn_Server Configuration
begin

text \<open>
  \<open>hardware_service.py\<close>: the composition root. The runtime and everything under it are the model
  of the other theories; what the service only opens, starts or closes (database, schema and
  authorization files, queue, signals, the HTTP stack) are operations on the world that it is
  given.
\<close>

section \<open>What the service is given\<close>

text \<open>
  The settings it takes from the configuration, with finite floats.
\<close>

record service_settings =
  ss_relay_backend :: string
  ss_api_enabled :: bool
  ss_identity :: reader_identity
  ss_backoff :: backoff_policy
  ss_escalation :: escalation_policy
  ss_release_seconds :: seconds
  ss_gpio_channel :: int
  ss_maximum_record_bytes :: int

fun finite_value :: "pyfloat \<Rightarrow> seconds option" where
  "finite_value (Finite x) = Some x"
| "finite_value _ = None"

text \<open>The settings of a configuration, \<open>None\<close> when one of its floats is \<open>nan\<close> or infinite.\<close>

definition settings_of :: "system_configuration \<Rightarrow> service_settings option" where
  "settings_of c =
     (case (finite_value (bv_minimum (sy_backoff c)), finite_value (bv_maximum (sy_backoff c)),
            finite_value (bv_jitter (sy_backoff c)),
            finite_value (va_warning_window (sy_escalation c)),
            finite_value (va_critical_window (sy_escalation c)),
            finite_value (va_reset_after (sy_escalation c)),
            finite_value (gc_release_seconds (sy_gpio c))) of
        (Some mn, Some mx, Some jitter, Some ww, Some cw, Some ra, Some rs) \<Rightarrow>
          Some \<lparr>ss_relay_backend = sy_relay_backend c, ss_api_enabled = ap_enabled (sy_api c),
                ss_identity = sy_reader_identity c,
                ss_backoff = \<lparr>bp_minimum = mn, bp_maximum = mx, bp_jitter = jitter\<rparr>,
                ss_escalation =
                  \<lparr>warning_count = va_warning_count (sy_escalation c), warning_window = ww,
                   critical_count = va_critical_count (sy_escalation c), critical_window = cw,
                   reset_after = ra\<rparr>,
                ss_release_seconds = rs, ss_gpio_channel = gc_channel (sy_gpio c),
                ss_maximum_record_bytes = se_maximum_record_bytes (sy_serial c)\<rparr>
      | _ \<Rightarrow> None)"

text \<open>
  An exception object of the API server: the service compares such objects by identity, which is
  the number. \<open>sc_api_start\<close> and \<open>sc_api_stop\<close> tell which object they raised, if any.
\<close>

type_synonym api_failure = "nat \<times> exn"

record 'w service_calls =
  sc_open_audit :: "('w, unit) prog"
  sc_load_authorization :: "('w, unit) prog"
  sc_make_relay :: "('w, unit) prog"
  sc_open_notifications :: "('w, unit) prog"
  sc_install_signals :: "('w, unit) prog"
  sc_print_ready :: "('w, unit) prog"
  sc_close_audit :: "('w, unit) prog"
  sc_make_api :: "datetime \<Rightarrow> ('w, unit) prog"
  sc_api_start :: "('w, api_failure option) prog"
  sc_api_stop :: "('w, api_failure option) prog"
  sc_api_snapshot :: "('w, api_state \<times> api_failure list) prog"

section \<open>The state of the service\<close>

text \<open>
  The local variables of \<open>run_hardware_service\<close>. The machine is the bare world until the runtime
  has been built. An exception that \<open>health.report\<close> raises is a new object, and all observed
  objects are kept alive by the list of failures, so it is never among the observed ones.
\<close>

record 'w service =
  hs_machine :: "'w + 'w runtime"
  hs_audit_open :: bool
  hs_relay_made :: bool
  hs_api_made :: bool
  hs_failures :: "exn list"
  hs_observed :: "nat list"
  hs_api_state :: api_state

definition on_machine :: "('w, 'a) prog \<Rightarrow> ('w service, 'a) prog" where
  "on_machine m s =
     (case hs_machine s of
        Inl w \<Rightarrow> (case m w of (r, w') \<Rightarrow> (r, s\<lparr>hs_machine := Inl w'\<rparr>))
      | Inr rt \<Rightarrow> (case on_host m rt of (r, rt') \<Rightarrow> (r, s\<lparr>hs_machine := Inr rt'\<rparr>)))"

text \<open>\<open>if runtime is not None: ...\<close>, with the value that stands for nothing to do.\<close>

definition on_runtime :: "'a \<Rightarrow> ('w runtime, 'a) prog \<Rightarrow> ('w service, 'a) prog" where
  "on_runtime x m s =
     (case hs_machine s of
        Inl w \<Rightarrow> (Inr x, s)
      | Inr rt \<Rightarrow> (case m rt of (r, rt') \<Rightarrow> (r, s\<lparr>hs_machine := Inr rt'\<rparr>)))"

definition note_failure :: "exn \<Rightarrow> ('w service, unit) prog" where
  "note_failure e = modify (\<lambda>s. s\<lparr>hs_failures := hs_failures s @ [e]\<rparr>)"

text \<open>\<open>try: m except BaseException as exc: failures.append(exc)\<close>.\<close>

definition noting :: "('w service, unit) prog \<Rightarrow> ('w service, unit) prog" where
  "noting m = try_except (\<lambda>_. True) m note_failure"

section \<open>The state of the API\<close>

definition report_api_state ::
  "'w host \<Rightarrow> service_settings \<Rightarrow> api_state \<Rightarrow> bool \<Rightarrow> ('w service, unit) prog" where
  "report_api_state H cfg state failure =
     sq (modify (hs_api_state_update (\<lambda>_. state)))
        (let stopping = (state \<in> {ApiStopping, ApiStopped});
             status = (if failure then ''degraded''
                       else if state = ApiRunning then ''ready''
                       else if stopping then ''stopped'' else ''degraded'')
         in noting (on_machine (ho_report H status
              [(''access_control'', JStr (if stopping then ''stopped'' else ''operational'')),
               (''api'', JObj [(''enabled'', JBool (ss_api_enabled cfg)),
                              (''state'', JStr (api_state_value state))])])))"

text \<open>\<open>None\<close> is the identity of an exception that the service has not seen before.\<close>

definition retain_api_failure ::
  "'w host \<Rightarrow> service_settings \<Rightarrow> nat option \<Rightarrow> exn \<Rightarrow> api_state \<Rightarrow> ('w service, unit) prog" where
  "retain_api_failure H cfg i e state =
     with_self (\<lambda>s.
       if i \<in> Some ` set (hs_observed s) then skip
       else
         sq (modify (hs_observed_update (\<lambda>ids. case i of None \<Rightarrow> ids | Some n \<Rightarrow> n # ids)))
        (sq (note_failure e) (report_api_state H cfg state True)))"

definition api_failure_states :: "api_state list" where
  "api_failure_states = [ApiStartFailed, ApiStartTimedOut, ApiFailed, ApiStopTimedOut]"

definition observe_api ::
  "'w host \<Rightarrow> service_settings \<Rightarrow> 'w service_calls \<Rightarrow> ('w service, unit) prog" where
  "observe_api H cfg S =
     with_self (\<lambda>s.
       if \<not> hs_api_made s then skip
       else
         bnd (on_machine (sc_api_snapshot S)) (\<lambda>(state, fs).
           let failure_state = state \<in> set api_failure_states
           in sq (if state \<noteq> hs_api_state s \<and> (\<not> failure_state \<or> fs = [])
                  then report_api_state H cfg state failure_state else skip)
                (for_each fs (\<lambda>(i, e). retain_api_failure H cfg (Some i) e state))))"

section \<open>Building and running\<close>

text \<open>
  \<open>AccessController(...)\<close>, \<open>ReaderSupervisor(...)\<close> and \<open>BridgewireRuntime(...)\<close>, over a world.
\<close>

definition new_runtime :: "service_settings \<Rightarrow> 'w \<Rightarrow> exn + 'w runtime" where
  "new_runtime cfg w =
     chain (new_controller w (new_tracker (ss_escalation cfg)) (ss_release_seconds cfg)
              (ss_gpio_channel cfg)) (\<lambda>controller.
       new_supervisor (ss_identity cfg) (Some (ss_backoff cfg)) 3
         \<lparr>rr_controller = controller,
          rr_stream = new_stream (nat (ss_maximum_record_bytes cfg * 4)),
          rr_published = Some None, rr_shutdown_complete = False\<rparr>)"

definition build_runtime :: "service_settings \<Rightarrow> ('w service, unit) prog" where
  "build_runtime cfg s =
     (case hs_machine s of
        Inl w \<Rightarrow> (case new_runtime cfg w of
                    Inl e \<Rightarrow> (Inl e, s)
                  | Inr rt \<Rightarrow> (Inr (), s\<lparr>hs_machine := Inr rt\<rparr>))
      | Inr rt \<Rightarrow> (Inr (), s))"

definition api_disabled :: json where
  "api_disabled = JObj [(''enabled'', JBool False), (''state'', JStr ''disabled'')]"

text \<open>The \<open>try\<close> around the API: the failure object when one was caught.\<close>

definition try_api ::
  "'w host \<Rightarrow> service_settings \<Rightarrow> 'w service_calls \<Rightarrow> datetime \<Rightarrow>
   ('w service, (nat option \<times> exn) option) prog" where
  "try_api H cfg S started =
     try_except is_exception
       (sq (on_machine (sc_make_api S started))
       (sq (modify (hs_api_made_update (\<lambda>_. True)))
       (sq (report_api_state H cfg ApiStarting False)
       (bnd (on_machine (sc_api_start S)) (\<lambda>raised.
          case raised of
            None \<Rightarrow> sq (observe_api H cfg S) (ret None)
          | Some (i, e) \<Rightarrow> if is_exception e then ret (Some (Some i, e)) else throw e)))))
       (\<lambda>e. ret (Some (None, e)))"

definition start_api ::
  "'w host \<Rightarrow> service_settings \<Rightarrow> 'w service_calls \<Rightarrow> datetime \<Rightarrow> ('w service, unit) prog" where
  "start_api H cfg S started =
     bnd (try_api H cfg S started) (\<lambda>caught.
       case caught of
         None \<Rightarrow> skip
       | Some (i, e) \<Rightarrow>
           with_self (\<lambda>s.
             bnd (if hs_api_made s then bnd (on_machine (sc_api_snapshot S)) (\<lambda>(state, _). ret state)
                  else ret ApiStartFailed)
                 (\<lambda>state. retain_api_failure H cfg i e state)))"

definition service_ready ::
  "'w host \<Rightarrow> service_settings \<Rightarrow> 'w service_calls \<Rightarrow> ('w service, unit) prog" where
  "service_ready H cfg S =
     sq (on_machine (sc_print_ready S))
        (with_self (\<lambda>s.
           if ss_api_enabled cfg then report_api_state H cfg (hs_api_state s) False
           else on_machine (ho_report H ''ready''
                  [(''reader'', JStr ''connected''), (''api'', api_disabled)])))"

text \<open>
  The body of the outer \<open>try\<close>: \<open>False\<close> when the fuel for the loop was not enough.
\<close>

definition service_body ::
  "nat \<Rightarrow> 'w host \<Rightarrow> service_settings \<Rightarrow> 'w service_calls \<Rightarrow> bool \<Rightarrow> datetime \<Rightarrow>
   ('w service, bool) prog" where
  "service_body fuel H cfg S install_signals started =
     sq (on_machine (sc_open_audit S))
    (sq (modify (hs_audit_open_update (\<lambda>_. True)))
    (sq (on_machine (sc_load_authorization S))
    (sq (on_machine (sc_make_relay S))
    (sq (modify (hs_relay_made_update (\<lambda>_. True)))
    (sq (on_machine (sc_open_notifications S))
    (sq (build_runtime cfg)
    (sq (if install_signals then on_machine (sc_install_signals S) else skip)
    (sq (on_runtime () (runtime_start H))
    (sq (if ss_api_enabled cfg then start_api H cfg S started
         else on_machine (ho_report H ''degraded''
                [(''reason'', JStr ''reader_connecting''), (''api'', api_disabled)]))
        (run_rounds fuel (on_machine (ho_is_set H)) (on_runtime False (run_once H))
           (Some (service_ready H cfg S))
           (if ss_api_enabled cfg then Some (observe_api H cfg S) else None)))))))))))"

section \<open>The end of the service\<close>

definition service_failed :: "'w host \<Rightarrow> exn \<Rightarrow> ('w service, unit) prog" where
  "service_failed H e =
     sq (note_failure e)
    (sq (noting (on_runtime () (report_fault H))) (noting (on_runtime () (handle_failure H))))"

definition stop_api ::
  "'w host \<Rightarrow> service_settings \<Rightarrow> 'w service_calls \<Rightarrow> ('w service, unit) prog" where
  "stop_api H cfg S =
     with_self (\<lambda>s.
       if \<not> hs_api_made s then skip
       else
         sq (bnd (try_except (\<lambda>_. True)
                    (bnd (on_machine (sc_api_stop S)) (\<lambda>raised.
                       ret (map_option (apfst Some) raised)))
                    (\<lambda>e. ret (Some (None, e))))
               (\<lambda>caught. case caught of
                  None \<Rightarrow> skip
                | Some (i, e) \<Rightarrow>
                    bnd (on_machine (sc_api_snapshot S)) (\<lambda>(state, _).
                      retain_api_failure H cfg i e state)))
            (observe_api H cfg S))"

definition secure_relay :: "'w host \<Rightarrow> ('w service, unit) prog" where
  "secure_relay H =
     sq (noting (on_runtime () (runtime_shutdown H)))
        (with_self (\<lambda>s.
           if hs_relay_made s then noting (on_machine (p_relay_cleanup (ho_ports H))) else skip))"

definition service_finally ::
  "'w host \<Rightarrow> service_settings \<Rightarrow> 'w service_calls \<Rightarrow> ('w service, unit) prog" where
  "service_finally H cfg S =
     sq (secure_relay H)
    (sq (stop_api H cfg S)
        (with_self (\<lambda>s.
           if hs_audit_open s then noting (on_machine (sc_close_audit S)) else skip)))"

definition service_result :: "('w service, int option) prog" where
  "service_result =
     with_self (\<lambda>s. case hs_failures s of
         [] \<Rightarrow> ret (Some 0)
       | [e] \<Rightarrow> throw e
       | es \<Rightarrow> throw (ExceptionGroup ''hardware service failed'' es))"

definition new_service :: "service_settings \<Rightarrow> 'w \<Rightarrow> 'w service" where
  "new_service cfg w =
     \<lparr>hs_machine = Inl w, hs_audit_open = False, hs_relay_made = False, hs_api_made = False,
      hs_failures = [], hs_observed = [],
      hs_api_state = (if ss_api_enabled cfg then ApiNew else ApiStopped)\<rparr>"

text \<open>
  \<open>run_hardware_service\<close> once the configuration is loaded: \<open>Some 0\<close> is its return value, and
  \<open>None\<close> stands for a loop that is still running when the fuel is used up.
\<close>

definition run_hardware_service ::
  "nat \<Rightarrow> 'w host \<Rightarrow> service_settings \<Rightarrow> 'w service_calls \<Rightarrow> bool \<Rightarrow> ('w service, int option) prog" where
  "run_hardware_service fuel H cfg S install_signals =
     (if ss_relay_backend cfg \<noteq> ''raspberry_pi''
      then throw (ValueError ''hardware service requires relay.backend = raspberry_pi'')
      else
        bnd (on_machine (p_now (ho_ports H))) (\<lambda>started.
        bnd (try_except (\<lambda>_. True)
               (service_body fuel H cfg S install_signals started)
               (\<lambda>e. sq (service_failed H e) (ret True)))
            (\<lambda>ended. if \<not> ended then ret None
                     else sq (service_finally H cfg S) service_result)))"

end
