(* ===== verification/Reader_Outage.thy ===== *)
theory Reader_Outage
  imports Reader_Supervisor
begin

text \<open>
  Properties of the reader supervisor: what its operations return and leave behind under any
  callbacks, and what it reports, event by event, during an outage of the reader. The outage is
  played against a scripted reader: the devices that are attached, what opening a path answers,
  the reads to come, and the events emitted so far.
\<close>

section \<open>A scripted reader\<close>

record reader_script =
  rw_devices :: "serial_device list"
  rw_open :: "string \<Rightarrow> exn + opened"
  rw_reads :: "(exn + byte list) list"
  rw_events :: "reader_event list"

definition script_open :: "string \<Rightarrow> (reader_script, opened) prog" where
  "script_open path w = (rw_open w path, w)"

definition script_read :: "nat \<Rightarrow> (reader_script, byte list) prog" where
  "script_read h w =
     (case rw_reads w of [] \<Rightarrow> (Inr [], w) | r # rs \<Rightarrow> (r, w\<lparr>rw_reads := rs\<rparr>))"

definition script_emit :: "reader_event \<Rightarrow> (reader_script, unit) prog" where
  "script_emit ev = modify (\<lambda>w. w\<lparr>rw_events := rw_events w @ [ev]\<rparr>)"

text \<open>The jitter source is the default one, and nothing interrupts the waits.\<close>

definition script_calls :: "reader_script reader_calls" where
  "script_calls =
     \<lparr>rc_enumerate = gets rw_devices, rc_open = script_open, rc_read = script_read,
      rc_close = (\<lambda>_. skip), rc_random = ret (1 / 2), rc_monotonic = None,
      rc_emit = (\<lambda>ev. world (script_emit ev)), rc_wait = (\<lambda>_. ret True)\<rparr>"

interpretation script: reader_callbacks script_calls
  by unfold_locales (simp_all add: script_calls_def around_world around_ret)

definition sample_identity :: reader_identity where
  "sample_identity =
     \<lparr>ri_by_id_path = None, ri_vid = Some 6790, ri_pid = Some 29987, ri_serial_number = None,
      ri_manufacturer = None, ri_product = None\<rparr>"

definition sample_device :: serial_device where
  "sample_device =
     \<lparr>sd_path = ''/dev/ttyUSB0'', sd_by_id_path = None, sd_vid = Some 6790, sd_pid = Some 29987,
      sd_serial_number = None, sd_manufacturer = None, sd_product = None\<rparr>"

definition sample_script :: "serial_device list \<Rightarrow> (exn + byte list) list \<Rightarrow> reader_script" where
  "sample_script ds rs =
     \<lparr>rw_devices = ds, rw_open = (\<lambda>_. Inr (UsableSession 7)), rw_reads = rs, rw_events = []\<rparr>"

definition sample_supervisor :: "nat option \<Rightarrow> reader_script \<Rightarrow> reader_script supervisor" where
  "sample_supervisor session w =
     \<lparr>sv_identity = sample_identity, sv_backoff = default_backoff, sv_threshold = 3,
      sv_session = session, sv_attempt = 0, sv_had_connection = (session \<noteq> None),
      sv_repeated_emitted = False, sv_last_record_at = None,
      sv_health_state = (if session = None then HealthDegraded else HealthReady), sv_env = w\<rparr>"

section \<open>Under any callbacks\<close>

text \<open>
  C35. A call of \<open>connect_until_ready\<close> that returns tells the truth: \<open>True\<close> with an open session,
  health ready and the counters reset, \<open>False\<close> without a session and with health degraded.
\<close>

theorem connect_tells_the_truth:
  assumes "reader_callbacks C" and "\<not> connected s" and "0 < n"
    and "connect_until_ready C n s = (Inr b, t)"
  shows "if b then connected t \<and> sv_health_state t = HealthReady \<and> sv_attempt t = 0 \<and>
             sv_had_connection t \<and> \<not> sv_repeated_emitted t
         else \<not> connected t \<and> sv_health_state t = HealthDegraded"
  using reader_callbacks.connect_outcome [OF assms]
  by (cases b) (simp_all add: connect_view_def connection_views)

lemma run_returns: "result p = Inr x \<Longrightarrow> p = (Inr x, final p)"
  by (cases p) simp

lemma connect_tells_the_truth_witness:
  "if True then connected (final (connect_until_ready script_calls 2
       (sample_supervisor None (sample_script [sample_device] [])))) \<and>
     sv_health_state (final (connect_until_ready script_calls 2
       (sample_supervisor None (sample_script [sample_device] [])))) = HealthReady \<and>
     sv_attempt (final (connect_until_ready script_calls 2
       (sample_supervisor None (sample_script [sample_device] [])))) = 0 \<and>
     sv_had_connection (final (connect_until_ready script_calls 2
       (sample_supervisor None (sample_script [sample_device] [])))) \<and>
     \<not> sv_repeated_emitted (final (connect_until_ready script_calls 2
       (sample_supervisor None (sample_script [sample_device] []))))
   else \<not> connected (final (connect_until_ready script_calls 2
       (sample_supervisor None (sample_script [sample_device] [])))) \<and>
     sv_health_state (final (connect_until_ready script_calls 2
       (sample_supervisor None (sample_script [sample_device] [])))) = HealthDegraded"
proof (rule connect_tells_the_truth [OF script.reader_callbacks_axioms])
  show "connect_until_ready script_calls 2 (sample_supervisor None (sample_script [sample_device] []))
    = (Inr True, final (connect_until_ready script_calls 2
        (sample_supervisor None (sample_script [sample_device] []))))"
    by (rule run_returns) code_simp
qed (simp_all add: sample_supervisor_def connected_def)

text \<open>
  Between calls the health is ready exactly while a session is open: every operation that
  returns keeps this, under any callbacks, when \<open>connect_until_ready\<close> is only called without a
  session.
\<close>

theorem reader_health_follows_session:
  assumes "reader_callbacks C" and "settled s"
    and "\<And>n. op' = ConnectUntilReady n \<Longrightarrow> \<not> connected s"
    and "operate C op' s = (Inr u, t)"
  shows "sv_health_state t = HealthReady \<longleftrightarrow> connected t"
  using reader_callbacks.operate_settled [OF assms] by (simp add: settled_def)

lemma reader_health_follows_session_witness:
  "sv_health_state (final (operate script_calls ReadOnce
       (sample_supervisor (Some 7) (sample_script [] [Inl (OSError [])])))) = HealthReady \<longleftrightarrow>
   connected (final (operate script_calls ReadOnce
       (sample_supervisor (Some 7) (sample_script [] [Inl (OSError [])]))))"
proof (rule reader_health_follows_session [OF script.reader_callbacks_axioms])
  show "operate script_calls ReadOnce (sample_supervisor (Some 7) (sample_script [] [Inl (OSError [])]))
    = (Inr (), final (operate script_calls ReadOnce
        (sample_supervisor (Some 7) (sample_script [] [Inl (OSError [])]))))"
    by (rule run_returns) code_simp
qed (simp_all add: sample_supervisor_def settled_def connected_def)

text \<open>
  C36. Reading: when \<open>read_once\<close> returns, it returns the very bytes the session read, with the
  session still open, or nothing, after the session's \<open>read\<close> failed with an \<open>OSError\<close>, and then
  the session is gone and the health degraded. Passive silence never closes the session.
\<close>

theorem read_once_answers:
  assumes "reader_callbacks C" and "sv_session s = Some h"
    and "rc_read C h (sv_env s) = (r, w)" and "read_once C s = (Inr answer, t)"
  shows "(\<exists>data. r = Inr data \<and> answer = Some data \<and> sv_session t = Some h) \<or>
    (\<exists>e. r = Inl e \<and> is_os_error e \<and> answer = None \<and> \<not> connected t \<and>
       sv_health_state t = HealthDegraded)"
  using reader_callbacks.read_answers [OF assms] by (simp add: still_down_def)

lemma read_once_answers_witness:
  "(\<exists>data. Inr [] = (Inr data :: exn + byte list) \<and> Some [] = Some data \<and>
      sv_session (final (read_once script_calls (sample_supervisor (Some 7) (sample_script [] [])))) = Some 7) \<or>
   (\<exists>e. Inr [] = (Inl e :: exn + byte list) \<and> is_os_error e \<and> Some [] = (None :: byte list option) \<and>
      \<not> connected (final (read_once script_calls (sample_supervisor (Some 7) (sample_script [] [])))) \<and>
      sv_health_state (final (read_once script_calls
        (sample_supervisor (Some 7) (sample_script [] [])))) = HealthDegraded)"
proof (rule read_once_answers [OF script.reader_callbacks_axioms])
  show "sv_session (sample_supervisor (Some 7) (sample_script [] [])) = Some 7"
    by (simp add: sample_supervisor_def)
  show "rc_read script_calls 7 (sv_env (sample_supervisor (Some 7) (sample_script [] []))) =
      (Inr [], sample_script [] [])"
    by (simp add: sample_supervisor_def script_calls_def script_read_def sample_script_def)
  show "read_once script_calls (sample_supervisor (Some 7) (sample_script [] [])) =
      (Inr (Some []), final (read_once script_calls (sample_supervisor (Some 7) (sample_script [] []))))"
    by (rule run_returns) code_simp
qed

section \<open>An outage, event by event\<close>

text \<open>How a round fails while the scripted reader stays as it is; \<open>None\<close> when it would connect.\<close>

definition round_failure :: "reader_identity \<Rightarrow> reader_script \<Rightarrow> reader_event_type option" where
  "round_failure i w =
     (let d = discover_reader (rw_devices w) i
      in case dr_status d of
           NOT_FOUND \<Rightarrow> Some NotFound
         | AMBIGUOUS \<Rightarrow> Some IdentityAmbiguous
         | FOUND \<Rightarrow>
             (case dr_device d of
                None \<Rightarrow> None
              | Some device \<Rightarrow>
                  (case rw_open w (sd_path device) of
                     Inl e \<Rightarrow> if is_os_error e then Some OpenFailed else None
                   | Inr UnusableSession \<Rightarrow> Some OpenFailed
                   | Inr (UsableSession h) \<Rightarrow> None)))"

text \<open>The delay announced in round \<open>n\<close>.\<close>

definition round_delay :: "backoff_policy \<Rightarrow> int \<Rightarrow> seconds" where
  "round_delay p n = (case backoff_delay p n (1 / 2) of Inl _ \<Rightarrow> 0 | Inr d \<Rightarrow> d)"

text \<open>
  What a failed round reports: \<open>rep\<close> says whether the repeated failure is announced in it.
\<close>

definition round_report ::
  "backoff_policy \<Rightarrow> reader_event_type \<Rightarrow> int \<Rightarrow> bool \<Rightarrow> int \<Rightarrow> reader_event list" where
  "round_report p failure unrelated rep n =
     [event_at Connecting n, (event_at failure n)\<lparr>re_unrelated_count := unrelated\<rparr>] @
     (if rep then [event_at ReconnectRepeatedlyFailed n] else []) @
     [(event_at ReconnectScheduled n)\<lparr>re_backoff_seconds := Some (round_delay p n)\<rparr>]"

definition unrelated_now :: "'e supervisor \<Rightarrow> reader_script \<Rightarrow> int" where
  "unrelated_now s w = dr_unrelated_count (discover_reader (rw_devices w) (sv_identity s))"

definition after_round :: "reader_event_type \<Rightarrow> reader_script supervisor \<Rightarrow> reader_script supervisor" where
  "after_round f s =
     (let n = sv_attempt s + 1; rep = (sv_threshold s \<le> n \<and> \<not> sv_repeated_emitted s)
      in s\<lparr>sv_attempt := n, sv_health_state := HealthDegraded,
           sv_repeated_emitted := (sv_repeated_emitted s \<or> sv_threshold s \<le> n),
           sv_env := (sv_env s)\<lparr>rw_events := rw_events (sv_env s) @
             round_report (sv_backoff s) f (unrelated_now s (sv_env s)) rep n\<rparr>\<rparr>)"

lemmas script_run =
  attempt_connection_def connection_failed_def emit_attempt_def script_calls_def script_emit_def
  script_open_def open_session_def world_def event_at_def prog_simps Let_def

lemma connection_failed_script:
  assumes "sv_attempt s \<le> 1024"
  shows "connection_failed script_calls f unrelated s =
    (Inr None, s\<lparr>sv_health_state := HealthDegraded,
       sv_repeated_emitted := (sv_repeated_emitted s \<or> sv_threshold s \<le> sv_attempt s),
       sv_env := (sv_env s)\<lparr>rw_events := rw_events (sv_env s) @
         tl (round_report (sv_backoff s) f unrelated
           (sv_threshold s \<le> sv_attempt s \<and> \<not> sv_repeated_emitted s) (sv_attempt s))\<rparr>\<rparr>)"
proof -
  obtain d where d: "backoff_delay (sv_backoff s) (sv_attempt s) (1 / 2) = Inr d"
    using assms backoff_delay_Inl by (cases "backoff_delay (sv_backoff s) (sv_attempt s) (1 / 2)") force+
  show ?thesis
    using d by (cases s) (auto simp: script_run connection_failed_def round_report_def round_delay_def)
qed

lemma script_projections:
  "rc_enumerate script_calls = gets rw_devices" "rc_open script_calls = script_open"
  "rc_emit script_calls ev = world (script_emit ev)"
  by (simp_all add: script_calls_def)

lemma connect_discovered_script:
  assumes "round_failure (sv_identity s) (sv_env s) = Some f"
  shows "connect_discovered script_calls (discover_reader (rw_devices (sv_env s)) (sv_identity s)) s =
    connection_failed script_calls f (unrelated_now s (sv_env s)) s"
proof -
  define r where "r = discover_reader (rw_devices (sv_env s)) (sv_identity s)"
  show ?thesis
  proof (cases "dr_status r")
    case FOUND
    then obtain d where d: "dr_device r = Some d"
      using discover_reader_device [of "rw_devices (sv_env s)" "sv_identity s"] by (auto simp: r_def)
    have "open_session script_calls d s = (Inr False, s) \<and> f = OpenFailed"
      using assms FOUND d
      by (auto simp: round_failure_def r_def [symmetric] open_session_def script_projections
          script_open_def world_def prog_simps Let_def split: sum.splits opened.splits if_splits)
    then show ?thesis
      using FOUND d by (simp add: connect_discovered_def bnd_def unrelated_now_def r_def [symmetric] Let_def)
  qed (use assms in \<open>auto simp: round_failure_def connect_discovered_def unrelated_now_def
      r_def [symmetric] Let_def\<close>)
qed

lemma round_failure_events [simp]: "round_failure i (w\<lparr>rw_events := evs\<rparr>) = round_failure i w"
  by (simp add: round_failure_def cong: discovery_status.case_cong option.case_cong sum.case_cong)

definition round_started :: "reader_script supervisor \<Rightarrow> reader_script supervisor" where
  "round_started s =
     s\<lparr>sv_attempt := sv_attempt s + 1, sv_health_state := HealthConnecting,
       sv_env := (sv_env s)\<lparr>rw_events := rw_events (sv_env s) @
         [event_at Connecting (sv_attempt s + 1)]\<rparr>\<rparr>"

lemma round_failed_script:
  assumes "round_failure (sv_identity s) (sv_env s) = Some f"
  shows "attempt_connection script_calls s =
    connection_failed script_calls f (unrelated_now s (sv_env s)) (round_started s)"
proof -
  let ?u = "round_started s"
  have u: "unrelated_now ?u (sv_env ?u) = unrelated_now s (sv_env s)"
    by (simp add: round_started_def unrelated_now_def)
  have "attempt_connection script_calls s =
      connect_discovered script_calls (discover_reader (rw_devices (sv_env ?u)) (sv_identity ?u)) ?u"
    by (simp add: attempt_connection_def emit_attempt_def script_projections script_emit_def world_def
        event_at_def prog_simps round_started_def)
  also have "\<dots> = connection_failed script_calls f (unrelated_now s (sv_env s)) ?u"
  proof -
    have "round_failure (sv_identity ?u) (sv_env ?u) = Some f"
      using assms by (simp add: round_started_def)
    from connect_discovered_script [OF this] show ?thesis by (simp only: u)
  qed
  finally show ?thesis .
qed

lemma attempt_script:
  assumes "round_failure (sv_identity s) (sv_env s) = Some f" and "sv_attempt s < 1024"
  shows "attempt_connection script_calls s = (Inr None, after_round f s)"
proof -
  have "sv_attempt (round_started s) \<le> 1024" using assms(2) by (simp add: round_started_def)
  then show ?thesis
    by (simp add: round_failed_script [OF assms(1)] connection_failed_script)
      (simp add: round_started_def after_round_def round_report_def Let_def)
qed

text \<open>From the 1025th round on the delay cannot be computed: the round ends before announcing it.\<close>

lemma attempt_script_overflow:
  assumes "round_failure (sv_identity s) (sv_env s) = Some f" and "1024 \<le> sv_attempt s"
  shows "\<exists>t. attempt_connection script_calls s =
      (Inl (OtherError ''int too large to convert to float''), t) \<and>
    sv_session t = sv_session s \<and> sv_health_state t = HealthDegraded \<and>
    rw_events (sv_env t) = rw_events (sv_env s) @
      butlast (round_report (sv_backoff s) f (unrelated_now s (sv_env s))
        (sv_threshold s \<le> sv_attempt s + 1 \<and> \<not> sv_repeated_emitted s) (sv_attempt s + 1))"
proof -
  have "1024 \<le> nat (sv_attempt s)" using assms(2) by linarith
  then have "backoff_delay (sv_backoff s) (sv_attempt s + 1) (1 / 2) =
      Inl (OtherError ''int too large to convert to float'')"
    by (simp add: backoff_delay_def backoff_base_def max_def)
  then show ?thesis
    by (simp add: round_failed_script [OF assms(1)])
      (simp add: round_started_def script_run round_report_def)
qed

lemma after_round_simps [simp]:
  "sv_identity (after_round f s) = sv_identity s" "sv_backoff (after_round f s) = sv_backoff s"
  "sv_threshold (after_round f s) = sv_threshold s" "sv_session (after_round f s) = sv_session s"
  "sv_attempt (after_round f s) = sv_attempt s + 1"
  "sv_health_state (after_round f s) = HealthDegraded"
  "round_failure i (sv_env (after_round f s)) = round_failure i (sv_env s)"
  "unrelated_now (after_round f s) (sv_env (after_round f s)) = unrelated_now s (sv_env s)"
  by (simp_all add: after_round_def Let_def unrelated_now_def)

lemma rounds_script:
  assumes "round_failure (sv_identity s) (sv_env s) = Some f" and "sv_attempt s + int k \<le> 1024"
  shows "connect_rounds script_calls (k + m) s = connect_rounds script_calls m ((after_round f ^^ k) s)"
  using assms
proof (induction k arbitrary: s)
  case (Suc k)
  have "attempt_connection script_calls s = (Inr None, after_round f s)"
    by (rule attempt_script) (use Suc.prems in auto)
  then have "connect_rounds script_calls (Suc k + m) s =
      connect_rounds script_calls (k + m) (after_round f s)"
    by (simp add: bnd_def)
  also have "\<dots> = connect_rounds script_calls m ((after_round f ^^ k) (after_round f s))"
    by (rule Suc.IH) (use Suc.prems in simp_all)
  finally show ?case by (simp add: funpow_swap1)
qed simp

text \<open>The report of an outage of \<open>k\<close> rounds.\<close>

definition outage_report ::
  "backoff_policy \<Rightarrow> int \<Rightarrow> reader_event_type \<Rightarrow> int \<Rightarrow> nat \<Rightarrow> reader_event list" where
  "outage_report p threshold f unrelated k =
     concat (map (\<lambda>i. round_report p f unrelated (int i = threshold) (int i)) [1..<Suc k])"

definition fresh :: "'e supervisor \<Rightarrow> bool" where
  "fresh s \<longleftrightarrow> \<not> connected s \<and> sv_attempt s = 0 \<and> \<not> sv_repeated_emitted s \<and> 0 < sv_threshold s"

lemma outage_state:
  assumes "fresh s" and "(after_round f ^^ k) s = t"
  shows "sv_identity t = sv_identity s \<and> sv_backoff t = sv_backoff s \<and>
    sv_threshold t = sv_threshold s \<and> sv_session t = None \<and> sv_attempt t = int k \<and>
    sv_repeated_emitted t = (sv_threshold s \<le> int k) \<and>
    (0 < k \<longrightarrow> sv_health_state t = HealthDegraded) \<and>
    round_failure i (sv_env t) = round_failure i (sv_env s) \<and>
    unrelated_now t (sv_env t) = unrelated_now s (sv_env s) \<and>
    rw_events (sv_env t) = rw_events (sv_env s) @
      outage_report (sv_backoff s) (sv_threshold s) f (unrelated_now s (sv_env s)) k"
  using assms(2)
proof (induction k arbitrary: t)
  case 0
  then show ?case using assms(1) by (auto simp: fresh_def connected_def outage_report_def)
next
  case (Suc k)
  define u where "u = (after_round f ^^ k) s"
  have t: "t = after_round f u" using Suc.prems by (simp add: u_def)
  have IH: "sv_threshold u = sv_threshold s" "sv_attempt u = int k" "sv_backoff u = sv_backoff s"
    "sv_repeated_emitted u = (sv_threshold s \<le> int k)"
    "unrelated_now u (sv_env u) = unrelated_now s (sv_env s)"
    "rw_events (sv_env u) = rw_events (sv_env s) @
      outage_report (sv_backoff s) (sv_threshold s) f (unrelated_now s (sv_env s)) k"
    using Suc.IH [OF u_def [symmetric]] by simp_all
  have "sv_repeated_emitted t = (sv_threshold s \<le> int (Suc k))"
    using IH by (auto simp: t after_round_def Let_def)
  moreover have "(sv_threshold s \<le> int k + 1 \<and> \<not> sv_threshold s \<le> int k) = (int k + 1 = sv_threshold s)"
    by auto
  then have "rw_events (sv_env t) = rw_events (sv_env s) @
      outage_report (sv_backoff s) (sv_threshold s) f (unrelated_now s (sv_env s)) (Suc k)"
    using IH by (simp add: t after_round_def Let_def outage_report_def add.commute)
  ultimately show ?case
    using Suc.IH [OF u_def [symmetric]] by (simp add: t)
qed

text \<open>The error that ends an outage of more than 1024 rounds.\<close>

abbreviation delay_overflow :: exn where
  "delay_overflow \<equiv> OtherError ''int too large to convert to float''"

lemma short_outage:
  assumes "fresh s" and "round_failure (sv_identity s) (sv_env s) = Some f"
    and "0 < n" and "n \<le> 1024"
  shows "\<exists>t. connect_until_ready script_calls n s = (Inr False, t) \<and> \<not> connected t \<and>
    sv_attempt t = n \<and> sv_health_state t = HealthDegraded \<and>
    rw_events (sv_env t) = rw_events (sv_env s) @
      outage_report (sv_backoff s) (sv_threshold s) f (unrelated_now s (sv_env s)) (nat n)"
proof -
  define t where "t = (after_round f ^^ nat n) s"
  have "connect_rounds script_calls (nat n + 0) s = connect_rounds script_calls 0 t"
    unfolding t_def by (rule rounds_script [OF assms(2)]) (use assms in \<open>simp add: fresh_def\<close>)
  then have "connect_until_ready script_calls n s = (Inr False, t)"
    by (simp add: connect_until_ready_def ret_def)
  then show ?thesis
    using outage_state [OF assms(1) t_def [symmetric]] assms(3) by (simp add: connected_def)
qed

lemma long_outage:
  assumes "fresh s" and "round_failure (sv_identity s) (sv_env s) = Some f" and "1025 \<le> n"
  shows "\<exists>t. connect_until_ready script_calls n s = (Inl delay_overflow, t) \<and> \<not> connected t \<and>
    sv_health_state t = HealthDegraded \<and>
    rw_events (sv_env t) = rw_events (sv_env s) @
      outage_report (sv_backoff s) (sv_threshold s) f (unrelated_now s (sv_env s)) 1024 @
      butlast (round_report (sv_backoff s) f (unrelated_now s (sv_env s)) (sv_threshold s = 1025) 1025)"
proof -
  define t where "t = (after_round f ^^ 1024) s"
  define m where "m = nat n - 1025"
  have m: "nat n = 1024 + Suc m" using assms(3) by (simp add: m_def)
  have rounds: "connect_rounds script_calls (1024 + Suc m) s = connect_rounds script_calls (Suc m) t"
    unfolding t_def by (rule rounds_script [OF assms(2)]) (use assms(1) in \<open>simp add: fresh_def\<close>)
  note t = outage_state [OF assms(1) t_def [symmetric]]
  have "round_failure (sv_identity t) (sv_env t) = Some f" "1024 \<le> sv_attempt t"
    using t assms(2) by simp_all
  from attempt_script_overflow [OF this] obtain u where
    u: "attempt_connection script_calls t = (Inl delay_overflow, u)"
      "sv_session u = None" "sv_health_state u = HealthDegraded"
      "rw_events (sv_env u) = rw_events (sv_env t) @
        butlast (round_report (sv_backoff t) f (unrelated_now t (sv_env t))
          (sv_threshold t \<le> 1025 \<and> \<not> sv_repeated_emitted t) 1025)"
    using t by auto
  have last: "(sv_threshold s \<le> 1025 \<and> \<not> sv_threshold s \<le> 1024) = (sv_threshold s = 1025)"
    by auto
  have "connect_until_ready script_calls n s = (Inl delay_overflow, u)"
    using u(1) rounds by (simp add: connect_until_ready_def m bnd_def del: add_Suc_right)
  then show ?thesis
    using u(2-4) t unfolding connected_def by (simp only: last [symmetric]) simp
qed

text \<open>
  C37. An outage, event by event, for the scripted reader. While the reader stays absent,
  ambiguous or closed and nothing interrupts the waits, \<open>n\<close> rounds with \<open>n \<le> 1024\<close> return
  \<open>False\<close> and report, in order: for each round \<open>i\<close> connecting, the failure with the number of
  unrelated devices, the repeated failure exactly in the round that reaches the threshold, and
  the delay of the backoff policy for that round. A longer outage reports the same 1024 rounds
  and then raises in the next one, where it should announce the delay: the exponential backoff
  has left the range of a float.
\<close>

theorem outage_is_reported:
  assumes "fresh s" and "round_failure (sv_identity s) (sv_env s) = Some f" and "0 < n"
  shows "\<exists>t. connect_until_ready script_calls n s =
      ((if n \<le> 1024 then Inr False else Inl (OtherError ''int too large to convert to float'')), t) \<and>
    \<not> connected t \<and> sv_health_state t = HealthDegraded \<and>
    rw_events (sv_env t) = rw_events (sv_env s) @
      outage_report (sv_backoff s) (sv_threshold s) f (unrelated_now s (sv_env s)) (nat (min n 1024)) @
      (if n \<le> 1024 then []
       else butlast (round_report (sv_backoff s) f (unrelated_now s (sv_env s)) (sv_threshold s = 1025) 1025))"
proof (cases "n \<le> 1024")
  case True
  with short_outage [OF assms] show ?thesis by (auto simp: min_def)
next
  case False
  with long_outage [OF assms(1,2), of n] show ?thesis by (auto simp: min_def)
qed

lemma outage_is_reported_witness:
  "\<exists>t. connect_until_ready script_calls 4 (sample_supervisor None (sample_script [] [])) =
      ((if (4 :: int) \<le> 1024 then Inr False else Inl (OtherError ''int too large to convert to float'')), t) \<and>
    \<not> connected t \<and> sv_health_state t = HealthDegraded \<and>
    rw_events (sv_env t) = rw_events (sv_env (sample_supervisor None (sample_script [] []))) @
      outage_report (sv_backoff (sample_supervisor None (sample_script [] [])))
        (sv_threshold (sample_supervisor None (sample_script [] []))) NotFound
        (unrelated_now (sample_supervisor None (sample_script [] []))
          (sv_env (sample_supervisor None (sample_script [] [])))) (nat (min 4 1024)) @
      (if (4 :: int) \<le> 1024 then []
       else butlast (round_report (sv_backoff (sample_supervisor None (sample_script [] []))) NotFound
         (unrelated_now (sample_supervisor None (sample_script [] []))
           (sv_env (sample_supervisor None (sample_script [] []))))
         (sv_threshold (sample_supervisor None (sample_script [] [])) = 1025) 1025))"
  by (rule outage_is_reported) (code_simp | simp add: sample_supervisor_def fresh_def connected_def)+

text \<open>
  The 1025th round of an outage raises: whatever the configured bounds are, the exponential
  backoff leaves the range of a float, and \<open>connect_until_ready\<close> fails with an \<open>OverflowError\<close>
  instead of waiting again.
\<close>

theorem long_outage_raises:
  assumes "fresh s" and "round_failure (sv_identity s) (sv_env s) = Some f" and "1025 \<le> n"
  shows "result (connect_until_ready script_calls n s) =
    Inl (OtherError ''int too large to convert to float'')"
  using long_outage [OF assms] by auto

lemma long_outage_raises_witness:
  "result (connect_until_ready script_calls 1025 (sample_supervisor None (sample_script [] []))) =
    Inl (OtherError ''int too large to convert to float'')"
  by (rule long_outage_raises) (code_simp | simp add: sample_supervisor_def fresh_def connected_def)+

end
