(* ===== verification/Runtime_Properties.thy ===== *)
theory Runtime_Properties
  imports Runtime_Hardware Reader_Outage
begin

text \<open>
  The properties of the runtime: over the hardware host for every driver and every peripherals
  that obey \<open>hardware\<close>, and the order and completeness of its shutdown over any host.
\<close>

section \<open>A sample host\<close>

definition sample_frame :: "byte list" where
  "sample_frame = (case build_record ''0102030405'' of Inl _ \<Rightarrow> [] | Inr frame \<Rightarrow> frame)"

definition sample_peripherals :: "recording_gpio peripherals" where
  "sample_peripherals =
     \<lparr>pe_report = (\<lambda>_ _. skip), pe_enumerate = ret [sample_device],
      pe_open = (\<lambda>_. ret (UsableSession 7)), pe_read = (\<lambda>_. ret sample_frame), pe_close = (\<lambda>_. skip),
      pe_random = ret (1 / 2), pe_is_set = ret False, pe_set_stop = skip,
      pe_stop_wait = (\<lambda>_. ret False)\<rparr>"

interpretation recording_hardware: hardware recording_driver rg_pin sample_peripherals
  by unfold_locales (simp_all add: sample_peripherals_def preserves_rules)

abbreviation sample_host :: "recording_gpio hw_world host" where
  "sample_host \<equiv> hw_host recording_driver sample_peripherals decimal 10"

text \<open>A runtime whose reader is connected.\<close>

definition sample_runtime :: "recording_gpio hw_world runtime" where
  "sample_runtime =
     \<lparr>sv_identity = sample_identity, sv_backoff = default_backoff, sv_threshold = 3,
      sv_session = Some 7, sv_attempt = 0, sv_had_connection = True, sv_repeated_emitted = False,
      sv_last_record_at = None, sv_health_state = HealthReady,
      sv_env = \<lparr>rr_controller = hw_ready, rr_stream = new_stream 64, rr_published = None,
                rr_shutdown_complete = False\<rparr>\<rparr>"

section \<open>The door over the whole runtime\<close>

text \<open>What may change outside the runtime between its calls: not the relay, not the audit.\<close>

definition hw_outside :: "('g \<Rightarrow> bool) \<Rightarrow> 'g hw_world \<Rightarrow> 'g hw_world \<Rightarrow> bool" where
  "hw_outside pin w w' \<longleftrightarrow>
     rp_channel (hw_relay w') = rp_channel (hw_relay w) \<and>
     pin (rp_gpio (hw_relay w')) = pin (rp_gpio (hw_relay w)) \<and> hw_audit w' = hw_audit w"

definition rt_pin :: "('g \<Rightarrow> bool) \<Rightarrow> 'g hw_world runtime \<Rightarrow> bool" where
  "rt_pin pin s = pin (rp_gpio (hw_relay (world_of s)))"

definition rt_rows :: "'g hw_world runtime \<Rightarrow> audit_row list" where
  "rt_rows s = sq_rows (hw_audit (world_of s))"

context hardware begin

lemma outside_quiet:
  "hw_outside pin w w' \<Longrightarrow> quiet_step (\<lambda>w. rpi_ok (hw_relay w)) (\<lambda>w. pin (rp_gpio (hw_relay w)))
     (\<lambda>w. sq_rows (hw_audit w)) w w'"
  by (auto simp: hw_outside_def quiet_step_def rpi_ok_def)

lemma runtime_unlock_audited:
  assumes "(runtime_step (hw_host D E U fuel) (hw_outside pin))\<^sup>*\<^sup>* s t"
    and "rpi_ok (hw_relay (world_of s))" and "\<not> rt_pin pin s"
  shows "\<exists>new. rt_rows t = rt_rows s @ new \<and>
    (rt_pin pin t \<longrightarrow> (\<exists>ev. event_ok ev \<and> ev_event_type ev = CREDENTIAL_AUTHORIZED \<and>
       row_of_event ev \<in> set new))"
proof -
  have "rt.guarded (rt_rows s) (world_of s)"
    using rt.guarded_low [of "world_of s"] assms(2,3) by (simp add: rt_rows_def rt_pin_def)
  then have "rt.guarded (rt_rows s) (world_of t)"
    using runtime_reachable [OF rt.host_keeps_guarded [of U fuel] _ assms(1)]
      rt.guarded_quiet outside_quiet by blast
  then show ?thesis by (simp add: rt.guarded_def rt_rows_def rt_pin_def)
qed

lemma runtime_rows_property:
  assumes "(runtime_step (hw_host D E U fuel) (hw_outside pin))\<^sup>*\<^sup>* s t" and "Q (rt_rows s)"
    and append: "\<And>ev. public_event (range U) ev \<Longrightarrow> keeps (\<lambda>db. Q (sq_rows db)) (sqlite_append ev)"
  shows "Q (rt_rows t)"
proof -
  have "host_keeps (hw_host D E U fuel) (\<lambda>w. Q (sq_rows (hw_audit w)))"
  proof (rule rt.host_keeps_trail)
    fix ev assume "public_event (drawn_ids (ho_ports (hw_host D E U fuel))) ev"
    then have "public_event (range U) ev"
      using public_event_mono hw_drawn_ids unfolding hw_host_ports by blast
    then show "keeps (\<lambda>w. Q (sq_rows (hw_audit w))) (p_audit_append (ho_ports (hw_host D E U fuel)) ev)"
      unfolding hw_host_ports by (simp add: hw_ports_def keeps_zoom [OF _ append])
  qed
  moreover have "Q (sq_rows (hw_audit w'))"
    if "Q (sq_rows (hw_audit w))" "hw_outside pin w w'" for w w' :: "'g hw_world"
    using that by (simp add: hw_outside_def)
  ultimately show ?thesis
    using runtime_reachable [OF _ _ assms(1), of "\<lambda>w. Q (sq_rows (hw_audit w))"] assms(2)
    by (simp add: rt_rows_def)
qed

lemma runtime_rows_private:
  assumes "(runtime_step (hw_host D E U fuel) (hw_outside pin))\<^sup>*\<^sup>* s t"
    and "\<forall>row\<in>set (rt_rows s). Q row" and "\<And>ev. public_event (range U) ev \<Longrightarrow> Q (row_of_event ev)"
  shows "\<forall>row\<in>set (rt_rows t). Q row"
  by (rule runtime_rows_property [where Q = "\<lambda>rows. \<forall>row\<in>set rows. Q row", OF assms(1,2)])
    (rule sqlite_port.append_keeps_all, rule assms(3))

text \<open>The primary key of the database.\<close>

lemma runtime_rows_distinct:
  assumes "(runtime_step (hw_host D E U fuel) (hw_outside pin))\<^sup>*\<^sup>* s t"
    and "distinct (map row_event_id (rt_rows s))"
  shows "distinct (map row_event_id (rt_rows t))"
  by (rule runtime_rows_property [where Q = "\<lambda>rows. distinct (map row_event_id rows)", OF assms])
    (rule sqlite_append_keeps_key)

end

text \<open>
  C2. Over the whole runtime: start, the cooperative loop with its reader, waiting, faults and
  shutdown, in any order, with whatever happens outside that touches neither relay nor audit. If
  the pin was low and is high now, the audit database has gained, since then, the row of an
  authorized credential; and rows are only ever added.
\<close>

theorem every_unlock_is_audited:
  assumes "hardware D pin E"
    and "(runtime_step (hw_host D E U fuel) (hw_outside pin))\<^sup>*\<^sup>* s t"
    and "rpi_ok (hw_relay (world_of s))" and "\<not> rt_pin pin s" and "rt_pin pin t"
  shows "\<exists>new ev. rt_rows t = rt_rows s @ new \<and> event_ok ev \<and>
    ev_event_type ev = CREDENTIAL_AUTHORIZED \<and> row_of_event ev \<in> set new"
  using hardware.runtime_unlock_audited [OF assms(1-4)] assms(5) by blast

text \<open>
  C25. Privacy over the whole runtime: every row that is ever written, by the controller and for
  the reader, says nothing outside a fixed vocabulary. Besides its type, severity and time, each
  of them enumerated or a \<open>datetime\<close>, a row has: an identifier that \<open>uuid4\<close> drew; a correlation
  that is empty or has one entry, an allow-listed reason, an integer \<open>attempt\<close> or a number
  \<open>duration_seconds\<close>; no reader state or one of the four words; one of the six words for the
  controller's state; no delivery status. No text of a credential or of a name can be in it.
\<close>

theorem audit_rows_are_private:
  assumes "hardware D pin E"
    and "(runtime_step (hw_host D E U fuel) (hw_outside pin))\<^sup>*\<^sup>* s t" and "rt_rows s = []"
  shows "set (rt_rows t) \<subseteq> row_of_event ` {ev. public_event (range U) ev}"
proof -
  have "\<forall>row\<in>set (rt_rows t). row \<in> row_of_event ` {ev. public_event (range U) ev}"
    by (rule hardware.runtime_rows_private [OF assms(1,2)]) (auto simp: assms(3))
  then show ?thesis by blast
qed

section \<open>A run of the sample runtime\<close>

lemma sample_feed [run_simps]:
  "feed sample_frame (new_stream 64) = (Inr [ParsedRecord ''0102030405''], new_stream 64)"
  "sample_frame \<noteq> []"
  by code_simp+

lemma hw_host_run [run_simps]:
  "ho_ports (hw_host D E U fuel) = hw_ports D U"
  "ho_report (hw_host D E U fuel) = (\<lambda>status details. at_hardware (pe_report E status details))"
  "ho_read (hw_host D E U fuel) = (\<lambda>h. at_hardware (pe_read E h))"
  "ho_close (hw_host D E U fuel) = (\<lambda>h. at_hardware (pe_close E h))"
  "rc_read (runtime_calls H) = (\<lambda>h. in_controller (env (ho_read H h)))"
  "rc_close (runtime_calls H) = (\<lambda>h. in_controller (env (ho_close H h)))"
  "rc_monotonic (runtime_calls H) = Some (in_controller (env (p_monotonic (ho_ports H))))"
  "rc_emit (runtime_calls H) = record_reader_event H"
  "pe_read sample_peripherals = (\<lambda>_. ret sample_frame)"
  "pe_close sample_peripherals = (\<lambda>_. skip)" "pe_report sample_peripherals = (\<lambda>_ _. skip)"
  by (simp_all add: hw_host_def runtime_calls_def sample_peripherals_def)

lemmas [run_simps] =
  run_once_def [THEN fun_cong] read_records_once_def [THEN fun_cong] read_once_def [THEN fun_cong]
  record_received_def [THEN fun_cong] record_reader_event_def [THEN fun_cong]
  publish_snapshot_def [THEN fun_cong] submit_record_def [THEN fun_cong]
  on_controller_def [THEN fun_cong] on_host_def [THEN fun_cong] in_controller_def [THEN fun_cong]
  world_def [THEN fun_cong] feed_runtime_def [THEN fun_cong] at_hardware_def [THEN fun_cong]
  runtime_shutdown_def [THEN fun_cong] close_supervisor_def [THEN fun_cong]
  disconnect_def [THEN fun_cong] sample_runtime_def degrading_events_def event_at_def malformed_def
  connected_def

lemma lazy_runtime [run_congs]:
  fixes s t :: "'w runtime"
  assumes "s = t"
  shows "on_host m s = on_host m t" "on_controller k s = on_controller k t"
  using assms by simp_all

lemma lazy_world [run_congs]: "s = t \<Longrightarrow> world m s = world m t"
  by simp

lemma lazy_parts [run_congs]:
  "a = b \<Longrightarrow> in_controller m a = in_controller m b" "w = v \<Longrightarrow> at_hardware g w = at_hardware g v"
  by simp_all

lemma reader_event_types [run_simps]:
  "event_type_of ''reader_record_received'' = Some READER_RECORD_RECEIVED"
  "event_type_of ''reader_disconnected'' = Some READER_DISCONNECTED"
  by code_simp+

definition sample_unlocked :: "recording_gpio hw_world runtime" where
  "sample_unlocked = final (runtime_perform sample_host RunOnce sample_runtime)"

lemma sample_runtime_ok:
  "rpi_ok (hw_relay (world_of sample_runtime))" "\<not> rt_pin rg_pin sample_runtime"
  "rt_rows sample_runtime = []"
  by (simp_all add: run_simps world_of_def rpi_ok_def rt_pin_def rt_rows_def)

lemma sample_unlocked_pin: "rt_pin rg_pin sample_unlocked"
  by (simp add: sample_unlocked_def rt_pin_def world_of_def run_simps cong: run_congs)

lemma sample_run_reachable:
  "(runtime_step sample_host (hw_outside rg_pin))\<^sup>*\<^sup>* sample_runtime sample_unlocked"
  unfolding sample_unlocked_def by (rule r_into_rtranclp) (rule runtime_step.call, rule run_pair)

lemma every_unlock_is_audited_witness:
  "\<exists>new ev. rt_rows sample_unlocked = rt_rows sample_runtime @ new \<and> event_ok ev \<and>
    ev_event_type ev = CREDENTIAL_AUTHORIZED \<and> row_of_event ev \<in> set new"
  by (rule every_unlock_is_audited [OF recording_hardware.hardware_axioms sample_run_reachable
        sample_runtime_ok(1,2) sample_unlocked_pin])

lemma audit_rows_are_private_witness:
  "set (rt_rows sample_unlocked) \<subseteq> row_of_event ` {ev. public_event (range decimal) ev}"
  by (rule audit_rows_are_private [OF recording_hardware.hardware_axioms sample_run_reachable
        sample_runtime_ok(3)])

section \<open>Shutdown\<close>

definition error_of :: "exn + 'a \<Rightarrow> exn list" where
  "error_of r = (case r of Inl e \<Rightarrow> [e] | Inr _ \<Rightarrow> [])"

text \<open>Every cleanup runs, on the state the previous one left, and no failure is lost.\<close>

fun failures_of :: "('s, unit) prog list \<Rightarrow> 's \<Rightarrow> exn list" where
  "failures_of [] s = []"
| "failures_of (m # ms) s = error_of (result (m s)) @ failures_of ms (final (m s))"

fun all_done :: "('s, unit) prog list \<Rightarrow> 's \<Rightarrow> 's" where
  "all_done [] s = s"
| "all_done (m # ms) s = all_done ms (final (m s))"

lemma collect_failures_all: "collect_failures ms s = (Inr (failures_of ms s), all_done ms s)"
proof (induction ms arbitrary: s)
  case (Cons m ms)
  then show ?case
    by (cases "m s")
      (auto simp: bnd_def try_except_def sq_def ret_def error_of_def split: sum.splits)
qed (simp add: ret_def)

definition cleanups :: "'w host \<Rightarrow> ('w runtime, unit) prog list" where
  "cleanups H =
     [on_controller (shutdown (ho_ports H)), close_supervisor (runtime_calls H),
      on_host (ho_report H ''stopped'' [])]"

definition rt_state :: "'w runtime \<Rightarrow> controller_state" where
  "rt_state s = ct_state (rr_controller (sv_env s))"

lemma keeps_rt_state_in_controller:
  "keeps (\<lambda>c. ct_state c \<in> S) m \<Longrightarrow> keeps (\<lambda>s. rt_state s \<in> S) (world (in_controller m))"
  unfolding rt_state_def
  by (intro keeps_world) (auto simp: in_controller_def intro: keeps_zoom [where J = "\<lambda>c. ct_state c \<in> S"])

lemma shutdown_gives_up: "rt_state (all_done (cleanups H) s) \<in> gave_up"
proof -
  define u where "u = final (on_controller (shutdown (ho_ports H)) s)"
  have "rt_state u = ct_state (final (shutdown (ho_ports H) (rr_controller (sv_env s))))"
    by (simp add: u_def rt_state_def on_controller_def in_controller_def world_def zoom_def
        split: prod.splits)
  then have u: "rt_state u \<in> gave_up"
    using shutdown_transition [OF run_pair, of "ho_ports H" "rr_controller (sv_env s)"]
    by (auto simp: gave_up_def split: if_splits)
  have close: "keeps (\<lambda>s. rt_state s \<in> gave_up) (close_supervisor (runtime_calls H))"
  proof -
    have own: "keeps (\<lambda>s. rt_state s \<in> gave_up) (modify f)"
      if "\<And>s. sv_env (f s) = sv_env s" for f :: "'a runtime \<Rightarrow> 'a runtime"
      by (rule keeps_modify) (simp add: rt_state_def that)
    show ?thesis
      unfolding close_supervisor_def disconnect_def runtime_calls_def reader_calls.simps
      by (intro keeps_rules own keeps_rt_state_in_controller state_env) simp_all
  qed
  have report: "keeps (\<lambda>s. rt_state s \<in> gave_up) (on_host m)" for m :: "('a, unit) prog"
    unfolding on_host_def on_controller_def
    by (rule keeps_rt_state_in_controller [OF state_env])
  show ?thesis
    using u close report
    by (simp add: cleanups_def u_def [symmetric] keeps_def)
qed

text \<open>
  C9. A runtime shutdown attempts all of its cleanups, the controller first, each on the state the
  previous one left, however they fail; it then raises a group of exactly the failures, in order,
  or is complete; and after the cleanups the controller has given up for good. What follows is
  only the publication of the snapshot.
\<close>

theorem shutdown_attempts_everything:
  assumes "\<not> rr_shutdown_complete (sv_env s)"
  shows "rt_state (all_done (cleanups H) s) \<in> {FAULTED, SHUTTING_DOWN, STOPPED} \<and>
    runtime_shutdown H s =
      (if failures_of (cleanups H) s \<noteq> []
       then sq (publish_snapshot H)
              (throw (ExceptionGroup ''runtime shutdown failed'' (failures_of (cleanups H) s)))
              (all_done (cleanups H) s)
       else sq (world (modify (rr_shutdown_complete_update (\<lambda>_. True)))) (publish_snapshot H)
              (all_done (cleanups H) s))"
proof
  show "rt_state (all_done (cleanups H) s) \<in> {FAULTED, SHUTTING_DOWN, STOPPED}"
    using shutdown_gives_up [of H s] by (simp add: gave_up_def)
  have "runtime_shutdown H s = bnd (collect_failures (cleanups H)) (\<lambda>failures.
      if failures \<noteq> []
      then sq (publish_snapshot H) (throw (ExceptionGroup ''runtime shutdown failed'' failures))
      else sq (world (modify (rr_shutdown_complete_update (\<lambda>_. True)))) (publish_snapshot H)) s"
    using assms by (simp add: runtime_shutdown_def with_self_def cleanups_def)
  then show "runtime_shutdown H s =
      (if failures_of (cleanups H) s \<noteq> []
       then sq (publish_snapshot H)
              (throw (ExceptionGroup ''runtime shutdown failed'' (failures_of (cleanups H) s)))
              (all_done (cleanups H) s)
       else sq (world (modify (rr_shutdown_complete_update (\<lambda>_. True)))) (publish_snapshot H)
              (all_done (cleanups H) s))"
    by (simp add: bnd_def [of "collect_failures ms" for ms] collect_failures_all)
qed

lemma shutdown_attempts_everything_witness:
  "rt_state (all_done (cleanups sample_host) sample_runtime) \<in> {FAULTED, SHUTTING_DOWN, STOPPED} \<and>
    runtime_shutdown sample_host sample_runtime =
      (if failures_of (cleanups sample_host) sample_runtime \<noteq> []
       then sq (publish_snapshot sample_host)
              (throw (ExceptionGroup ''runtime shutdown failed''
                (failures_of (cleanups sample_host) sample_runtime)))
              (all_done (cleanups sample_host) sample_runtime)
       else sq (world (modify (rr_shutdown_complete_update (\<lambda>_. True)))) (publish_snapshot sample_host)
              (all_done (cleanups sample_host) sample_runtime))"
  by (rule shutdown_attempts_everything) (simp_all add: run_simps rt_state_def)

end
