(* ===== verification/Service_Security.thy ===== *)
theory Service_Security
  imports Hardware_Service Runtime_Properties
begin

text \<open>
  The hardware service ends with the door locked: whatever raises on the way, as long as the
  driver accepts the command LOW, the pin is low when \<open>run_hardware_service\<close> is left. A run
  that ends before the relay is set up does not touch the pin: a pin that an earlier process has
  left high is then still high.
\<close>

section \<open>Invariants of the world through the service\<close>

definition machine_world :: "'w service \<Rightarrow> 'w" where
  "machine_world s = (case hs_machine s of Inl w \<Rightarrow> w | Inr rt \<Rightarrow> world_of rt)"

text \<open>\<open>J\<close> holds of the world, and, from some point on, the relay object exists.\<close>

definition secure :: "('w \<Rightarrow> bool) \<Rightarrow> bool \<Rightarrow> 'w service \<Rightarrow> bool" where
  "secure J made s \<longleftrightarrow> J (machine_world s) \<and> (made \<longrightarrow> hs_relay_made s)"

lemma keeps_on_machine: "keeps J m \<Longrightarrow> keeps (secure J made) (on_machine m)"
proof (rule keepsI)
  fix s r t assume J: "keeps J m" and s: "secure J made s" and run: "on_machine m s = (r, t)"
  show "secure J made t"
  proof (cases "hs_machine s")
    case (Inl w)
    then show ?thesis
      using s run by (auto simp: secure_def machine_world_def on_machine_def dest: keepsD [OF J]
          split: prod.splits)
  next
    case (Inr rt)
    then show ?thesis
      using s run by (auto simp: secure_def machine_world_def on_machine_def
          dest: keepsD [OF keeps_on_host [OF J]] split: prod.splits)
  qed
qed

lemma keeps_on_runtime:
  "keeps (\<lambda>rt. J (world_of rt)) m \<Longrightarrow> keeps (secure J made) (on_runtime x m)"
  by (rule keepsI) (auto simp: secure_def machine_world_def on_runtime_def dest: keepsD
      split: sum.splits prod.splits)

lemma keeps_own_variables:
  "(\<And>s. hs_machine (f s) = hs_machine s \<and> hs_relay_made (f s) = hs_relay_made s) \<Longrightarrow>
   keeps (secure J made) (modify f)"
  by (rule keeps_modify) (simp add: secure_def machine_world_def)

lemma keeps_note_failure: "keeps (secure J made) (note_failure e)"
  unfolding note_failure_def by (rule keeps_own_variables) simp

lemma keeps_noting: "keeps (secure J made) m \<Longrightarrow> keeps (secure J made) (noting m)"
  unfolding noting_def by (intro keeps_rules keeps_note_failure)

lemma new_runtime_world: "new_runtime cfg w = Inr rt \<Longrightarrow> world_of rt = w"
  by (auto simp: new_runtime_def chain_Inr new_controller_def new_supervisor_def world_of_def
      split: if_splits)

lemma keeps_build_runtime: "keeps (secure J made) (build_runtime cfg)"
  by (rule keepsI) (auto simp: secure_def machine_world_def build_runtime_def
      dest: new_runtime_world split: sum.splits)

text \<open>What the service is given keeps \<open>J\<close>.\<close>

definition service_calls_keep :: "'w service_calls \<Rightarrow> ('w \<Rightarrow> bool) \<Rightarrow> bool" where
  "service_calls_keep S J \<longleftrightarrow>
     keeps J (sc_open_audit S) \<and> keeps J (sc_load_authorization S) \<and> keeps J (sc_make_relay S) \<and>
     keeps J (sc_open_notifications S) \<and> keeps J (sc_install_signals S) \<and>
     keeps J (sc_print_ready S) \<and> keeps J (sc_close_audit S) \<and>
     (\<forall>d. keeps J (sc_make_api S d)) \<and> keeps J (sc_api_start S) \<and> keeps J (sc_api_stop S) \<and>
     keeps J (sc_api_snapshot S)"

lemma service_calls_keepD:
  assumes "service_calls_keep S J"
  shows "keeps J (sc_open_audit S)" "keeps J (sc_load_authorization S)" "keeps J (sc_make_relay S)"
    "keeps J (sc_open_notifications S)" "keeps J (sc_install_signals S)"
    "keeps J (sc_print_ready S)" "keeps J (sc_close_audit S)" "keeps J (sc_make_api S d)"
    "keeps J (sc_api_start S)" "keeps J (sc_api_stop S)" "keeps J (sc_api_snapshot S)"
  using assms by (simp_all add: service_calls_keep_def)

definition reports_keep :: "'w host \<Rightarrow> ('w \<Rightarrow> bool) \<Rightarrow> bool" where
  "reports_keep H J \<longleftrightarrow> (\<forall>status details. keeps J (ho_report H status details))"

lemma keeps_case_prod [keeps_rules]:
  "(\<And>a b. keeps I (f a b)) \<Longrightarrow> keeps I (case p of (a, b) \<Rightarrow> f a b)"
  by (cases p) simp

lemma keeps_report_api_state:
  "reports_keep H J \<Longrightarrow> keeps (secure J made) (report_api_state H cfg state failure)"
  unfolding report_api_state_def Let_def reports_keep_def
  by (intro keeps_sq keeps_own_variables keeps_noting keeps_on_machine) simp_all

lemmas secure_unfold = secure_def machine_world_def

lemma keeps_retain_api_failure:
  "reports_keep H J \<Longrightarrow> keeps (secure J made) (retain_api_failure H cfg i e state)"
  unfolding retain_api_failure_def
  by (intro keeps_rules keeps_note_failure keeps_report_api_state) (simp_all add: secure_unfold)

lemma keeps_observe_api:
  "reports_keep H J \<Longrightarrow> service_calls_keep S J \<Longrightarrow> keeps (secure J made) (observe_api H cfg S)"
  unfolding observe_api_def Let_def
  by (intro keeps_rules keeps_report_api_state keeps_retain_api_failure keeps_on_machine
      service_calls_keepD) simp_all

lemma keeps_api:
  assumes "reports_keep H J" and "service_calls_keep S J"
  shows "keeps (secure J made) (start_api H cfg S started)"
    "keeps (secure J made) (stop_api H cfg S)" "keeps (secure J made) (service_ready H cfg S)"
proof -
  have report: "keeps J (ho_report H status details)" for status details
    using assms(1) by (simp add: reports_keep_def)
  have api: "keeps (secure J made) (try_api H cfg S started)"
    unfolding try_api_def
    by (intro keeps_rules keeps_report_api_state keeps_observe_api keeps_on_machine
        service_calls_keepD assms) (simp_all add: secure_unfold)
  show "keeps (secure J made) (start_api H cfg S started)"
    unfolding start_api_def
    by (intro keeps_rules api keeps_retain_api_failure keeps_on_machine service_calls_keepD assms)
  show "keeps (secure J made) (stop_api H cfg S)"
    unfolding stop_api_def
    by (intro keeps_rules keeps_observe_api keeps_retain_api_failure keeps_on_machine
        service_calls_keepD assms)
  show "keeps (secure J made) (service_ready H cfg S)"
    unfolding service_ready_def
    by (intro keeps_rules keeps_report_api_state keeps_on_machine report service_calls_keepD assms)
qed

lemma keeps_run_rounds:
  "keeps I is_set \<Longrightarrow> keeps I once \<Longrightarrow> (\<And>f. on_ready = Some f \<Longrightarrow> keeps I f) \<Longrightarrow>
   (\<And>f. on_iteration = Some f \<Longrightarrow> keeps I f) \<Longrightarrow>
   keeps I (run_rounds n is_set once on_ready on_iteration)"
  by (induction n) (auto intro!: keeps_rules)

lemma host_reports: "host_keeps H J \<Longrightarrow> reports_keep H J"
  by (simp add: host_keeps_def reports_keep_def)

lemma keeps_runtime_calls:
  assumes "host_keeps H J"
  shows "keeps (\<lambda>rt. J (world_of rt)) (runtime_start H)"
    "keeps (\<lambda>rt. J (world_of rt)) (report_fault H)"
    "keeps (\<lambda>rt. J (world_of rt)) (handle_failure H)"
    "keeps (\<lambda>rt. J (world_of rt)) (runtime_shutdown H)"
  using keeps_runtime_perform [OF assms, of RuntimeStart]
    keeps_runtime_perform [OF assms, of ReportFault]
    keeps_runtime_perform [OF assms, of HandleFailure]
    keeps_runtime_perform [OF assms, of RuntimeShutdown] by simp_all

lemma keeps_service_failed:
  assumes "host_keeps H J"
  shows "keeps (secure J made) (service_failed H e)"
  unfolding service_failed_def
  by (intro keeps_rules keeps_note_failure keeps_noting keeps_on_runtime
      keeps_runtime_calls [OF assms])

section \<open>The body\<close>

text \<open>
  \<open>J0\<close> holds of the bare world before the relay object exists; \<open>J\<close> holds from then on.
\<close>

definition bare :: "('w \<Rightarrow> bool) \<Rightarrow> 'w service \<Rightarrow> bool" where
  "bare J0 s \<longleftrightarrow> (\<exists>w. hs_machine s = Inl w \<and> J0 w) \<and> \<not> hs_relay_made s"

definition before_relay :: "('w \<Rightarrow> bool) \<Rightarrow> ('w \<Rightarrow> bool) \<Rightarrow> 'w service \<Rightarrow> bool" where
  "before_relay J0 J s \<longleftrightarrow> secure J True s \<or> bare J0 s"

lemma keeps_bare:
  "keeps J0 m \<Longrightarrow> keeps (bare J0) (on_machine m)" "keeps (bare J0) (on_runtime x k)"
  "(\<And>s. hs_machine (f s) = hs_machine s \<and> hs_relay_made (f s) = hs_relay_made s) \<Longrightarrow>
   keeps (bare J0) (modify f)"
  "keeps (bare J0) (note_failure e)"
  "keeps (bare J0) n \<Longrightarrow> keeps (bare J0) (noting n)"
proof -
  show "keeps (bare J0) (on_machine m)" if "keeps J0 m"
  proof (rule keepsI)
    fix s r t assume "bare J0 s" and run: "on_machine m s = (r, t)"
    then obtain w where w: "hs_machine s = Inl w" "J0 w" "\<not> hs_relay_made s"
      by (auto simp: bare_def)
    obtain w' where "m w = (r, w')" "t = s\<lparr>hs_machine := Inl w'\<rparr>"
      using run w(1) by (auto simp: on_machine_def split: prod.splits)
    then show "bare J0 t" using keepsD [OF that] w by (simp add: bare_def)
  qed
  show "keeps (bare J0) (on_runtime x k)"
    by (rule keepsI) (auto simp: bare_def on_runtime_def)
  show "keeps (bare J0) (modify f)"
    if "\<And>s. hs_machine (f s) = hs_machine s \<and> hs_relay_made (f s) = hs_relay_made s" for f
    by (rule keeps_modify) (use that in \<open>simp add: bare_def\<close>)
  then show quiet: "keeps (bare J0) (note_failure e)" for e by (simp add: note_failure_def)
  then show "keeps (bare J0) (noting n)" if "keeps (bare J0) n"
    using that quiet unfolding noting_def by (intro keeps_rules)
qed

lemma service_body_secure:
  assumes "host_keeps H J" and "service_calls_keep S J" and "service_calls_keep S J0"
    and "\<And>w. J0 w \<Longrightarrow> J w"
  shows "triple (bare J0) (service_body fuel H cfg S install started)
    (\<lambda>_. before_relay J0 J) (\<lambda>_. before_relay J0 J)"
proof -
  note reports = host_reports [OF assms(1)]
  have early: "triple (bare J0) m (\<lambda>_. bare J0) (\<lambda>_. before_relay J0 J)"
    if "keeps (bare J0) m" for m :: "('a service, unit) prog"
    by (rule triple_conseq [OF triple_keeps [OF that]]) (auto simp: before_relay_def)
  have late: "triple (secure J True) m (\<lambda>_. before_relay J0 J) (\<lambda>_. before_relay J0 J)"
    if "keeps (secure J True) m" for m :: "('a service, bool) prog"
    by (rule triple_conseq [OF triple_keeps [OF that]]) (auto simp: before_relay_def)
  have made: "triple (bare J0) (modify (hs_relay_made_update (\<lambda>_. True)))
      (\<lambda>_. secure J True) (\<lambda>_. before_relay J0 J)"
    by (rule triple_modify) (use assms(4) in \<open>auto simp: secure_unfold bare_def\<close>)
  have loop: "keeps (secure J True) (run_rounds fuel (on_machine (ho_is_set H))
      (on_runtime False (run_once H)) (Some (service_ready H cfg S))
      (if ss_api_enabled cfg then Some (observe_api H cfg S) else None))"
    using keeps_api(3) [OF reports assms(2)] keeps_observe_api [OF reports assms(2)]
    by (intro keeps_run_rounds keeps_on_machine keeps_on_runtime keeps_run_once host_keepsD assms(1))
      (auto split: if_splits)
  have audit: "keeps (bare J0) (modify (hs_audit_open_update (\<lambda>_. True)))"
    by (rule keeps_bare) simp
  show ?thesis
    unfolding service_body_def
    by (intro triple_sq [OF early] triple_sq [OF made] late audit keeps_bare keeps_sq keeps_if
        keeps_skip keeps_on_machine keeps_on_runtime keeps_build_runtime keeps_runtime_calls
        keeps_api reports loop service_calls_keepD host_keepsD assms(1,2,3))
qed

section \<open>The end\<close>

text \<open>
  \<open>L\<close> is what the cleanup of the relay establishes, and what the calls after it keep.
\<close>

lemma on_host_world: "on_host m rt = (r, rt') \<Longrightarrow> m (world_of rt) = (r, world_of rt')"
  by (auto simp: on_host_def on_controller_def in_controller_def world_def env_def zoom_def
      world_of_def split: prod.splits)

lemma on_machine_world:
  "on_machine m s = (r, t) \<Longrightarrow> m (machine_world s) = (r, machine_world t)"
  by (auto simp: on_machine_def machine_world_def dest: on_host_world split: sum.splits prod.splits)

lemma noting_world:
  assumes "noting m s = (r, t)"
  shows "\<exists>x t'. m s = (x, t') \<and> machine_world t = machine_world t'"
  using assms
  by (cases "m s")
    (auto simp: noting_def note_failure_def try_except_def modify_def machine_world_def
      split: sum.splits)

lemma noting_returns: "\<exists>t. noting m s = (Inr (), t)"
  by (cases "m s") (auto simp: noting_def note_failure_def try_except_def modify_def split: sum.splits)

lemma noting_never_raises: "noting m s \<noteq> (Inl e, t)"
  using noting_returns [of m s] by auto

lemma keeps_before_relay:
  "keeps (secure J True) m \<Longrightarrow> keeps (bare J0) m \<Longrightarrow> keeps (before_relay J0 J) m"
  by (auto simp: keeps_def before_relay_def)

lemma service_failed_returns: "\<exists>t. service_failed H e s = (Inr (), t)"
proof -
  have "\<exists>t. sq (noting m) (noting n) s = (Inr (), t)" for m n :: "('a service, unit) prog" and s
    using noting_returns [of m s] noting_returns [of n] by (fastforce simp: sq_def bnd_def)
  then show ?thesis by (simp add: service_failed_def note_failure_def sq_modify)
qed

lemma triple_noting: "keeps I (noting m) \<Longrightarrow> triple I (noting m) (\<lambda>_. I) E"
  by (rule tripleI) (auto dest: keepsD simp: noting_never_raises)

lemma secure_relay_locks:
  assumes "host_keeps H J" and "\<And>w. J0 w \<Longrightarrow> L w"
    and "\<And>w x w'. J w \<Longrightarrow> p_relay_cleanup (ho_ports H) w = (x, w') \<Longrightarrow> L w'"
  shows "triple (before_relay J0 J) (secure_relay H) (\<lambda>_. secure L False) (\<lambda>_. secure L False)"
proof -
  have "keeps (before_relay J0 J) (noting (on_runtime () (runtime_shutdown H)))"
    by (intro keeps_before_relay keeps_bare keeps_noting keeps_on_runtime
        keeps_runtime_calls [OF assms(1)])
  note shut = triple_noting [OF this]
  have clean: "secure L False t"
    if s: "before_relay J0 J s" and run: "(if hs_relay_made s
      then noting (on_machine (p_relay_cleanup (ho_ports H))) else skip) s = (r, t)" for s r t
  proof (cases "hs_relay_made s")
    case True
    then have "J (machine_world s)" using s by (auto simp: before_relay_def secure_def bare_def)
    moreover obtain x t' where "on_machine (p_relay_cleanup (ho_ports H)) s = (x, t')"
      "machine_world t = machine_world t'"
      using noting_world run True by fastforce
    ultimately have "L (machine_world t)" using on_machine_world assms(3) by metis
    then show ?thesis by (simp add: secure_def)
  next
    case False
    then have "t = s" "L (machine_world s)"
      using s run assms(2)
      by (auto simp: before_relay_def secure_def bare_def machine_world_def skip_def)
    then show ?thesis by (simp add: secure_def)
  qed
  show ?thesis
    unfolding secure_relay_def
    by (rule triple_sq [OF shut]) (rule tripleI, auto simp: with_self_def dest: clean)
qed

lemma service_finally_locks:
  assumes "host_keeps H J" and "\<And>w. J0 w \<Longrightarrow> L w"
    and "\<And>w x w'. J w \<Longrightarrow> p_relay_cleanup (ho_ports H) w = (x, w') \<Longrightarrow> L w'"
    and "reports_keep H L" and "service_calls_keep S L"
  shows "triple (before_relay J0 J) (service_finally H cfg S) (\<lambda>_. secure L False) (\<lambda>_. secure L False)"
proof -
  have "keeps (secure L False) (with_self (\<lambda>s. if hs_audit_open s
      then noting (on_machine (sc_close_audit S)) else skip))"
    by (intro keeps_rules keeps_noting keeps_on_machine service_calls_keepD assms(5))
  then show ?thesis
    unfolding service_finally_def
    by (intro triple_sq [OF secure_relay_locks [OF assms(1-3)]] triple_keeps keeps_sq
        keeps_api(2) assms(4,5))
qed

lemma service_locks:
  assumes "host_keeps H J" and "service_calls_keep S J" and "service_calls_keep S J0"
    and "\<And>w. J0 w \<Longrightarrow> J w \<and> L w"
    and "\<And>w x w'. J w \<Longrightarrow> p_relay_cleanup (ho_ports H) w = (x, w') \<Longrightarrow> L w'"
    and "reports_keep H L" and "service_calls_keep S L" and "keeps J0 (p_now (ho_ports H))"
  shows "triple (bare J0) (run_hardware_service fuel H cfg S install)
    (\<lambda>r s. r = None \<or> L (machine_world s)) (\<lambda>_ s. L (machine_world s))"
proof -
  let ?R = "\<lambda>ended s. if ended then before_relay J0 J s else True"
  have low: "L (machine_world s)" if "bare J0 s" for s
    using that assms(4) by (auto simp: bare_def machine_world_def)
  have now: "triple (bare J0) (on_machine (p_now (ho_ports H))) (\<lambda>_. bare J0) (\<lambda>_ s. L (machine_world s))"
    by (rule triple_conseq [OF triple_keeps [OF keeps_bare(1) [OF assms(8)]]]) (auto intro: low)
  have "keeps (bare J0) (service_failed H e)" for e
    unfolding service_failed_def by (intro keeps_sq keeps_bare)
  then have failed: "keeps (before_relay J0 J) (service_failed H e)" for e
    by (intro keeps_before_relay keeps_service_failed assms(1))
  have handler: "triple (before_relay J0 J) (sq (service_failed H e) (ret True))
      (\<lambda>_. before_relay J0 J) (\<lambda>_ s. L (machine_world s))" for e
  proof (rule tripleI)
    fix s x t assume "before_relay J0 J s" "sq (service_failed H e) (ret True) s = (Inr x, t)"
    then show "before_relay J0 J t"
      using keepsD [OF keeps_sq [OF failed keeps_ret]] by metis
  next
    fix s e' t assume "sq (service_failed H e) (ret True) s = (Inl e', t)"
    then show "L (machine_world t)"
      using service_failed_returns [of H e s] by (auto simp: sq_def bnd_def ret_def)
  qed
  have body: "triple (bare J0) (try_except (\<lambda>_. True) (service_body fuel H cfg S install started)
      (\<lambda>e. sq (service_failed H e) (ret True))) (\<lambda>_. before_relay J0 J) (\<lambda>_ s. L (machine_world s))"
    for started
    by (rule triple_try_except [where F = "\<lambda>_. before_relay J0 J"])
      (use service_body_secure [OF assms(1-3)] assms(4) handler in blast)+
  have last: "triple (secure L False) service_result (\<lambda>r s. r = None \<or> L (machine_world s))
      (\<lambda>_ s. L (machine_world s))"
    by (rule tripleI) (auto simp: service_result_def with_self_def ret_def throw_def secure_def
        split: list.splits)
  have finish: "triple (before_relay J0 J) (sq (service_finally H cfg S) service_result)
      (\<lambda>r s. r = None \<or> L (machine_world s)) (\<lambda>_ s. L (machine_world s))"
    by (rule triple_sq [OF _ last], rule triple_conseq [OF service_finally_locks [OF assms(1) _ assms(5-7)]])
      (use assms(4) in \<open>auto simp: secure_def\<close>)
  have ended: "triple (before_relay J0 J) (if \<not> ended then ret None
      else sq (service_finally H cfg S) service_result)
      (\<lambda>r s. r = None \<or> L (machine_world s)) (\<lambda>_ s. L (machine_world s))" for ended
    using finish by (auto intro: triple_ret)
  show ?thesis
    unfolding run_hardware_service_def
    by (intro triple_if triple_throw low triple_bnd [OF now] triple_bnd [OF body] ended)
qed

section \<open>The relay of the hardware\<close>

text \<open>
  \<open>p0\<close> says whether the pin was high when the run began. A relay that is not set up is high only
  if it was then, and one that is cleaned up is low: nothing would command them low any more.
\<close>

definition relay_secured :: "('g \<Rightarrow> bool) \<Rightarrow> bool \<Rightarrow> 'g rpi_relay \<Rightarrow> bool" where
  "relay_secured pin p0 r \<longleftrightarrow>
     rpi_ok r \<and> (rp_channel r = None \<longrightarrow> pin (rp_gpio r) \<longrightarrow> p0) \<and>
     (rp_channel r \<noteq> None \<longrightarrow> rp_closed r \<longrightarrow> \<not> pin (rp_gpio r))"

text \<open>What holds at the end: a high pin has been high all the time, and was never set up.\<close>

definition relay_locked :: "('g \<Rightarrow> bool) \<Rightarrow> bool \<Rightarrow> 'g rpi_relay \<Rightarrow> bool" where
  "relay_locked pin p0 r \<longleftrightarrow> (pin (rp_gpio r) \<longrightarrow> rp_channel r = None \<and> p0)"

text \<open>What the calls that do not concern the relay leave alone.\<close>

definition relay_view ::
  "('g \<Rightarrow> bool) \<Rightarrow> 'g hw_world \<Rightarrow> int option \<times> bool \<times> bool" where
  "relay_view pin w = (rp_channel (hw_relay w), rp_closed (hw_relay w), pin (rp_gpio (hw_relay w)))"

lemma relay_view_keeps:
  "preserves (relay_view pin) m \<Longrightarrow> keeps (\<lambda>w. relay_secured pin p0 (hw_relay w)) m"
  "preserves (relay_view pin) m \<Longrightarrow>
   keeps (\<lambda>w. relay_secured pin p0 (hw_relay w) \<and> rp_channel (hw_relay w) = None) m"
  "preserves (relay_view pin) m \<Longrightarrow> keeps (\<lambda>w. relay_locked pin p0 (hw_relay w)) m"
  by (erule preserves_keepsI; auto simp: relay_view_def relay_secured_def relay_locked_def rpi_ok_def)+

lemma preserves_at_hardware:
  "preserves pin m \<Longrightarrow> preserves (relay_view pin) (at_hardware m)"
  unfolding at_hardware_def on_gpio_def
  by (rule preservesI) (auto simp: zoom_def relay_view_def dest: preservesD split: prod.splits)

lemma preserves_other_ports:
  "preserves (relay_view pin) (p_monotonic (hw_ports D U))"
  "preserves (relay_view pin) (p_now (hw_ports D U))"
  "preserves (relay_view pin) (p_uuid (hw_ports D U))"
  "preserves (relay_view pin) (p_audit_append (hw_ports D U) ev)"
  "preserves (relay_view pin) (p_enqueue (hw_ports D U) ev)"
  "preserves (relay_view pin) (p_classify (hw_ports D U) cred)"
  by (auto simp: hw_ports_def hw_uuid_def relay_view_def
      intro!: preserves_zoom preserves_gets preserves_rules)

context gpio_contract begin

lemma on_gpio_pin:
  "on_gpio m r = (x, r') \<Longrightarrow> \<exists>g'. m (rp_gpio r) = (x, g') \<and> r' = r\<lparr>rp_gpio := g'\<rparr>"
  by (auto simp: on_gpio_def zoom_def split: prod.splits)

lemma cleanup_locks:
  assumes "accepts_low D" and "relay_secured pin p0 r" and "rpi_cleanup D r = (x, r')"
  shows "relay_locked pin p0 r' \<and> rpi_ok r'"
proof -
  have ok: "rpi_ok r'" using keepsD [OF rpi_keeps_ok(3) assms(3)] assms(2)
    by (simp add: relay_secured_def)
  show ?thesis
  proof (cases "rp_channel r = None \<or> rp_closed r")
    case True
    then have "r' = r"
      using assms(3) by (auto simp: rpi_cleanup_def with_self_def skip_def split: option.splits)
    then show ?thesis
      using True assms(2) ok by (auto simp: relay_secured_def relay_locked_def)
  next
    case False
    then have ch: "rp_channel r = Some 23" "\<not> rp_closed r"
      using assms(2) by (auto simp: relay_secured_def rpi_ok_def)
    obtain g where g: "gpio_output D 23 False (rp_gpio r) = (Inr (), g)"
      using assms(1) by (auto simp: accepts_low_def)
    then have low: "on_gpio (gpio_output D 23 False) r = (Inr (), r\<lparr>rp_gpio := g\<rparr>)" "\<not> pin g"
      using output_returns by (auto simp: on_gpio_def zoom_def)
    obtain y r2 where clean: "sq (on_gpio (gpio_cleanup D 23)) (modify (rp_closed_update (\<lambda>_. True)))
        (r\<lparr>rp_gpio := g\<rparr>) = (y, r2)" by (cases rule: prod.exhaust)
    have "r' = r2"
      using assms(3) ch low(1) clean
      by (auto simp: rpi_cleanup_def with_self_def try_finally_def split: sum.splits)
    moreover have "\<not> pin (rp_gpio r2)"
      using clean low(2) cleanup_pin
      by (auto simp: sq_def bnd_def modify_def dest!: on_gpio_pin split: prod.splits sum.splits)
    ultimately show ?thesis using ok by (simp add: relay_locked_def)
  qed
qed

lemma secured_setup: "keeps (relay_secured pin p0) (rpi_setup D numbering channel)"
proof (rule keepsI)
  fix r x r' assume r: "relay_secured pin p0 r" and run: "rpi_setup D numbering channel r = (x, r')"
  have ok: "rpi_ok r" "rpi_ok r'"
    using r keepsD [OF rpi_keeps_ok(1) run] by (simp_all add: relay_secured_def)
  have "rp_channel r \<noteq> None \<longrightarrow> r' = r"
    using run by (auto simp: rpi_setup_def with_self_def skip_def split: if_splits)
  moreover have "rp_channel r = None \<longrightarrow> rp_channel r' = None \<or> \<not> rp_closed r'"
    using run
    by (auto simp: rpi_setup_def with_self_def throw_def sq_def bnd_def modify_def on_gpio_def
        zoom_def split: if_splits prod.splits sum.splits)
  moreover have "pin (rp_gpio r') \<longrightarrow> pin (rp_gpio r)"
    using rpi.setup_not_raised [OF ok(1) run] by blast
  ultimately show "relay_secured pin p0 r'"
    using r ok by (auto simp: relay_secured_def)
qed

lemma secured_command: "keeps (relay_secured pin p0) (rpi_command D high)"
proof (rule keepsI)
  fix r x r' assume r: "relay_secured pin p0 r" and run: "rpi_command D high r = (x, r')"
  show "relay_secured pin p0 r'"
    using r run by (auto simp: relay_secured_def rpi_command_def with_self_def throw_def rpi_ok_def
        dest!: on_gpio_pin split: option.splits if_splits)
qed

lemma secured_cleanup:
  assumes "accepts_low D"
  shows "keeps (relay_secured pin p0) (rpi_cleanup D)"
proof (rule keepsI)
  fix r x r' assume "relay_secured pin p0 r" and "rpi_cleanup D r = (x, r')"
  from cleanup_locks [OF assms this] show "relay_secured pin p0 r'"
    by (auto simp: relay_secured_def relay_locked_def)
qed

lemma secured_ports:
  assumes "accepts_low D"
  shows "ports_keep (hw_ports D U) (\<lambda>_. True) (\<lambda>w. relay_secured pin p0 (hw_relay w))"
proof -
  have "keeps (\<lambda>w. relay_secured pin p0 (hw_relay w)) (p_relay_setup (hw_ports D U) n ch)"
    "keeps (\<lambda>w. relay_secured pin p0 (hw_relay w)) (p_relay_command (hw_ports D U) high)"
    "keeps (\<lambda>w. relay_secured pin p0 (hw_relay w)) (p_relay_cleanup (hw_ports D U))" for n ch high
    by (simp_all add: hw_ports_def hw_keeps_relay secured_setup secured_command
        secured_cleanup assms)
  then show ?thesis
    by (simp add: ports_keep_def relay_view_keeps(1) preserves_other_ports)
qed

end

text \<open>The service's own calls: they open, start and close things, and leave the relay alone.\<close>

definition leaves_relay :: "('g \<Rightarrow> bool) \<Rightarrow> 'g hw_world service_calls \<Rightarrow> bool" where
  "leaves_relay pin S \<longleftrightarrow>
     preserves (relay_view pin) (sc_open_audit S) \<and>
     preserves (relay_view pin) (sc_load_authorization S) \<and>
     preserves (relay_view pin) (sc_make_relay S) \<and>
     preserves (relay_view pin) (sc_open_notifications S) \<and>
     preserves (relay_view pin) (sc_install_signals S) \<and>
     preserves (relay_view pin) (sc_print_ready S) \<and>
     preserves (relay_view pin) (sc_close_audit S) \<and>
     (\<forall>d. preserves (relay_view pin) (sc_make_api S d)) \<and>
     preserves (relay_view pin) (sc_api_start S) \<and> preserves (relay_view pin) (sc_api_stop S) \<and>
     preserves (relay_view pin) (sc_api_snapshot S)"

lemma leaves_relay_keep:
  assumes "leaves_relay pin S"
  shows "service_calls_keep S (\<lambda>w. relay_secured pin p0 (hw_relay w))"
    "service_calls_keep S (\<lambda>w. relay_secured pin p0 (hw_relay w) \<and> rp_channel (hw_relay w) = None)"
    "service_calls_keep S (\<lambda>w. relay_locked pin p0 (hw_relay w))"
  using assms by (auto simp: service_calls_keep_def leaves_relay_def intro: relay_view_keeps)

context hardware begin

lemma report_view: "preserves (relay_view pin) (ho_report (hw_host D E U fuel) status details)"
  by (simp add: hw_host_def preserves_at_hardware report_pin)

lemma secured_host:
  assumes "accepts_low D"
  shows "host_keeps (hw_host D E U fuel) (\<lambda>w. relay_secured pin p0 (hw_relay w))"
proof -
  note ports = secured_ports [OF assms]
  have wait: "keeps (\<lambda>s. relay_secured pin p0 (hw_relay (world_of s))) (hw_wait D E U fuel d m)"
    if "keeps (\<lambda>s. relay_secured pin p0 (hw_relay (world_of s))) m" for d m
    unfolding hw_wait_def
    by (intro keeps_rules keeps_event_wait that
        keeps_on_host [where J = "\<lambda>w. relay_secured pin p0 (hw_relay w)"]
        relay_view_keeps preserves_other_ports preserves_at_hardware stop_wait_pin)
  show ?thesis
    unfolding host_keeps_def hw_host_def host.simps
    by (intro conjI allI impI keeps_perform [OF ports] relay_view_keeps preserves_other_ports
        preserves_at_hardware report_pin enumerate_pin open_pin read_pin close_pin random_pin
        is_set_pin set_stop_pin wait) simp_all
qed

end

text \<open>
  C1. The hardware service fails secure. Whatever the database, the files, the reader, the health
  file, the API server, setting up or cleaning up the relay do, and whatever exception, an
  interrupt included, ends the run: when \<open>run_hardware_service\<close> is left, by a return or an
  exception, the pin is low, provided the driver accepts the command LOW. The one exception is a
  pin that was high before the run, left so by an earlier process: if the run ends before the
  relay has been set up, the pin is untouched and may still be high.
\<close>

theorem service_fails_secure:
  assumes "hardware D pin E" and "accepts_low D" and "leaves_relay pin S"
    and "rp_channel (hw_relay w) = None"
    and "run_hardware_service fuel (hw_host D E U n) cfg S install (new_service cfg w) = (r, s)"
    and "r \<noteq> Inr None"
  shows "pin (rp_gpio (hw_relay (machine_world s))) \<longrightarrow>
    rp_channel (hw_relay (machine_world s)) = None \<and> pin (rp_gpio (hw_relay w))"
proof -
  define p0 where "p0 = pin (rp_gpio (hw_relay w))"
  let ?L = "\<lambda>w. relay_locked pin p0 (hw_relay w)"
  let ?J = "\<lambda>w. relay_secured pin p0 (hw_relay w)"
  let ?bare = "\<lambda>w. relay_secured pin p0 (hw_relay w) \<and> rp_channel (hw_relay w) = None"
  have gpio: "gpio_contract D pin" using assms(1) by (simp add: hardware_def)
  have "triple (bare ?bare) (run_hardware_service fuel (hw_host D E U n) cfg S install)
      (\<lambda>r s. r = None \<or> ?L (machine_world s)) (\<lambda>_ s. ?L (machine_world s))"
  proof (rule service_locks [where J = ?J and ?J0.0 = ?bare and L = ?L])
    show "host_keeps (hw_host D E U n) ?J" by (rule hardware.secured_host [OF assms(1,2)])
    show "service_calls_keep S ?J" "service_calls_keep S ?bare" "service_calls_keep S ?L"
      by (intro leaves_relay_keep assms(3))+
    show "reports_keep (hw_host D E U n) ?L"
      unfolding reports_keep_def
      by (intro allI relay_view_keeps hardware.report_view [OF assms(1)])
    show "keeps ?bare (p_now (ho_ports (hw_host D E U n)))"
      unfolding hw_host_ports by (intro relay_view_keeps preserves_other_ports)
    show "?L w'" if "?J w" "p_relay_cleanup (ho_ports (hw_host D E U n)) w = (x, w')" for w x w'
      using gpio_contract.cleanup_locks [OF gpio assms(2)] that hw_zoom_relay_run
      by (fastforce simp: hw_host_ports hw_ports_def)
  qed (simp add: relay_secured_def relay_locked_def)
  moreover have "bare ?bare (new_service cfg w)"
    using assms(4) by (simp add: bare_def new_service_def relay_secured_def rpi_ok_def p0_def)
  ultimately have "?L (machine_world s)"
    using assms(5,6) triple_returns triple_raises by (cases r) fastforce+
  then show ?thesis by (simp add: relay_locked_def p0_def)
qed

end
