(* ===== verification/Service_Runs.thy ===== *)
theory Service_Runs
  imports Service_Security
begin

text \<open>
  A run of the hardware service, from its start over an unlocked door to its end.
\<close>

section \<open>The peripherals\<close>

text \<open>A stop is requested as soon as the door is unlocked.\<close>

definition stopping_peripherals :: "recording_gpio peripherals" where
  "stopping_peripherals = sample_peripherals\<lparr>pe_is_set := gets rg_pin\<rparr>"

interpretation patient: hardware patient_driver rg_pin stopping_peripherals
proof unfold_locales
qed (auto simp: patient_driver_def recording_driver_def stopping_peripherals_def
    sample_peripherals_def preserves_rules preserves_gets dest: recorded_returns recorded_pin
    split: if_splits)

section \<open>The service around it\<close>

definition sample_settings :: service_settings where
  "sample_settings =
     \<lparr>ss_relay_backend = ''raspberry_pi'', ss_api_enabled = False, ss_identity = sample_identity,
      ss_backoff = default_backoff, ss_escalation = default_escalation_policy,
      ss_release_seconds = 3, ss_gpio_channel = 23, ss_maximum_record_bytes = 16\<rparr>"

definition sample_calls :: "recording_gpio hw_world service_calls" where
  "sample_calls =
     \<lparr>sc_open_audit = skip, sc_load_authorization = skip, sc_make_relay = skip,
      sc_open_notifications = skip, sc_install_signals = skip, sc_print_ready = skip,
      sc_close_audit = skip, sc_make_api = (\<lambda>_. skip), sc_api_start = ret None,
      sc_api_stop = ret None, sc_api_snapshot = ret (ApiStopped, [])\<rparr>"

lemma sample_calls_leave_relay: "leaves_relay rg_pin sample_calls"
  by (simp add: leaves_relay_def sample_calls_def preserves_rules)

text \<open>The pin is high when the run begins: an earlier process was killed during a release.\<close>

definition unborn_world :: "recording_gpio hw_world" where
  "unborn_world = sample_hw_world
     \<lparr>hw_relay := \<lparr>rp_gpio = sample_gpio\<lparr>rg_pin := True\<rparr>, rp_channel = None, rp_closed = False\<rparr>\<rparr>"

abbreviation patient_host :: "recording_gpio hw_world host" where
  "patient_host \<equiv> hw_host patient_driver stopping_peripherals decimal 10"

lemma stopping_run [run_simps]:
  "pe_report stopping_peripherals = (\<lambda>_ _. skip)" "pe_enumerate stopping_peripherals = ret [sample_device]"
  "pe_open stopping_peripherals = (\<lambda>_. ret (UsableSession 7))"
  "pe_read stopping_peripherals = (\<lambda>_. ret sample_frame)" "pe_close stopping_peripherals = (\<lambda>_. skip)"
  "pe_random stopping_peripherals = ret (1 / 2)" "pe_is_set stopping_peripherals = gets rg_pin"
  by (simp_all add: stopping_peripherals_def sample_peripherals_def)

lemma hw_host_more [run_simps]:
  "ho_enumerate (hw_host D E U fuel) = at_hardware (pe_enumerate E)"
  "ho_open (hw_host D E U fuel) = (\<lambda>path. at_hardware (pe_open E path))"
  "ho_random (hw_host D E U fuel) = at_hardware (pe_random E)"
  "ho_is_set (hw_host D E U fuel) = at_hardware (pe_is_set E)"
  "rc_enumerate (runtime_calls H) = in_controller (env (ho_enumerate H))"
  "rc_open (runtime_calls H) = (\<lambda>p. in_controller (env (ho_open H p)))"
  "rc_random (runtime_calls H) = in_controller (env (ho_random H))"
  "rc_wait (runtime_calls H) = cooperative_wait H"
  by (simp_all add: hw_host_def runtime_calls_def)

lemmas [run_simps] =
  on_machine_def on_runtime_def noting_def [THEN fun_cong] note_failure_def [THEN fun_cong]
  service_body_def [THEN fun_cong] build_runtime_def new_runtime_def chain_def
  new_controller_def new_supervisor_def service_finally_def [THEN fun_cong]
  secure_relay_def [THEN fun_cong] stop_api_def [THEN fun_cong] service_result_def [THEN fun_cong]
  service_ready_def [THEN fun_cong] run_hardware_service_def [THEN fun_cong]
  runtime_start_def [THEN fun_cong] connect_until_ready_def [THEN fun_cong]
  attempt_connection_def [THEN fun_cong] connection_made_def [THEN fun_cong]
  open_session_def [THEN fun_cong] connect_discovered_def [THEN fun_cong]
  emit_attempt_def [THEN fun_cong]
  reader_state_snapshot_def [THEN fun_cong] publish_def [THEN fun_cong]
  run_rounds.simps(2) [THEN fun_cong] connect_rounds.simps [THEN fun_cong]
  new_service_def unborn_world_def

lemma raise_or_return_run [run_simps]:
  "raise_or_return (Inr v) = ret v" "raise_or_return (Inl e) = throw e"
  by (simp_all add: raise_or_return_def)

lemma add_no_seconds [run_simps]: "add_seconds d 0 = d"
  by (cases d) (simp add: add_seconds_def timedelta_us_def round_half_even_def)

lemmas [run_simps] =
  to_utc_def in_calendar_def calendar_end_def us_per_day_def astimezone_utc_def instant_us_def
  later_by_option_def later_by_def

lemma sample_settings_run [run_simps]:
  "ss_relay_backend sample_settings = ''raspberry_pi''" "ss_api_enabled sample_settings = False"
  "ss_identity sample_settings = sample_identity" "ss_backoff sample_settings = default_backoff"
  "ss_escalation sample_settings = default_escalation_policy"
  "ss_release_seconds sample_settings = 3" "ss_gpio_channel sample_settings = 23"
  "ss_maximum_record_bytes sample_settings = 16"
  by (simp_all add: sample_settings_def)

lemma sample_calls_run [run_simps]:
  "sc_open_audit sample_calls = skip" "sc_load_authorization sample_calls = skip"
  "sc_make_relay sample_calls = skip" "sc_open_notifications sample_calls = skip"
  "sc_install_signals sample_calls = skip" "sc_print_ready sample_calls = skip"
  "sc_close_audit sample_calls = skip"
  by (simp_all add: sample_calls_def)

lemma connection_event_types [run_simps]:
  "event_type_of ''reader_connecting'' = Some READER_CONNECTING"
  "event_type_of ''reader_connected'' = Some READER_CONNECTED"
  by code_simp+

lemma private_attempt [run_simps]: "private_correlation [(''attempt'', v)]"
  by (simp add: private_correlation_iff allowed_correlation_keys_def reason_allowed_def)

lemma sample_discovery [run_simps]:
  "discover_reader [sample_device] sample_identity =
   \<lparr>dr_status = FOUND, dr_device = Some sample_device, dr_unrelated_count = 0\<rparr>"
  by code_simp

lemma run_rounds_numeral [run_simps]:
  "run_rounds (numeral k) is_set once on_ready on_iteration s =
   run_rounds (Suc (pred_numeral k)) is_set once on_ready on_iteration s"
  by (simp only: numeral_eq_Suc)

lemma lazy_service [run_congs]:
  fixes s t :: "'w service"
  assumes "s = t"
  shows "on_machine m s = on_machine m t" "on_runtime x k s = on_runtime x k t"
    "run_rounds n a b c d s = run_rounds n a b c d t"
  using assms by simp_all

section \<open>The run\<close>

text \<open>
  The service starts and locks the door, connects the reader, reads the frame of an authorized credential and raises
  the relay; then it is asked to stop, and returns.
\<close>

definition sample_service_run :: "(exn + int option) \<times> recording_gpio hw_world service" where
  "sample_service_run =
     run_hardware_service 4 patient_host sample_settings sample_calls True
       (new_service sample_settings unborn_world)"

lemma sample_service_calls:
  "case sample_service_run of (r, s) \<Rightarrow> r = Inr (Some 0) \<and>
     rg_calls (rp_gpio (hw_relay (machine_world s))) =
       [SetWarnings False, SetModeBcm, SetupOut 23 False, Output 23 False, Output 23 True,
        Output 23 False, Output 23 False, Cleanup 23] \<and>
     rp_channel (hw_relay (machine_world s)) = Some 23"
  by (simp add: sample_service_run_def machine_world_def world_of_def run_simps cong: run_congs)

lemma service_fails_secure_witness:
  "\<not> rg_pin (rp_gpio (hw_relay (machine_world (final sample_service_run))))"
proof -
  have "rg_pin (rp_gpio (hw_relay (machine_world (final sample_service_run)))) \<longrightarrow>
      rp_channel (hw_relay (machine_world (final sample_service_run))) = None \<and>
      rg_pin (rp_gpio (hw_relay unborn_world))"
  proof (rule service_fails_secure [OF patient.hardware_axioms patient_accepts_low
        sample_calls_leave_relay])
    show "rp_channel (hw_relay unborn_world) = None"
      by (simp add: unborn_world_def)
    show "run_hardware_service 4 patient_host sample_settings sample_calls True
        (new_service sample_settings unborn_world) = (result sample_service_run, final sample_service_run)"
      unfolding sample_service_run_def by (rule run_pair)
    show "result sample_service_run \<noteq> Inr None"
      using sample_service_calls by (simp add: split_beta result_def)
  qed
  then show ?thesis using sample_service_calls by (simp add: split_beta final_def)
qed

text \<open>
  The exception is real: if the authorization file cannot be loaded, the run ends before the relay
  is set up, and the pin is as the earlier process left it.
\<close>

definition refused_run :: "(exn + int option) \<times> recording_gpio hw_world service" where
  "refused_run =
     run_hardware_service 4 patient_host sample_settings
       (sample_calls\<lparr>sc_load_authorization :=
          throw (AuthorizationError ''authorization CSV is malformed'')\<rparr>) True
       (new_service sample_settings unborn_world)"

lemma refused_run_leaves_pin:
  "case refused_run of (r, s) \<Rightarrow> rg_calls (rp_gpio (hw_relay (machine_world s))) = [] \<and>
     rg_pin (rp_gpio (hw_relay (machine_world s)))"
  by (simp add: refused_run_def machine_world_def world_of_def run_simps
      service_failed_def [THEN fun_cong] cong: run_congs)

end
