(* ===== verification/Base64.thy ===== *)
theory Base64
  imports Prelude
begin

text \<open>
  The part of Python's \<open>base64\<close> that cursors use: \<open>urlsafe_b64encode\<close> with its padding stripped,
  and \<open>urlsafe_b64decode\<close>, which skips characters outside the alphabet. Bytes are numbers below
  256, and a text is a list of characters.
\<close>

section \<open>Encoding\<close>

definition sextet_char :: "nat \<Rightarrow> char" where
  "sextet_char v =
     char_of (if v < 26 then 65 + v else if v < 52 then 71 + v else if v < 62 then v - 4
              else if v = 62 then 45 else (95 :: nat))"

fun sextets :: "nat list \<Rightarrow> nat list" where
  "sextets [] = []"
| "sextets [a] = [a div 4, a mod 4 * 16]"
| "sextets [a, b] = [a div 4, a mod 4 * 16 + b div 16, b mod 16 * 4]"
| "sextets (a # b # c # rest) =
     a div 4 # (a mod 4 * 16 + b div 16) # (b mod 16 * 4 + c div 64) # c mod 64 # sextets rest"

text \<open>\<open>base64.urlsafe_b64encode(data).decode().rstrip("=")\<close>: the padding is never written.\<close>

definition b64_encode :: "nat list \<Rightarrow> string" where
  "b64_encode data = map sextet_char (sextets data)"

section \<open>Decoding\<close>

text \<open>\<open>-\<close> and \<open>_\<close> are translated to \<open>+\<close> and \<open>/\<close>, which are accepted as well.\<close>

definition sextet_of :: "char \<Rightarrow> nat option" where
  "sextet_of c =
     (let n = of_char c :: nat
      in if 65 \<le> n \<and> n \<le> 90 then Some (n - 65)
         else if 97 \<le> n \<and> n \<le> 122 then Some (n - 71)
         else if 48 \<le> n \<and> n \<le> 57 then Some (n + 4)
         else if n = 43 \<or> n = 45 then Some 62
         else if n = 47 \<or> n = 95 then Some 63
         else None)"

text \<open>
  The loop of \<open>binascii.a2b_base64\<close> in its lenient mode: \<open>q\<close> is the position in the group of
  four, \<open>left\<close> the bits carried over and \<open>pads\<close> the number of padding characters seen in a row.
  A complete padding ends the data.
\<close>

fun a2b :: "nat \<Rightarrow> nat \<Rightarrow> nat \<Rightarrow> string \<Rightarrow> exn + nat list" where
  "a2b q left pads [] =
     (if q = 0 then Inr []
      else if q = 1
      then Inl (ValueError ''number of data characters cannot be 1 more than a multiple of 4'')
      else Inl (ValueError ''Incorrect padding''))"
| "a2b q left pads (c # cs) =
     (if c = CHR ''=''
      then (if 2 \<le> q then (if 4 \<le> q + pads + 1 then Inr [] else a2b q left (pads + 1) cs)
            else a2b q left pads cs)
      else case sextet_of c of
             None \<Rightarrow> a2b q left pads cs
           | Some v \<Rightarrow>
               if q = 0 then a2b 1 v 0 cs
               else if q = 1 then map_sum id ((#) (left * 4 + v div 16)) (a2b 2 (v mod 16) 0 cs)
               else if q = 2 then map_sum id ((#) (left * 16 + v div 4)) (a2b 3 (v mod 4) 0 cs)
               else map_sum id ((#) (left * 64 + v)) (a2b 0 0 0 cs))"

definition b64_decode :: "string \<Rightarrow> exn + nat list" where
  "b64_decode text =
     (if \<exists>c\<in>set text. 128 \<le> (of_char c :: nat)
      then Inl (ValueError ''string argument should contain only ASCII characters'')
      else a2b 0 0 0 text)"

definition padding :: "string \<Rightarrow> string" where
  "padding text = replicate (nat (- int (length text) mod 4)) (CHR ''='')"

section \<open>The round trip\<close>

lemma sextet_cases: "v < 64 \<Longrightarrow> v < 26 \<or> 26 \<le> v \<and> v < 52 \<or> 52 \<le> v \<and> v < 62 \<or> v = 62 \<or> v = (63::nat)"
  by linarith

lemma sextet_char_code:
  "v < 64 \<Longrightarrow> (of_char (sextet_char v) :: nat) =
    (if v < 26 then 65 + v else if v < 52 then 71 + v else if v < 62 then v - 4
     else if v = 62 then 45 else 95)"
  by (auto simp: sextet_char_def of_char_of)

lemma sextet_of_char: "v < 64 \<Longrightarrow> sextet_of (sextet_char v) = Some v"
  using sextet_cases [of v] by (auto simp: sextet_of_def sextet_char_code Let_def)

lemma sextet_char_plain:
  "v < 64 \<Longrightarrow> sextet_char v \<noteq> CHR ''=''" "v < 64 \<Longrightarrow> (of_char (sextet_char v) :: nat) < 128"
proof -
  show "sextet_char v \<noteq> CHR ''=''" if "v < 64"
  proof
    assume "sextet_char v = CHR ''=''"
    then have "sextet_of (sextet_char v) = None" by (simp add: sextet_of_def)
    then show False using sextet_of_char [OF that] by simp
  qed
qed (use sextet_cases [of v] in \<open>auto simp: sextet_char_code\<close>)

lemma sextets_bound: "list_all (\<lambda>b. b < 256) data \<Longrightarrow> v \<in> set (sextets data) \<Longrightarrow> v < 64"
proof (induction data rule: sextets.induct)
  case (4 a b c rest)
  have "a div 4 < 64" "a mod 4 * 16 + b div 16 < 64" "b mod 16 * 4 + c div 64 < 64" "c mod 64 < 64"
    using 4(2) by (auto simp: less_mult_imp_div_less)
  then show ?case using 4 by auto
qed (auto simp: less_mult_imp_div_less)

lemma a2b_sextet:
  "v < 64 \<Longrightarrow> a2b 0 left pads (sextet_char v # cs) = a2b 1 v 0 cs"
  "v < 64 \<Longrightarrow> a2b (Suc 0) left pads (sextet_char v # cs) =
    map_sum id ((#) (left * 4 + v div 16)) (a2b 2 (v mod 16) 0 cs)"
  "v < 64 \<Longrightarrow> a2b 2 left pads (sextet_char v # cs) =
    map_sum id ((#) (left * 16 + v div 4)) (a2b 3 (v mod 4) 0 cs)"
  "v < 64 \<Longrightarrow> a2b 3 left pads (sextet_char v # cs) =
    map_sum id ((#) (left * 64 + v)) (a2b 0 0 0 cs)"
  by (simp_all add: sextet_char_plain sextet_of_char)

lemma a2b_end:
  "a2b 0 left pads [] = Inr []" "a2b 2 left 0 ''=='' = Inr []" "a2b 3 left 0 ''='' = Inr []"
  by (simp_all add: numeral_3_eq_3)

declare a2b.simps [simp del]

text \<open>The padding that completes the last group.\<close>

definition pad_for :: "nat list \<Rightarrow> string" where
  "pad_for data =
     (if length data mod 3 = 1 then ''=='' else if length data mod 3 = 2 then ''='' else [])"

lemma length_sextets: "length (sextets data) = (length data * 4 + 2) div 3"
  by (induction data rule: sextets.induct) auto

lemma padding_b64_encode: "padding (b64_encode data) = pad_for data"
proof -
  have "nat (- int ((n * 4 + 2) div 3) mod 4) =
      (if n mod 3 = 1 then 2 else if n mod 3 = 2 then 1 else 0)" for n :: nat
  proof -
    have "(n * 4 + 2) div 3 mod 4 = (if n mod 3 = 1 then 2 else if n mod 3 = 2 then 3 else 0)"
      by presburger
    moreover have "nat (- int m mod 4) = (if m mod 4 = 0 then 0 else 4 - m mod 4)" for m :: nat
    proof -
      have "int m mod 4 = int (m mod 4)" by (simp add: zmod_int)
      then show ?thesis by (simp add: zmod_zminus1_eq_if nat_diff_distrib)
    qed
    ultimately show ?thesis by simp
  qed
  then show ?thesis
    by (auto simp: padding_def b64_encode_def length_sextets pad_for_def numeral_2_eq_2)
qed

lemma a2b_sextets:
  "list_all (\<lambda>b. b < 256) data \<Longrightarrow>
   a2b 0 0 0 (map sextet_char (sextets data) @ pad_for data) = Inr data"
proof (induction data rule: sextets.induct)
  case (2 a)
  then have "a div 4 < 64" "a mod 4 * 16 < 64" by auto
  then show ?case by (simp add: a2b_sextet a2b_end pad_for_def)
next
  case (3 a b)
  then have "a div 4 < 64" "a mod 4 * 16 + b div 16 < 64" "b mod 16 * 4 < 64" "b div 16 < 16"
    by auto
  then show ?case by (simp add: a2b_sextet a2b_end pad_for_def)
next
  case (4 a b c rest)
  then have v: "a div 4 < 64" "a mod 4 * 16 + b div 16 < 64" "b mod 16 * 4 + c div 64 < 64"
    "c mod 64 < 64" "b div 16 < 16" "c div 64 < 4" by (auto simp: less_mult_imp_div_less)
  have "pad_for (a # b # c # rest) = pad_for rest" by (simp add: pad_for_def)
  then show ?case using 4 v by (simp add: a2b_sextet)
qed (simp add: pad_for_def a2b_end)

lemma b64_decode_encode:
  assumes "list_all (\<lambda>b. b < 256) data"
  shows "b64_decode (b64_encode data @ padding (b64_encode data)) = Inr data"
proof -
  have "(of_char c :: nat) < 128" if "c \<in> set (b64_encode data @ pad_for data)" for c
    using that sextets_bound [OF assms] sextet_char_plain(2)
    by (auto simp: b64_encode_def pad_for_def split: if_splits)
  then have "\<not> (\<exists>c\<in>set (b64_encode data @ pad_for data). 128 \<le> (of_char c :: nat))"
    by (auto simp: not_le)
  then show ?thesis
    using a2b_sextets [OF assms]
    by (simp add: b64_decode_def padding_b64_encode) (simp add: b64_encode_def)
qed

end
