(* ===== verification/Iso_Times.thy ===== *)
theory Iso_Times
  imports Timestamps Json_Laws
begin

text \<open>
  \<open>datetime.fromisoformat\<close>. The texts that \<open>isoformat\<close> writes are read here; what Python makes of
  any other text (week dates, basic formats, other fractions) is a parameter. What is proved: the
  round trip of every \<open>datetime\<close> Python can hold.
\<close>

definition representable :: "datetime \<Rightarrow> bool" where
  "representable d \<longleftrightarrow>
     0 \<le> wall_us d \<and> wall_us d < calendar_end * us_per_day \<and>
     (case offset_us d of None \<Rightarrow> True | Some z \<Rightarrow> \<bar>z\<bar> < us_per_day)"

text \<open>The number in the \<open>w\<close> characters from position \<open>i\<close> on.\<close>

definition number_at :: "nat \<Rightarrow> nat \<Rightarrow> string \<Rightarrow> int" where
  "number_at i w s = int (digits_value (take w (drop i s)))"

definition offset_of_text :: "string \<Rightarrow> int option" where
  "offset_of_text z =
     (if z = [] then None
      else
        let offset = (number_at 1 2 z * 3600 + number_at 4 2 z * 60 + number_at 7 2 z) * us_per_second + number_at 10 6 z
        in Some (if hd z = CHR ''-'' then - offset else offset))"

text \<open>The fields of a text of the form \<open>YYYY-MM-DDTHH:MM:SS[.ffffff][+HH:MM[:SS[.ffffff]]]\<close>.\<close>

definition iso_candidate :: "string \<Rightarrow> datetime" where
  "iso_candidate s =
     (let fraction = (take 1 (drop 19 s) = ''.'');
          seconds = number_at 11 2 s * 3600 + number_at 14 2 s * 60 + number_at 17 2 s
      in DateTime
           (day_number (number_at 0 4 s, number_at 5 2 s, number_at 8 2 s) * us_per_day +
            seconds * us_per_second + (if fraction then number_at 20 6 s else 0))
           (offset_of_text (drop (if fraction then 26 else 19) s)))"

definition fromisoformat :: "(string \<Rightarrow> datetime option) \<Rightarrow> string \<Rightarrow> datetime option" where
  "fromisoformat other s =
     (let d = iso_candidate s
      in if representable d \<and> isoformat d = s then Some d else other s)"

section \<open>The round trip\<close>

lemma digits_value_pad: "0 \<le> n \<Longrightarrow> n < 10 ^ w \<Longrightarrow> int (digits_value (pad_decimal w n)) = n"
proof (induction w arbitrary: n)
  case (Suc w)
  have "n div 10 < 10 ^ w" using Suc.prems by (simp add: div_less_iff_less_mult)
  then have "int (digits_value (pad_decimal w (n div 10))) = n div 10"
    using Suc by (simp add: pos_imp_zdiv_nonneg_iff)
  moreover have "of_char (digit_char n) - 48 = nat (n mod 10)"
  proof -
    have "48 + nat (n mod 10) < 256" using pos_mod_bound [of 10 n] by simp
    then show ?thesis by (simp add: digit_char_def)
  qed
  ultimately show ?case by (simp add: digits_value_snoc)
qed (simp add: digits_value_def)

lemma offset_round_trip:
  assumes "case z of None \<Rightarrow> True | Some off \<Rightarrow> \<bar>off\<bar> < us_per_day"
  shows "offset_of_text (offset_text z) = z"
proof (cases z)
  case (Some off)
  define a where "a = \<bar>off\<bar>"
  define h where "h = a div 60000000 div 60"
  define m where "m = a div 60000000 mod 60"
  define s where "s = a div 1000000 mod 60"
  define us where "us = a mod 1000000"
  define sign where "sign = (if off < 0 then CHR ''-'' else CHR ''+'')"
  define k where "k = a div 1000000"
  define q where "q = k div 60"
  have q: "a div 60000000 = q" unfolding q_def k_def by (simp flip: zdiv_zmult2_eq)
  have "a = k * 1000000 + us" "k = q * 60 + s" "q = h * 60 + m"
    unfolding us_def k_def s_def q_def h_def m_def q [unfolded q_def k_def] by simp_all
  then have a: "a = (h * 3600 + m * 60 + s) * us_per_second + us"
    by (simp add: us_per_second_def algebra_simps)
  have "0 \<le> a" "a < us_per_day" using assms by (simp_all add: a_def Some)
  then have "0 \<le> h" "h < 100"
    unfolding h_def us_per_day_def by (simp_all add: pos_imp_zdiv_nonneg_iff div_less_iff_less_mult)
  moreover have "0 \<le> m" "m < 60" "0 \<le> s" "s < 60" "0 \<le> us" "us < 1000000"
    unfolding m_def s_def us_def by (rule pos_mod_bound pos_mod_sign; simp)+
  ultimately have b: "0 \<le> h" "h < 100" "0 \<le> m" "m < 100" "0 \<le> s" "s < 100" "0 \<le> us" "us < 1000000"
    by simp_all
  let ?s = "if s = 0 \<and> us = 0 then [] else '':'' @ pad_decimal 2 s"
  let ?u = "if us = 0 then [] else ''.'' @ pad_decimal 6 us"
  have t: "offset_text z = [sign] @ pad_decimal 2 h @ '':'' @ pad_decimal 2 m @ ?s @ ?u"
    unfolding offset_text_def Some option.case Let_def a_def [symmetric] h_def [symmetric]
      m_def [symmetric] s_def [symmetric] us_def [symmetric]
    by (simp add: sign_def)
  have v: "int (digits_value (pad_decimal 2 h)) = h" "int (digits_value (pad_decimal 2 m)) = m"
    "int (digits_value (pad_decimal 2 s)) = s" "int (digits_value (pad_decimal 6 us)) = us"
    "digits_value [] = 0"
    using b by (simp_all add: digits_value_pad digits_value_def [of "[]"])
  have "number_at 1 2 (offset_text z) = h" "number_at 4 2 (offset_text z) = m"
    "number_at 7 2 (offset_text z) = s" "number_at 10 6 (offset_text z) = us"
    using v by (auto simp: t number_at_def)
  moreover have "offset_text z \<noteq> []" "hd (offset_text z) = sign" by (simp_all add: t)
  ultimately have "offset_of_text (offset_text z) = Some (if sign = CHR ''-'' then - a else a)"
    using a by (simp add: offset_of_text_def Let_def)
  also have "\<dots> = z" by (auto simp: sign_def a_def Some)
  finally show ?thesis .
qed (simp add: offset_of_text_def offset_text_def)

lemma clock_fields_sum:
  assumes "clock_fields t = (h, m, s)"
  shows "h * 3600 + m * 60 + s = t"
proof -
  have "t div 3600 = t div 60 div 60" by (simp flip: zdiv_zmult2_eq)
  then show ?thesis
    using assms div_mult_mod_eq [of t 60] div_mult_mod_eq [of "t div 60" 60]
    by (auto simp: clock_fields_def)
qed

lemma iso_round_trip:
  assumes "representable d"
  shows "iso_candidate (isoformat d) = d"
proof (cases d)
  case (DateTime w z)
  define t where "t = w mod us_per_day"
  obtain y mo dd where date: "civil_of_days (w div us_per_day) = (y, mo, dd)"
    by (cases "civil_of_days (w div us_per_day)")
  obtain h mi s where time: "clock_fields (t div us_per_second) = (h, mi, s)"
    by (cases "clock_fields (t div us_per_second)")
  define us where "us = t mod us_per_second"
  have utc: "in_calendar (DateTime w (Some 0))" using assms DateTime by (simp add: representable_def in_calendar_def)
  note f = in_calendar_fields [OF utc]
  have b: "0 \<le> y" "y < 10000" "0 \<le> mo" "mo < 100" "0 \<le> dd" "dd < 100"
    "0 \<le> h" "h < 100" "0 \<le> mi" "mi < 100" "0 \<le> s" "s < 100" "0 \<le> us" "us < 1000000"
    using f(2-5) date time
    by (simp_all add: date_field_ok_def time_field_ok_def t_def us_def us_per_second_def)
  have "(t div us_per_second div 3600, t div us_per_second div 60 mod 60, t div us_per_second mod 60) = (h, mi, s)"
    using time by (simp add: clock_fields_def)
  then have iso: "isoformat d = pad_decimal 4 y @ ''-'' @ pad_decimal 2 mo @ ''-'' @ pad_decimal 2 dd @ ''T'' @
      pad_decimal 2 h @ '':'' @ pad_decimal 2 mi @ '':'' @ pad_decimal 2 s @
      (if us = 0 then [] else ''.'' @ pad_decimal 6 us) @ offset_text z"
    by (simp add: DateTime isoformat.simps date Let_def us_def t_def)
  have z: "offset_of_text (offset_text z) = z"
    using assms DateTime by (intro offset_round_trip) (simp add: representable_def)
  have "take 1 (offset_text z) \<noteq> ''.''" by (simp add: offset_text_def Let_def split: option.split)
  then have fraction: "take 1 (drop 19 (isoformat d)) = ''.'' \<longleftrightarrow> us \<noteq> 0"
    "drop (if us \<noteq> 0 then 26 else 19) (isoformat d) = offset_text z"
    by (simp_all add: iso)
  have "number_at 0 4 (isoformat d) = y" "number_at 5 2 (isoformat d) = mo" "number_at 8 2 (isoformat d) = dd"
    "number_at 11 2 (isoformat d) = h" "number_at 14 2 (isoformat d) = mi" "number_at 17 2 (isoformat d) = s"
    "us \<noteq> 0 \<Longrightarrow> number_at 20 6 (isoformat d) = us"
    using digits_value_pad b by (simp_all add: iso number_at_def)
  moreover have "day_number (y, mo, dd) = w div us_per_day"
    using civil_of_days_correct [of "w div us_per_day"] date by simp
  moreover have "(h * 3600 + mi * 60 + s) * us_per_second + us = t"
    using clock_fields_sum [OF time] by (simp add: us_def)
  moreover have "w = w div us_per_day * us_per_day + t" by (simp add: t_def)
  ultimately have "iso_candidate (isoformat d) = DateTime w z"
    unfolding iso_candidate_def fraction Let_def z by simp
  then show ?thesis by (simp add: DateTime)
qed

lemma fromisoformat_isoformat: "representable d \<Longrightarrow> fromisoformat other (isoformat d) = Some d"
  by (simp add: fromisoformat_def iso_round_trip)

end
