(* ===== verification/Query_Service.thy ===== *)
theory Query_Service
  imports Status_Service Configuration Base64 Iso_Times "HOL-Library.Product_Lexorder"
begin

text \<open>
  \<open>application/query_service.py\<close> and \<open>adapters/persistence/sqlite_audit_reader.py\<close>: the health
  read model, cursors, and the pages of audit events. The texts are read with \<open>Json_Text\<close> and
  \<open>Iso_Times\<close>; what those leave out of Python's library is in \<open>readers\<close>.
\<close>

record readers =
  rd_other_iso :: "string \<Rightarrow> datetime option"
  rd_json :: json_platform

definition read_time :: "readers \<Rightarrow> string \<Rightarrow> datetime option" where
  "read_time R text = fromisoformat (rd_other_iso R) text"

section \<open>EventCursor\<close>

record event_cursor =
  cu_timestamp :: datetime
  cu_event_id :: string

text \<open>\<open>json.dumps([a, b], separators=(",", ":")).encode()\<close>: every character is ASCII.\<close>

definition pair_json :: "string \<Rightarrow> string \<Rightarrow> string" where
  "pair_json a b = ''['' @ json_string a @ '','' @ json_string b @ '']''"

definition encode_cursor :: "event_cursor \<Rightarrow> exn + string" where
  "encode_cursor c =
     chain (to_utc (cu_timestamp c)) (\<lambda>d.
       Inr (b64_encode (map of_char (pair_json (isoformat d) (cu_event_id c)))))"

text \<open>
  Every \<open>ValueError\<close> and \<open>TypeError\<close> on the way becomes an \<open>InvalidQueryError\<close>; \<open>None\<close> stands for
  one here.
\<close>

definition decode_raw :: "readers \<Rightarrow> json \<Rightarrow> (datetime \<times> string) option" where
  "decode_raw R raw =
     (case raw of
        JList [a, b] \<Rightarrow>
          (case read_time R (json_str (rd_json R) a) of
             None \<Rightarrow> None
           | Some timestamp \<Rightarrow>
               let event_id = json_str (rd_json R) b
               in if \<not> aware timestamp \<or> event_id = [] then None
                  else Some (timestamp, event_id))
      | _ \<Rightarrow> None)"

fun is_malformed_text :: "exn \<Rightarrow> bool" where
  "is_malformed_text (TypeError _) = True"
| "is_malformed_text e = is_value_error e"

definition decode_cursor :: "readers \<Rightarrow> string \<Rightarrow> exn + event_cursor" where
  "decode_cursor R value =
     (case chain (b64_decode (value @ padding value)) (json_loads_bytes (rd_json R)) of
        Inl e \<Rightarrow> Inl (if is_malformed_text e then InvalidQueryError ''cursor is malformed'' else e)
      | Inr raw \<Rightarrow>
          (case decode_raw R raw of
             None \<Rightarrow> Inl (InvalidQueryError ''cursor is malformed'')
           | Some (timestamp, event_id) \<Rightarrow>
              chain (to_utc timestamp) (\<lambda>d.
                Inr \<lparr>cu_timestamp = d, cu_event_id = event_id\<rparr>)))"

section \<open>SQLiteAuditReader\<close>

text \<open>\<open>EventType(text)\<close> and \<open>Severity(text)\<close> raise \<open>ValueError\<close> for other texts.\<close>

definition event_of_row :: "readers \<Rightarrow> audit_row \<Rightarrow> exn + audit_event" where
  "event_of_row R row =
     (case read_time R (row_timestamp row) of
        None \<Rightarrow> Inl (ValueError ''Invalid isoformat string'')
      | Some timestamp \<Rightarrow>
          (case event_type_of (row_event_type row) of
             None \<Rightarrow> Inl (ValueError ''not a valid EventType'')
           | Some et \<Rightarrow>
               (case severity_of (row_severity row) of
                  None \<Rightarrow> Inl (ValueError ''not a valid Severity'')
                | Some sev \<Rightarrow>
                    post_init
                      \<lparr>ev_event_type = et, ev_severity = sev, ev_timestamp = timestamp,
                       ev_correlation = row_correlation row,
                       ev_reader_state = row_reader_state row,
                       ev_controller_state = row_controller_state row,
                       ev_delivery_status = row_delivery_status row,
                       ev_event_id = row_event_id row\<rparr>)))"

fun events_of_rows :: "readers \<Rightarrow> audit_row list \<Rightarrow> exn + audit_event list" where
  "events_of_rows R [] = Inr []"
| "events_of_rows R (row # rows) =
     chain (event_of_row R row) (\<lambda>ev. chain (events_of_rows R rows) (\<lambda>evs. Inr (ev # evs)))"

record event_filter =
  ef_cursor :: "event_cursor option"
  ef_before :: "datetime option"
  ef_after :: "datetime option"
  ef_event_type :: "event_type option"
  ef_severity :: "severity option"

text \<open>\<open>ORDER BY timestamp DESC, event_id DESC\<close>: SQLite compares texts byte by byte.\<close>

definition page_key :: "audit_row \<Rightarrow> string \<times> string" where
  "page_key row = (row_timestamp row, row_event_id row)"

text \<open>The \<open>WHERE\<close> clause.\<close>

definition row_selected :: "event_filter \<Rightarrow> audit_row \<Rightarrow> bool" where
  "row_selected f row \<longleftrightarrow>
     (case ef_before f of None \<Rightarrow> True | Some d \<Rightarrow> row_timestamp row < isoformat d) \<and>
     (case ef_after f of None \<Rightarrow> True | Some d \<Rightarrow> isoformat d < row_timestamp row) \<and>
     (case ef_event_type f of None \<Rightarrow> True | Some t \<Rightarrow> row_event_type row = event_type_value t) \<and>
     (case ef_severity f of None \<Rightarrow> True | Some v \<Rightarrow> row_severity row = severity_value v) \<and>
     (case ef_cursor f of
        None \<Rightarrow> True
      | Some c \<Rightarrow>
          row_timestamp row < isoformat (cu_timestamp c) \<or>
          (row_timestamp row = isoformat (cu_timestamp c) \<and> row_event_id row < cu_event_id c))"

definition newest_first :: "audit_row list \<Rightarrow> audit_row list" where
  "newest_first rows =
     rev (sort_key page_key rows)"

definition select_rows :: "event_filter \<Rightarrow> nat \<Rightarrow> audit_row list \<Rightarrow> audit_row list" where
  "select_rows f limit rows = take limit (newest_first (filter (row_selected f) rows))"

text \<open>
  A read-only connection: its statement fails with what the schedule says, and a \<open>sqlite3.Error\<close>
  becomes a \<open>QueryUnavailableError\<close>, as does a row that cannot be read.
\<close>

fun is_sqlite_error :: "exn \<Rightarrow> bool" where
  "is_sqlite_error (DatabaseError _) = True"
| "is_sqlite_error _ = False"

definition unavailable :: exn where
  "unavailable = QueryUnavailableError ''audit query unavailable''"

definition read_connection :: "(audit_row list \<Rightarrow> 'a) \<Rightarrow> (sqlite_sink, 'a) prog" where
  "read_connection query db =
     (let db' = db\<lparr>sq_faults := tl (sq_faults db)\<rparr>
      in case sq_faults db of
           Some e # _ \<Rightarrow> (Inl (if is_sqlite_error e then unavailable else e), db')
         | _ \<Rightarrow> (Inr (query (sq_rows db)), db'))"

definition readable :: "exn + 'a \<Rightarrow> (sqlite_sink, 'a) prog" where
  "readable x =
     (case x of Inl e \<Rightarrow> throw (if is_malformed_text e then unavailable else e) | Inr v \<Rightarrow> ret v)"

text \<open>\<open>SQLiteAuditReader.__init__\<close> refuses a timeout that is not positive.\<close>

definition new_audit_reader :: "pyfloat \<Rightarrow> exn + pyfloat" where
  "new_audit_reader timeout_seconds =
     (if float_le timeout_seconds (Finite 0)
      then Inl (ValueError ''SQLite read timeout must be positive'')
      else Inr timeout_seconds)"

definition reader_list_events ::
  "readers \<Rightarrow> nat \<Rightarrow> event_filter \<Rightarrow> (sqlite_sink, audit_event list) prog" where
  "reader_list_events R limit f =
     bnd (read_connection (select_rows f limit)) (\<lambda>rows. readable (events_of_rows R rows))"

definition reader_get_event :: "readers \<Rightarrow> string \<Rightarrow> (sqlite_sink, audit_event option) prog" where
  "reader_get_event R event_id =
     bnd (read_connection (find (\<lambda>row. row_event_id row = event_id))) (\<lambda>found.
       case found of
         None \<Rightarrow> ret None
       | Some row \<Rightarrow> readable (chain (event_of_row R row) (\<lambda>ev. Inr (Some ev))))"

text \<open>\<open>latest_event_time\<close> does not catch the \<open>ValueError\<close> of \<open>fromisoformat\<close>.\<close>

definition reader_latest_event_time :: "readers \<Rightarrow> (sqlite_sink, datetime option) prog" where
  "reader_latest_event_time R =
     bnd (read_connection (\<lambda>rows. case newest_first rows of [] \<Rightarrow> None | row # _ \<Rightarrow> Some row))
       (\<lambda>found.
         case found of
           None \<Rightarrow> ret None
         | Some row \<Rightarrow>
             (case read_time R (row_timestamp row) of
                None \<Rightarrow> throw (ValueError ''Invalid isoformat string'')
              | Some d \<Rightarrow> ret (Some d)))"

section \<open>ReadOnlyQueryService\<close>

record query_service =
  qs_maximum_event_page_size :: int
  qs_stale_after :: pyfloat

definition new_query_service :: "int \<Rightarrow> pyfloat \<Rightarrow> exn + query_service" where
  "new_query_service maximum stale_after =
     (if maximum \<le> 0 then Inl (ValueError ''maximum event page size must be positive'')
      else if float_le stale_after (Finite 0)
      then Inl (ValueError ''snapshot freshness threshold must be positive'')
      else Inr \<lparr>qs_maximum_event_page_size = maximum, qs_stale_after = stale_after\<rparr>)"

record health_snapshot =
  he_status :: string
  he_controller_state :: "controller_state option"
  he_reader_health :: "reader_health_state option"
  he_stale :: bool

definition healthy :: "health_snapshot \<Rightarrow> bool" where
  "healthy h \<longleftrightarrow> he_status h = ''healthy''"

fun is_snapshot_unavailable :: "exn \<Rightarrow> bool" where
  "is_snapshot_unavailable (SnapshotUnavailableError _) = True"
| "is_snapshot_unavailable _ = False"

definition health_of :: "query_service \<Rightarrow> status_snapshot \<Rightarrow> health_snapshot" where
  "health_of q p =
     (let stale = float_le (qs_stale_after q) (Finite (sp_age p));
          good = (\<not> stale \<and> sp_controller_state p \<in> {READY, RELEASED} \<and>
                  sp_reader_health p = HealthReady \<and> sp_authorization_loaded p)
      in \<lparr>he_status = (if good then ''healthy'' else ''degraded''),
          he_controller_state = Some (sp_controller_state p),
          he_reader_health = Some (sp_reader_health p), he_stale = stale\<rparr>)"

definition query_health ::
  "'s status_sources \<Rightarrow> status_service \<Rightarrow> query_service \<Rightarrow> ('s, health_snapshot) prog" where
  "query_health S service q =
     try_except is_snapshot_unavailable
       (bnd (service_snapshot S service) (\<lambda>p. ret (health_of q p)))
       (\<lambda>_. ret \<lparr>he_status = ''unavailable'', he_controller_state = None,
                 he_reader_health = None, he_stale = True\<rparr>)"

definition query_status :: "'s status_sources \<Rightarrow> status_service \<Rightarrow> ('s, status_snapshot) prog" where
  "query_status S service = service_snapshot S service"

definition normalize_time :: "datetime option \<Rightarrow> string \<Rightarrow> exn + datetime option" where
  "normalize_time value field =
     (case value of
        None \<Rightarrow> Inr None
      | Some d \<Rightarrow>
          if \<not> aware d then Inl (InvalidQueryError (field @ '' must be timezone-aware''))
          else map_sum id Some (to_utc d))"

record event_query =
  eq_limit :: int
  eq_cursor :: "string option"
  eq_before :: "datetime option"
  eq_after :: "datetime option"
  eq_event_type :: "event_type option"
  eq_severity :: "severity option"

record event_page =
  pg_items :: "audit_event list"
  pg_next_cursor :: "string option"

text \<open>The checks, and the filter for the reader.\<close>

definition checked_query :: "readers \<Rightarrow> query_service \<Rightarrow> event_query \<Rightarrow> exn + event_filter" where
  "checked_query R q e =
     (if eq_limit e \<le> 0 \<or> qs_maximum_event_page_size q < eq_limit e
      then Inl (InvalidQueryError
             (''limit must be between 1 and '' @ decimal (nat (qs_maximum_event_page_size q))))
      else if eq_cursor e \<noteq> None \<and> eq_before e \<noteq> None
      then Inl (InvalidQueryError ''cursor and before cannot be combined'')
      else
        chain (normalize_time (eq_before e) ''before'') (\<lambda>before.
        chain (normalize_time (eq_after e) ''after'') (\<lambda>after.
          if (case (before, after) of
                (Some b, Some a) \<Rightarrow> instant_us b \<le> instant_us a | _ \<Rightarrow> False)
          then Inl (InvalidQueryError ''after must be earlier than before'')
          else
            chain (case eq_cursor e of
                     None \<Rightarrow> Inr None
                   | Some c \<Rightarrow> map_sum id Some (decode_cursor R c)) (\<lambda>decoded.
              Inr \<lparr>ef_cursor = decoded, ef_before = before, ef_after = after,
                   ef_event_type = eq_event_type e, ef_severity = eq_severity e\<rparr>))))"

definition page_of :: "nat \<Rightarrow> audit_event list \<Rightarrow> exn + event_page" where
  "page_of limit events =
     (let items = take limit events
      in if limit < length events \<and> items \<noteq> []
         then chain (encode_cursor \<lparr>cu_timestamp = ev_timestamp (last items),
                                    cu_event_id = ev_event_id (last items)\<rparr>) (\<lambda>c.
                Inr \<lparr>pg_items = items, pg_next_cursor = Some c\<rparr>)
         else Inr \<lparr>pg_items = items, pg_next_cursor = None\<rparr>)"

definition query_list_events ::
  "readers \<Rightarrow> query_service \<Rightarrow> event_query \<Rightarrow> (sqlite_sink, event_page) prog" where
  "query_list_events R q e =
     bnd (raise_or_return (checked_query R q e)) (\<lambda>f.
     bnd (reader_list_events R (nat (eq_limit e) + 1) f) (\<lambda>events.
       raise_or_return (page_of (nat (eq_limit e)) events)))"

definition query_get_event :: "readers \<Rightarrow> string \<Rightarrow> (sqlite_sink, audit_event option) prog" where
  "query_get_event R event_id = reader_get_event R event_id"

section \<open>Cursors\<close>

lemma of_char_bound [simp]: "list_all (\<lambda>b. b < 256) (map (of_char :: char \<Rightarrow> nat) s)"
proof -
  have "(of_char c :: nat) < 256" for c :: char
    using nat_of_char_less_256 [of c] by simp
  then show ?thesis by (simp add: list_all_iff)
qed

text \<open>
  A row whose columns can be read back: it has an identifier and the canonical text of a UTC time,
  its type and severity are known and its correlation is allowed.
\<close>

definition row_time :: "audit_row \<Rightarrow> datetime" where
  "row_time row = iso_candidate (row_timestamp row)"

definition dated_row :: "audit_row \<Rightarrow> bool" where
  "dated_row row \<longleftrightarrow>
     row_event_id row \<noteq> [] \<and> in_calendar (row_time row) \<and>
     isoformat (row_time row) = row_timestamp row"

definition typed_row :: "audit_row \<Rightarrow> bool" where
  "typed_row row \<longleftrightarrow>
     private_correlation (row_correlation row) \<and>
     event_type_of (row_event_type row) \<noteq> None \<and> severity_of (row_severity row) \<noteq> None"

definition readable_row :: "audit_row \<Rightarrow> bool" where
  "readable_row row \<longleftrightarrow> dated_row row \<and> typed_row row"

definition row_event :: "audit_row \<Rightarrow> audit_event" where
  "row_event row =
     \<lparr>ev_event_type = the (event_type_of (row_event_type row)),
      ev_severity = the (severity_of (row_severity row)), ev_timestamp = row_time row,
      ev_correlation = row_correlation row, ev_reader_state = row_reader_state row,
      ev_controller_state = row_controller_state row,
      ev_delivery_status = row_delivery_status row, ev_event_id = row_event_id row\<rparr>"

definition row_cursor :: "audit_row \<Rightarrow> event_cursor" where
  "row_cursor row = \<lparr>cu_timestamp = row_time row, cu_event_id = row_event_id row\<rparr>"

lemma in_calendar_representable: "in_calendar d \<Longrightarrow> representable d"
  by (simp add: in_calendar_def representable_def us_per_day_def)

lemma in_calendar_utc: "in_calendar d \<Longrightarrow> astimezone_utc d = d \<and> aware d"
  by (cases d) (simp add: in_calendar_def astimezone_utc_def instant_us_def aware_def)

lemma read_row_time: "dated_row row \<Longrightarrow> read_time R (row_timestamp row) = Some (row_time row)"
  by (simp add: dated_row_def read_time_def fromisoformat_def in_calendar_representable row_time_def)

text \<open>Every cursor that is written can be read again.\<close>

lemma pair_json_dumps: "pair_json a b = json_dumps J '','' '':'' (JList [JStr a, JStr b])"
  by (simp add: pair_json_def)

lemma json_loads_pair:
  assumes "0 < jp_depth J"
  shows "json_loads_bytes J (map of_char (pair_json a b)) = Inr (JList [JStr a, JStr b])"
proof -
  obtain d where d: "jp_depth J = Suc d" using assms gr0_implies_Suc by blast
  show ?thesis
    unfolding pair_json_dumps [of a b J]
    by (rule json_loads_bytes_dumps) (simp_all add: d separators_def printable_def)
qed

lemma cursor_round_trip:
  assumes "0 < jp_depth (rd_json R)" and "aware (cu_timestamp c)" and "cu_event_id c \<noteq> []"
    and "encode_cursor c = Inr cursor"
  shows "decode_cursor R cursor =
    Inr \<lparr>cu_timestamp = astimezone_utc (cu_timestamp c), cu_event_id = cu_event_id c\<rparr>"
proof -
  let ?d = "astimezone_utc (cu_timestamp c)"
  have d: "in_calendar ?d" and cursor: "cursor = b64_encode (map of_char (pair_json (isoformat ?d) (cu_event_id c)))"
    using assms(4) by (auto simp: encode_cursor_def to_utc_def chain_def split: if_splits)
  have "read_time R (isoformat ?d) = Some ?d"
    by (simp add: read_time_def fromisoformat_isoformat in_calendar_representable d)
  then show ?thesis
    using d assms(3)
    by (simp add: decode_cursor_def cursor b64_decode_encode json_loads_pair assms(1) decode_raw_def to_utc_def)
qed

lemma event_of_readable_row: "readable_row row \<Longrightarrow> event_of_row R row = Inr (row_event row)"
  by (auto simp: readable_row_def typed_row_def event_of_row_def row_event_def read_row_time
      post_init_Inr event_ok_def dated_row_def in_calendar_utc)

lemma events_of_readable_rows:
  "\<forall>row\<in>set rows. readable_row row \<Longrightarrow> events_of_rows R rows = Inr (map (row_event) rows)"
  by (induction rows) (auto simp: event_of_readable_row chain_def)

lemma decode_row_cursor:
  assumes "readable_row row" "0 < jp_depth (rd_json R)"
  shows "\<exists>cursor c. encode_cursor (row_cursor row) = Inr cursor \<and> decode_cursor R cursor = Inr c \<and>
    isoformat (cu_timestamp c) = row_timestamp row \<and> cu_event_id c = row_event_id row"
proof -
  have d: "in_calendar (row_time row)" "row_event_id row \<noteq> []" "isoformat (row_time row) = row_timestamp row"
    using assms(1) by (simp_all add: readable_row_def dated_row_def)
  obtain cursor where cursor: "encode_cursor (row_cursor row) = Inr cursor"
    using in_calendar_utc [OF d(1)] d(1) by (simp add: encode_cursor_def row_cursor_def to_utc_def)
  then show ?thesis
    using cursor_round_trip [OF assms(2) _ _ cursor] in_calendar_utc [OF d(1)] d
    by (simp add: row_cursor_def)
qed

section \<open>Pages\<close>

lemma filter_eq_cong: "(\<And>x. P x \<longleftrightarrow> Q x \<and> S x) \<Longrightarrow> filter P xs = filter S (filter Q xs)"
  by (induction xs) auto

lemma newest_first_filter: "newest_first (filter P rows) = filter P (newest_first rows)"
  by (simp add: newest_first_def filter_sort flip: rev_filter)

lemma set_newest_first [simp]: "set (newest_first rows) = set rows"
  by (simp add: newest_first_def)

lemma newest_first_sorted:
  assumes "distinct (map row_event_id rows)"
  shows "sorted_wrt (\<lambda>a b. page_key b < page_key a) (newest_first rows)"
proof -
  let ?s = "sort_key page_key rows"
  have "distinct (map row_event_id ?s)" using assms
    by (metis distinct_map distinct_sort set_sort)
  then have d: "distinct (map page_key ?s)"
    by (auto simp: distinct_map inj_on_def page_key_def)
  have "sorted (map page_key ?s)" by simp
  with d have "sorted_wrt (<) (map page_key ?s)" by (simp add: strict_sorted_iff)
  then show ?thesis by (simp add: newest_first_def sorted_wrt_rev sorted_wrt_map)
qed

lemma filter_after:
  assumes "sorted_wrt (\<lambda>a b. page_key b < page_key a) L" and "k < length L"
  shows "filter (\<lambda>r. page_key r < page_key (L ! k)) L = drop (Suc k) L"
  using assms
proof (induction L arbitrary: k)
  case (Cons r L)
  show ?case
  proof (cases k)
    case 0
    with Cons.prems show ?thesis by (auto intro: filter_True)
  next
    case (Suc j)
    with Cons.prems have "page_key (L ! j) < page_key r" by simp
    with Cons Suc show ?thesis by (simp add: not_less_iff_gr_or_eq)
  qed
qed simp

text \<open>The filter of the page that follows the one ending with a row.\<close>

definition after_row :: "event_filter \<Rightarrow> event_cursor \<Rightarrow> event_filter" where
  "after_row f c = f\<lparr>ef_cursor := Some c, ef_before := None\<rparr>"

lemma next_selection:
  assumes L: "L = newest_first (filter (row_selected f) rows)"
    and d: "distinct (map row_event_id rows)" and k: "k < length L"
    and c: "isoformat (cu_timestamp c) = row_timestamp (L ! k)" "cu_event_id c = row_event_id (L ! k)"
  shows "newest_first (filter (row_selected (after_row f c)) rows) = drop (Suc k) L"
proof -
  have "L ! k \<in> set L" using k by simp
  then have sel: "row_selected f (L ! k)" by (simp add: L)
  have "row_selected (after_row f c) r \<longleftrightarrow> row_selected f r \<and> page_key r < page_key (L ! k)" for r
    using sel c unfolding row_selected_def after_row_def page_key_def
    by (auto split: option.splits)
  then have "filter (row_selected (after_row f c)) rows =
      filter (\<lambda>r. page_key r < page_key (L ! k)) (filter (row_selected f) rows)"
    by (intro filter_eq_cong)
  moreover have "sorted_wrt (\<lambda>a b. page_key b < page_key a) L"
    unfolding L by (rule newest_first_sorted) (simp add: d distinct_map_filter)
  ultimately show ?thesis
    using filter_after [OF _ k] by (simp only: newest_first_filter L)
qed

text \<open>
  A client that follows \<open>next_cursor\<close> until there is none, for at most \<open>n\<close> pages. A cursor cannot
  be combined with \<open>before\<close>, so the later queries leave it out.
\<close>

fun follow_pages ::
  "nat \<Rightarrow> readers \<Rightarrow> query_service \<Rightarrow> event_query \<Rightarrow> (sqlite_sink, event_page list) prog" where
  "follow_pages 0 R q e = ret []"
| "follow_pages (Suc n) R q e =
     bnd (query_list_events R q e) (\<lambda>page.
       case pg_next_cursor page of
         None \<Rightarrow> ret [page]
       | Some c \<Rightarrow>
           bnd (follow_pages n R q (e\<lparr>eq_cursor := Some c, eq_before := None\<rparr>)) (\<lambda>pages.
             ret (page # pages)))"

text \<open>What the client is after: every matching event, the newest first.\<close>

definition matching_events :: "event_filter \<Rightarrow> audit_row list \<Rightarrow> audit_event list" where
  "matching_events f rows = map (row_event) (newest_first (filter (row_selected f) rows))"

lemma next_query_checked:
  assumes "checked_query R q e = Inr f" "decode_cursor R c = Inr cu"
  shows "checked_query R q (e\<lparr>eq_cursor := Some c, eq_before := None\<rparr>) = Inr (after_row f cu)"
  using assms
  by (auto simp: checked_query_def after_row_def normalize_time_def chain_def
      split: if_splits sum.splits option.splits)

lemma list_events_run:
  assumes "\<forall>row\<in>set (sq_rows db). readable_row row" "sq_faults db = []"
    and "checked_query R q e = Inr f"
  shows "query_list_events R q e db =
    (page_of (nat (eq_limit e)) (take (Suc (nat (eq_limit e))) (matching_events f (sq_rows db))), db)"
proof -
  have "\<forall>row\<in>set (select_rows f (nat (eq_limit e) + 1) (sq_rows db)). readable_row row"
    using assms(1) by (auto simp: select_rows_def dest!: in_set_takeD)
  then show ?thesis using assms(2,3)
    by (simp add: query_list_events_def reader_list_events_def read_connection_def readable_def
        events_of_readable_rows matching_events_def select_rows_def take_map raise_or_return_def
        prog_simps split: sum.split)
qed

lemma page_of_take:
  assumes "0 < n"
  shows "page_of n (take (Suc n) evs) =
    (if n < length evs
     then chain (encode_cursor \<lparr>cu_timestamp = ev_timestamp (evs ! (n - 1)),
                                cu_event_id = ev_event_id (evs ! (n - 1))\<rparr>) (\<lambda>c.
            Inr \<lparr>pg_items = take n evs, pg_next_cursor = Some c\<rparr>)
     else Inr \<lparr>pg_items = evs, pg_next_cursor = None\<rparr>)"
  using assms by (auto simp: page_of_def Let_def last_conv_nth min_def)

lemma next_page:
  assumes rows: "\<forall>row\<in>set (sq_rows db). readable_row row" "distinct (map row_event_id (sq_rows db))"
    and db: "sq_faults db = []" and J: "0 < jp_depth (rd_json R)" and f: "checked_query R q e = Inr f"
    and n: "n = nat (eq_limit e)" and long: "n < length (matching_events f (sq_rows db))"
  shows "\<exists>c g. query_list_events R q e db =
      (Inr \<lparr>pg_items = take n (matching_events f (sq_rows db)), pg_next_cursor = Some c\<rparr>, db) \<and>
    checked_query R q (e\<lparr>eq_cursor := Some c, eq_before := None\<rparr>) = Inr g \<and>
    matching_events g (sq_rows db) = drop n (matching_events f (sq_rows db))"
proof -
  define L where "L = newest_first (filter (row_selected f) (sq_rows db))"
  have n0: "0 < n" using f n by (auto simp: checked_query_def split: if_splits)
  then have k: "n - 1 < length L" using long by (simp add: matching_events_def L_def)
  have "L ! (n - 1) \<in> set (sq_rows db)" using k nth_mem [of "n - 1" L] by (auto simp: L_def)
  then obtain c cu where c: "encode_cursor (row_cursor (L ! (n - 1))) = Inr c"
    and cu: "decode_cursor R c = Inr cu"
      "isoformat (cu_timestamp cu) = row_timestamp (L ! (n - 1))"
      "cu_event_id cu = row_event_id (L ! (n - 1))"
    using decode_row_cursor [OF _ J] rows(1) by blast
  have "newest_first (filter (row_selected (after_row f cu)) (sq_rows db)) = drop n L"
    using next_selection [OF L_def rows(2) k cu(2,3)] n0 by simp
  moreover have "ev_event_id (row_event r) = row_event_id r" "ev_timestamp (row_event r) = row_time r" for r
    by (simp_all add: row_event_def)
  ultimately show ?thesis
    using next_query_checked [OF f cu(1)] list_events_run [OF rows(1) db f] n0 k long c
    by (intro exI [of _ c] exI [of _ "after_row f cu"])
      (simp add: page_of_take chain_def matching_events_def drop_map row_cursor_def flip: n L_def)
qed

text \<open>Each page holds the next \<open>limit\<close> events, until none is left.\<close>

lemma follow_pages_returns:
  assumes rows: "\<forall>row\<in>set (sq_rows db). readable_row row" "distinct (map row_event_id (sq_rows db))"
    and db: "sq_faults db = []" and J: "0 < jp_depth (rd_json R)" and f: "checked_query R q e = Inr f"
    and fuel: "length (matching_events f (sq_rows db)) < fuel"
  shows "\<exists>pages. follow_pages fuel R q e db = (Inr pages, db) \<and>
    concat (map pg_items pages) = matching_events f (sq_rows db) \<and>
    list_all (\<lambda>p. length (pg_items p) = nat (eq_limit e)) (butlast pages)"
  using f fuel
proof (induction fuel arbitrary: e f)
  case (Suc fuel)
  let ?E = "matching_events f (sq_rows db)" and ?n = "nat (eq_limit e)"
  have n0: "0 < ?n" using Suc.prems by (auto simp: checked_query_def split: if_splits)
  show ?case
  proof (cases "?n < length ?E")
    case False
    then show ?thesis
      using list_events_run [OF rows(1) db Suc.prems(1)] page_of_take [OF n0, of ?E]
      by (simp add: prog_simps)
  next
    case True
    obtain c g where page: "query_list_events R q e db =
          (Inr \<lparr>pg_items = take ?n ?E, pg_next_cursor = Some c\<rparr>, db)"
        and c: "checked_query R q (e\<lparr>eq_cursor := Some c, eq_before := None\<rparr>) = Inr g"
        "matching_events g (sq_rows db) = drop ?n ?E"
      using next_page [OF rows db J Suc.prems(1) refl True] by blast
    have "length (matching_events g (sq_rows db)) < fuel" using c(2) Suc.prems(2) n0 True by simp
    from Suc.IH [OF c(1) this] obtain pages where
      "follow_pages fuel R q (e\<lparr>eq_cursor := Some c, eq_before := None\<rparr>) db = (Inr pages, db)"
      "concat (map pg_items pages) = drop ?n ?E"
      "list_all (\<lambda>p. length (pg_items p) = ?n) (butlast pages)"
      using c(2) by auto
    then show ?thesis using page True by (simp add: prog_simps)
  qed
qed simp

text \<open>
  A cursor of a time that UTC cannot express passes the checks and raises \<open>OverflowError\<close>, which
  is no \<open>InvalidQueryError\<close>.
\<close>

lemma cursor_may_overflow:
  assumes "chain (b64_decode (value @ padding value)) (json_loads_bytes (rd_json R)) = Inr (JList [JStr a, JStr b])"
    and "read_time R a = Some d" "aware d" "\<not> in_calendar (astimezone_utc d)" "b \<noteq> []"
  shows "decode_cursor R value = Inl date_overflow"
  using assms by (simp add: decode_cursor_def decode_raw_def to_utc_def chain_def)

text \<open>
  A cursor that nests more deeply than the recursion limit raises \<open>RecursionError\<close>, which is neither
  a \<open>ValueError\<close> nor a \<open>TypeError\<close>.
\<close>

lemma nested_cursor_raises:
  assumes "b64_decode (value @ padding value) = Inr (replicate (Suc (jp_depth (rd_json R))) 91)"
  shows "decode_cursor R value = Inl recursion_error"
proof -
  have "list_all (\<lambda>b. 0 < b \<and> b < 128) (replicate n (91 :: nat))" for n
    by (simp add: list_all_iff)
  moreover have "char_of (91 :: nat) = CHR ''[''" by code_simp
  ultimately have "json_loads_bytes (rd_json R) (replicate (Suc (jp_depth (rd_json R))) 91) = Inl recursion_error"
    unfolding json_loads_bytes_def using json_loads_nested [of "rd_json R"]
    by (simp only: map_replicate if_True)
  then show ?thesis
    using assms by (simp add: decode_cursor_def recursion_error_def)
qed

text \<open>A query that keeps \<open>before\<close> while it follows a cursor is refused.\<close>

lemma retaining_before_is_refused:
  assumes "0 < eq_limit e" "eq_limit e \<le> qs_maximum_event_page_size q"
    and "eq_cursor e = Some c" "eq_before e = Some d"
  shows "checked_query R q e = Inl (InvalidQueryError ''cursor and before cannot be combined'')"
  using assms by (simp add: checked_query_def)

text \<open>A freshness threshold that is not a number is accepted, and no snapshot is ever stale.\<close>

lemma nan_threshold_never_stale:
  "new_query_service m NaN = Inr q \<Longrightarrow> \<not> he_stale (health_of q p)"
  by (auto simp: new_query_service_def health_of_def Let_def float_le_def split: if_splits)

end
