(* ===== verification/Query_Pages.thy ===== *)
theory Query_Pages
  imports Query_Service
begin

text \<open>
  What the pages of \<open>ReadOnlyQueryService.list_events\<close> hold, in terms of the events and their
  times: the texts that the SQL compares sort like the times they stand for.
\<close>

section \<open>The audit log\<close>

text \<open>A database whose rows can be read.\<close>

definition readable_log :: "audit_row list \<Rightarrow> bool" where
  "readable_log rows \<longleftrightarrow>
     distinct (map row_event_id rows) \<and>
     (\<forall>row\<in>set rows. readable_row row)"

text \<open>The events a filter without a cursor asks for.\<close>

definition event_selected :: "event_filter \<Rightarrow> audit_event \<Rightarrow> bool" where
  "event_selected f ev \<longleftrightarrow>
     (case ef_before f of None \<Rightarrow> True | Some d \<Rightarrow> instant_us (ev_timestamp ev) < instant_us d) \<and>
     (case ef_after f of None \<Rightarrow> True | Some d \<Rightarrow> instant_us d < instant_us (ev_timestamp ev)) \<and>
     (case ef_event_type f of None \<Rightarrow> True | Some t \<Rightarrow> ev_event_type ev = t) \<and>
     (case ef_severity f of None \<Rightarrow> True | Some v \<Rightarrow> ev_severity ev = v)"

definition times_in_calendar :: "event_filter \<Rightarrow> bool" where
  "times_in_calendar f \<longleftrightarrow>
     (case ef_before f of None \<Rightarrow> True | Some d \<Rightarrow> in_calendar d) \<and>
     (case ef_after f of None \<Rightarrow> True | Some d \<Rightarrow> in_calendar d)"

lemma isoformat_order:
  assumes "in_calendar d" "in_calendar e"
  shows "isoformat d < isoformat e \<longleftrightarrow> instant_us d < instant_us e"
proof -
  have "instant_us d = wall_us d" "instant_us e = wall_us e"
    using assms by (simp_all add: in_calendar_def instant_us_def)
  moreover have "d = e" if "wall_us d = wall_us e"
    using assms that by (cases d; cases e) (simp add: in_calendar_def)
  ultimately show ?thesis
    using isoformat_less [OF assms] isoformat_less [OF assms(2,1)] by (metis linorder_cases order.asym)
qed

lemma row_text:
  assumes "readable_row row"
  shows "row_timestamp row = isoformat (astimezone_utc (ev_timestamp (row_event row)))"
    and "in_calendar (astimezone_utc (ev_timestamp (row_event row)))"
  using assms by (simp_all add: readable_row_def dated_row_def row_event_def in_calendar_utc)

lemma row_time_order:
  assumes "readable_log rows" "a \<in> set rows" "in_calendar d"
  shows "row_timestamp a < isoformat d \<longleftrightarrow> instant_us (ev_timestamp (row_event a)) < instant_us d"
    and "isoformat d < row_timestamp a \<longleftrightarrow> instant_us d < instant_us (ev_timestamp (row_event a))"
proof -
  let ?t = "astimezone_utc (ev_timestamp (row_event a))"
  have "in_calendar ?t" "row_timestamp a = isoformat ?t"
    using assms row_text by (auto simp: readable_log_def)
  then show "row_timestamp a < isoformat d \<longleftrightarrow> instant_us (ev_timestamp (row_event a)) < instant_us d"
    "isoformat d < row_timestamp a \<longleftrightarrow> instant_us d < instant_us (ev_timestamp (row_event a))"
    using isoformat_order [of ?t d] isoformat_order [of d ?t] assms(3) by simp_all
qed

lemma row_selected_event:
  assumes "readable_log rows" "row \<in> set rows" "times_in_calendar f" "ef_cursor f = None"
  shows "row_selected f row \<longleftrightarrow> event_selected f (row_event row)"
proof -
  have "readable_row row" using assms by (simp add: readable_log_def)
  then obtain t v where "event_type_of (row_event_type row) = Some t"
      "severity_of (row_severity row) = Some v"
    by (auto simp: readable_row_def typed_row_def)
  then have "row_event_type row = event_type_value t'  \<longleftrightarrow> ev_event_type (row_event row) = t'"
    "row_severity row = severity_value v' \<longleftrightarrow> ev_severity (row_event row) = v'" for t' v'
    using event_type_of_value severity_of_value
    by (auto simp: row_event_def dest: event_type_of_Some severity_of_Some)
  then show ?thesis
    using assms row_time_order [OF assms(1,2)]
    by (auto simp: row_selected_def event_selected_def times_in_calendar_def split: option.splits)
qed

lemma matching_events_listed:
  assumes "readable_log rows" "times_in_calendar f" "ef_cursor f = None"
  shows "set (matching_events f rows) = Set.filter (event_selected f) (row_event ` set rows)"
    and "distinct (map ev_event_id (matching_events f rows))"
    and "sorted_wrt (\<lambda>a b. instant_us (ev_timestamp b) \<le> instant_us (ev_timestamp a))
      (matching_events f rows)"
proof -
  let ?L = "newest_first (filter (row_selected f) rows)"
  show "set (matching_events f rows) = Set.filter (event_selected f) (row_event ` set rows)"
    using row_selected_event [OF assms(1) _ assms(2,3)] by (auto simp: matching_events_def)
  have d: "distinct (map row_event_id (filter (row_selected f) rows))"
    using assms(1) by (simp add: readable_log_def distinct_map_filter)
  have "distinct (map row_event_id ?L)"
    using newest_first_sorted [OF d] d unfolding newest_first_def
    by (metis distinct_map distinct_rev distinct_sort set_rev set_sort)
  then show "distinct (map ev_event_id (matching_events f rows))"
    by (simp add: matching_events_def row_event_def comp_def)
  have "instant_us (ev_timestamp (row_event b)) \<le> instant_us (ev_timestamp (row_event a))"
    if "a \<in> set ?L" "b \<in> set ?L" "page_key b < page_key a" for a b
  proof -
    let ?t = "astimezone_utc (ev_timestamp (row_event b))"
    have le: "\<not> row_timestamp a < row_timestamp b" using that(3) by (auto simp: page_key_def)
    have mem: "a \<in> set rows" "b \<in> set rows" using that(1,2) by auto
    then have t: "in_calendar ?t" "row_timestamp b = isoformat ?t"
      using assms(1) row_text [of b] by (auto simp: readable_log_def simp del: astimezone_utc_idem)
    show ?thesis
      using le row_time_order(1) [OF assms(1) mem(1) t(1)] unfolding t(2) by simp
  qed
  then have "sorted_wrt (\<lambda>a b. instant_us (ev_timestamp (row_event b))
      \<le> instant_us (ev_timestamp (row_event a))) ?L"
    by (rule sorted_wrt_mono_rel [OF _ newest_first_sorted [OF d]])
  then show "sorted_wrt (\<lambda>a b. instant_us (ev_timestamp b) \<le> instant_us (ev_timestamp a))
      (matching_events f rows)"
    by (simp add: matching_events_def sorted_wrt_map)
qed

section \<open>Following the cursors\<close>

lemma checked_query_cursor:
  "checked_query R q e = Inr f \<Longrightarrow> eq_cursor e = None \<Longrightarrow> ef_cursor f = None"
  by (auto simp: checked_query_def chain_def split: if_splits sum.splits option.splits)

lemma checked_query_times: "checked_query R q e = Inr f \<Longrightarrow> times_in_calendar f"
  by (auto simp: checked_query_def chain_def normalize_time_def to_utc_def times_in_calendar_def
      split: if_splits sum.splits option.splits)

lemma pages_listed:
  assumes "readable_log (sq_rows db)" and "sq_faults db = []" and "0 < jp_depth (rd_json R)"
    and "checked_query R q e = Inr f" and "eq_cursor e = None"
    and "length (sq_rows db) < n"
  shows "\<exists>pages evs. follow_pages n R q e db = (Inr pages, db) \<and> evs = concat (map pg_items pages) \<and>
    set evs = Set.filter (event_selected f) (row_event ` set (sq_rows db)) \<and>
    distinct (map ev_event_id evs) \<and>
    sorted_wrt (\<lambda>a b. instant_us (ev_timestamp b) \<le> instant_us (ev_timestamp a)) evs \<and>
    list_all (\<lambda>p. length (pg_items p) = nat (eq_limit e)) (butlast pages)"
proof -
  let ?evs = "matching_events f (sq_rows db)"
  have "length ?evs < n"
    using le_less_trans [OF length_filter_le [of "row_selected f"] assms(6)]
    by (simp add: matching_events_def newest_first_def)
  moreover have "\<forall>row\<in>set (sq_rows db). readable_row row" "distinct (map row_event_id (sq_rows db))"
    using assms(1) by (simp_all add: readable_log_def)
  ultimately obtain pages where "follow_pages n R q e db = (Inr pages, db)"
      "concat (map pg_items pages) = ?evs"
      "list_all (\<lambda>p. length (pg_items p) = nat (eq_limit e)) (butlast pages)"
    using follow_pages_returns [OF _ _ assms(2,3,4)] by blast
  then show ?thesis
    using matching_events_listed
      [OF assms(1) checked_query_times [OF assms(4)] checked_query_cursor [OF assms(4,5)]]
    by (intro exI [of _ pages] exI [of _ ?evs]) simp
qed

text \<open>
  C10. A client that follows \<open>next_cursor\<close> from a query without a cursor gets every event of the
  log that matches the query exactly once, the newest first, on full pages but for the last.
\<close>

theorem pages_list_every_event_once:
  assumes "readable_log (sq_rows db)" and "sq_faults db = []" and "0 < jp_depth (rd_json R)"
    and "checked_query R q e = Inr f" and "eq_cursor e = None"
    and "length (sq_rows db) < n"
  shows "\<exists>pages evs. follow_pages n R q e db = (Inr pages, db) \<and> evs = concat (map pg_items pages) \<and>
    set evs = Set.filter (event_selected f) (row_event ` set (sq_rows db)) \<and>
    distinct (map ev_event_id evs) \<and>
    sorted_wrt (\<lambda>a b. instant_us (ev_timestamp b) \<le> instant_us (ev_timestamp a)) evs \<and>
    list_all (\<lambda>p. length (pg_items p) = nat (eq_limit e)) (butlast pages)"
  by (rule pages_listed [OF assms])

section \<open>The rows the sink writes\<close>

lemma private_sorted_object: "private_correlation (sorted_object c) \<longleftrightarrow> private_correlation c"
proof -
  have "reason_allowed (map_option json_sorted r) = reason_allowed r" for r
    by (auto simp: reason_allowed_def split: option.splits json.splits)
  moreover have "fst ` set (sorted_object c) = fst ` set c"
    by (force simp: sorted_object_def)
  ultimately show ?thesis
    by (simp add: private_correlation_def sorted_object_def map_of_sort_key map_of_json_sorted)
qed

lemma typed_row_of_event: "event_ok ev \<Longrightarrow> typed_row (row_of_event ev)"
  by (simp add: typed_row_def row_of_event_def private_sorted_object event_ok_def
      event_type_of_value severity_of_value)

lemma row_time_of_event: "in_calendar (ev_timestamp ev) \<Longrightarrow> row_time (row_of_event ev) = ev_timestamp ev"
  by (simp add: row_time_def row_of_event_def iso_round_trip in_calendar_representable)

lemma dated_row_of_event:
  "ev_event_id ev \<noteq> [] \<Longrightarrow> in_calendar (ev_timestamp ev) \<Longrightarrow> dated_row (row_of_event ev)"
  using row_time_of_event [of ev] by (simp add: dated_row_def) (simp add: row_of_event_def)

text \<open>
  Every row of an event with an identifier and a UTC time is readable, and is read back as the
  event with its correlation sorted.
\<close>

lemma sink_rows_are_readable:
  assumes "event_ok ev" "ev_event_id ev \<noteq> []" "in_calendar (ev_timestamp ev)"
  shows "readable_row (row_of_event ev)"
    and "row_event (row_of_event ev) = ev\<lparr>ev_correlation := sorted_object (ev_correlation ev)\<rparr>"
  using assms typed_row_of_event [of ev] dated_row_of_event [of ev] row_time_of_event [of ev]
  by (simp_all add: readable_row_def row_event_def)
    (simp add: row_of_event_def event_type_of_value severity_of_value)

section \<open>A log\<close>

definition sample_event :: "int \<Rightarrow> string \<Rightarrow> audit_event" where
  "sample_event second event_id =
     \<lparr>ev_event_type = CREDENTIAL_DENIED, ev_severity = SevWarning,
      ev_timestamp = DateTime (739616 * us_per_day + second * us_per_second div 2) (Some 0),
      ev_correlation = [], ev_reader_state = None, ev_controller_state = Some ''ready'',
      ev_delivery_status = None, ev_event_id = event_id\<rparr>"

definition sample_log :: sqlite_sink where
  "sample_log =
     \<lparr>sq_rows = map row_of_event
        [sample_event 1 ''b'', sample_event 0 ''c'', sample_event 1 ''a'', sample_event 4 ''d''],
      sq_faults = []\<rparr>"

definition sample_readers :: readers where
  "sample_readers = \<lparr>rd_other_iso = (\<lambda>_. None), rd_json = sample_json\<rparr>"

definition sample_query :: event_query where
  "sample_query =
     \<lparr>eq_limit = 1, eq_cursor = None,
      eq_before = Some (DateTime (739616 * us_per_day + us_per_second) (Some 0)), eq_after = None,
      eq_event_type = Some CREDENTIAL_DENIED, eq_severity = None\<rparr>"

definition sample_filter :: event_filter where
  "sample_filter =
     \<lparr>ef_cursor = None, ef_before = eq_before sample_query, ef_after = None,
      ef_event_type = Some CREDENTIAL_DENIED, ef_severity = None\<rparr>"

definition sample_service :: query_service where
  "sample_service = \<lparr>qs_maximum_event_page_size = 100, qs_stale_after = Finite 10\<rparr>"

lemma sample_event_readable: "event_id \<noteq> [] \<Longrightarrow> in_calendar (ev_timestamp (sample_event n event_id)) \<Longrightarrow>
  readable_row (row_of_event (sample_event n event_id))"
  by (rule sink_rows_are_readable)
    (simp_all add: sample_event_def event_ok_def aware_def private_correlation_def reason_allowed_def)

lemma sample_log_readable: "readable_log (sq_rows sample_log)"
proof -
  have "in_calendar (ev_timestamp (sample_event 1 e))" "in_calendar (ev_timestamp (sample_event 0 e))"
    "in_calendar (ev_timestamp (sample_event 4 e))" for e
    by (simp_all add: sample_event_def in_calendar_def calendar_end_def us_per_day_def us_per_second_def)
  then show ?thesis
    by (simp add: readable_log_def sample_log_def sample_event_readable)
      (simp add: sample_event_def row_of_event_def)
qed

lemma pages_list_every_event_once_witness:
  "\<exists>pages evs. follow_pages 5 sample_readers sample_service sample_query sample_log =
      (Inr pages, sample_log) \<and> evs = concat (map pg_items pages) \<and>
    set evs = Set.filter (event_selected sample_filter)
      (row_event ` set (sq_rows sample_log)) \<and>
    distinct (map ev_event_id evs) \<and>
    sorted_wrt (\<lambda>a b. instant_us (ev_timestamp b) \<le> instant_us (ev_timestamp a)) evs \<and>
    list_all (\<lambda>p. length (pg_items p) = nat (eq_limit sample_query)) (butlast pages)"
proof (rule pages_list_every_event_once [OF sample_log_readable])
  show "sq_faults sample_log = []" by (simp add: sample_log_def)
  show "0 < jp_depth (rd_json sample_readers)" by (simp add: sample_readers_def sample_json_def)
  show "checked_query sample_readers sample_service sample_query = Inr sample_filter" by code_simp
  show "eq_cursor sample_query = None" by (simp add: sample_query_def)
  show "length (sq_rows sample_log) < 5" by (simp add: sample_log_def)
qed

end
