(* ===== verification/Http_Api.thy ===== *)
theory Http_Api
  imports Query_Service
begin

text \<open>
  \<open>adapters/http/api.py\<close> and \<open>models.py\<close>: the endpoints as functions of their validated arguments.
  FastAPI and pydantic are not part of the repository. Routing, the parsing of query parameters
  (\<open>limit >= 1\<close> among them) and the turning of a response into bytes are left out; the validation
  of a response model is the parameter \<open>model_validate\<close>, and an exception class that has a handler
  is answered by that handler.
\<close>

section \<open>Responses\<close>

record http_response =
  hr_status_code :: int
  hr_content :: json

text \<open>The models of \<open>models.py\<close> that are filled from dictionaries.\<close>

datatype http_model = StatusResponse | EventResponse

type_synonym model_validate = "http_model \<Rightarrow> (string \<times> json) list \<Rightarrow> exn + json"

text \<open>
  The fields of the models, in their order, with their types. A union with \<open>None\<close> is
  \<open>Nullable\<close>; an enumeration is the list of its values; \<open>extra="forbid"\<close> and the absence of
  defaults make the fields the only ones and all of them required.
\<close>

datatype field_type =
    TextField
  | TimeField
  | FloatField
  | IntField
  | BoolField
  | EnumField "string list"
  | ScalarsField
  | Nullable field_type

definition controller_state_field :: field_type where
  "controller_state_field =
     EnumField (map controller_state_value
       [INITIALIZING, READY, RELEASED, FAULTED, SHUTTING_DOWN, STOPPED])"

definition reader_health_field :: field_type where
  "reader_health_field =
     EnumField (map reader_health_value
       [HealthConnecting, HealthReady, HealthDegraded, HealthStopped])"

fun model_fields :: "http_model \<Rightarrow> (string \<times> field_type) list" where
  "model_fields StatusResponse =
     [(''controller_state'', controller_state_field),
      (''reader_connected'', BoolField),
      (''reader_health'', reader_health_field),
      (''snapshot_published_at'', TimeField),
      (''snapshot_age_seconds'', FloatField),
      (''last_credential_processed_at'', Nullable TimeField),
      (''last_reader_record_age_seconds'', Nullable FloatField),
      (''release_active'', BoolField),
      (''release_deadline_at'', Nullable TimeField),
      (''release_remaining_seconds'', Nullable FloatField),
      (''configured_release_seconds'', FloatField),
      (''last_relay_command'',
        Nullable (EnumField (map relay_word_value [CommandReleased, CommandSecured]))),
      (''authorization_loaded'', BoolField),
      (''authorization_record_count'', IntField),
      (''authorization_source_revision'', Nullable TextField),
      (''authorization_source_modified_at'', Nullable TimeField),
      (''last_audit_event_at'', Nullable TimeField),
      (''pending_notification_count'', IntField),
      (''application_started_at'', TimeField),
      (''software_version'', TextField)]"
| "model_fields EventResponse =
     [(''event_id'', TextField),
      (''timestamp'', TimeField),
      (''event_type'', EnumField (map event_type_value all_event_types)),
      (''severity'',
        EnumField (map severity_value [SevDebug, SevInfo, SevWarning, SevCritical, SevError])),
      (''correlation'', ScalarsField),
      (''reader_state'', Nullable TextField),
      (''controller_state'', Nullable TextField),
      (''delivery_status'', Nullable TextField)]"

definition is_scalar :: "json \<Rightarrow> bool" where
  "is_scalar v = (case v of JList _ \<Rightarrow> False | JObj _ \<Rightarrow> False | _ \<Rightarrow> True)"

text \<open>
  The values a field accepts without conversion; whether a text is a time is the parameter
  \<open>is_time\<close>.
\<close>

fun fits :: "(string \<Rightarrow> bool) \<Rightarrow> field_type \<Rightarrow> json \<Rightarrow> bool" where
  "fits is_time TextField v = (case v of JStr _ \<Rightarrow> True | _ \<Rightarrow> False)"
| "fits is_time TimeField v = (case v of JStr s \<Rightarrow> is_time s | _ \<Rightarrow> False)"
| "fits is_time FloatField v = (case v of JFloat _ \<Rightarrow> True | _ \<Rightarrow> False)"
| "fits is_time IntField v = (case v of JInt _ \<Rightarrow> True | _ \<Rightarrow> False)"
| "fits is_time BoolField v = (case v of JBool _ \<Rightarrow> True | _ \<Rightarrow> False)"
| "fits is_time (EnumField values) v = (case v of JStr s \<Rightarrow> s \<in> set values | _ \<Rightarrow> False)"
| "fits is_time ScalarsField v = (case v of JObj kvs \<Rightarrow> list_all (is_scalar \<circ> snd) kvs | _ \<Rightarrow> False)"
| "fits is_time (Nullable t) v = (v = JNull \<or> fits is_time t v)"

definition fits_model :: "(string \<Rightarrow> bool) \<Rightarrow> http_model \<Rightarrow> (string \<times> json) list \<Rightarrow> bool" where
  "fits_model is_time m d \<longleftrightarrow>
     list_all2 (\<lambda>(name, t) (key, v). name = key \<and> fits is_time t v) (model_fields m) d"

definition detail :: "int \<Rightarrow> string \<Rightarrow> http_response" where
  "detail code text = \<lparr>hr_status_code = code, hr_content = JObj [(''detail'', JStr text)]\<rparr>"

definition ok_response :: "json \<Rightarrow> http_response" where
  "ok_response content = \<lparr>hr_status_code = 200, hr_content = content\<rparr>"

section \<open>Exception handlers\<close>

fun has_handler :: "exn \<Rightarrow> bool" where
  "has_handler (QueryUnavailableError _) = True"
| "has_handler (SnapshotUnavailableError _) = True"
| "has_handler (InvalidQueryError _) = True"
| "has_handler _ = False"

fun exception_response :: "exn \<Rightarrow> http_response" where
  "exception_response (QueryUnavailableError _) = detail 503 ''query service unavailable''"
| "exception_response (SnapshotUnavailableError _) = detail 503 ''operational status unavailable''"
| "exception_response (InvalidQueryError message) = detail 422 message"
| "exception_response _ = detail 500 ''Internal Server Error''"

definition handled :: "('s, http_response) prog \<Rightarrow> ('s, http_response) prog" where
  "handled endpoint = try_except has_handler endpoint (\<lambda>e. ret (exception_response e))"

section \<open>Endpoints\<close>

text \<open>\<open>HealthResponse\<close> is built from values of its field types.\<close>

definition health_content :: "health_snapshot \<Rightarrow> json" where
  "health_content h =
     JObj [(''status'', JStr (he_status h)),
           (''controller_state'',
             json_option (map_option controller_state_value (he_controller_state h))),
           (''reader_health'', json_option (map_option reader_health_value (he_reader_health h))),
           (''operational_snapshot_stale'', JBool (he_stale h))]"

definition get_health ::
  "'s status_sources \<Rightarrow> status_service \<Rightarrow> query_service \<Rightarrow> ('s, http_response) prog" where
  "get_health S service q =
     bnd (query_health S service q) (\<lambda>h.
       ret \<lparr>hr_status_code = (if healthy h then 200 else 503), hr_content = health_content h\<rparr>)"

definition get_status ::
  "model_validate \<Rightarrow> 's status_sources \<Rightarrow> status_service \<Rightarrow> ('s, http_response) prog" where
  "get_status M S service =
     bnd (query_status S service) (\<lambda>p.
     bnd (raise_or_return (M StatusResponse (status_dict p))) (\<lambda>content.
       ret (ok_response content)))"

fun validate_items :: "model_validate \<Rightarrow> audit_event list \<Rightarrow> exn + json list" where
  "validate_items M [] = Inr []"
| "validate_items M (ev # evs) =
     chain (M EventResponse (as_dict ev)) (\<lambda>x. map_sum id ((#) x) (validate_items M evs))"

text \<open>The query of \<open>GET /events\<close>, whose limit may be left out.\<close>

definition resolved_limit :: "query_service \<Rightarrow> int option \<Rightarrow> int" where
  "resolved_limit q limit =
     (case limit of None \<Rightarrow> min 50 (qs_maximum_event_page_size q) | Some n \<Rightarrow> n)"

definition get_events ::
  "model_validate \<Rightarrow> readers \<Rightarrow> query_service \<Rightarrow> int option \<Rightarrow> event_query \<Rightarrow>
   (sqlite_sink, http_response) prog" where
  "get_events M R q limit e =
     (let n = resolved_limit q limit
      in if qs_maximum_event_page_size q < n
         then ret (detail 422 (''limit must be between 1 and '' @
                               decimal (nat (qs_maximum_event_page_size q))))
         else
           bnd (query_list_events R q (e\<lparr>eq_limit := n\<rparr>)) (\<lambda>page.
           bnd (raise_or_return (validate_items M (pg_items page))) (\<lambda>items.
             ret (ok_response (JObj [(''items'', JList items),
                                     (''next_cursor'', json_option (pg_next_cursor page))])))))"

definition get_event ::
  "model_validate \<Rightarrow> readers \<Rightarrow> string \<Rightarrow> (sqlite_sink, http_response) prog" where
  "get_event M R event_id =
     bnd (query_get_event R event_id) (\<lambda>found.
       case found of
         None \<Rightarrow> ret (detail 404 ''event not found'')
       | Some ev \<Rightarrow>
           bnd (raise_or_return (M EventResponse (as_dict ev))) (\<lambda>content.
             ret (ok_response content)))"

section \<open>What the endpoints answer\<close>

text \<open>
  The dictionaries of the two snapshots have exactly the fields of their models, with fitting
  values.
\<close>

lemma controller_state_fits [simp]: "fits T controller_state_field (JStr (controller_state_value s))"
  by (cases s) (simp_all add: controller_state_field_def)

lemma reader_health_fits [simp]: "fits T reader_health_field (JStr (reader_health_value s))"
  by (cases s) (simp_all add: reader_health_field_def)

lemma nullable_fits [simp]:
  "(\<And>d. T (isoformat d)) \<Longrightarrow> fits T (Nullable TimeField) (json_time t)"
  "fits T (Nullable FloatField) (json_seconds f)"
  "fits T (Nullable TextField) (json_option x)"
  "fits T (Nullable (EnumField (map relay_word_value [CommandReleased, CommandSecured])))
     (json_option (map_option relay_word_value w))"
  by (simp_all add: json_time_def json_seconds_def json_option_def split: option.split)
    (metis (full_types) relay_word.exhaust relay_word_value.simps)

lemma status_fits: "(\<And>d. T (isoformat d)) \<Longrightarrow> fits_model T StatusResponse (status_dict p)"
  by (simp add: fits_model_def status_dict_def del: fits.simps(8) list.map)

lemma event_fits:
  assumes "\<And>d. T (isoformat d)" "list_all (is_scalar \<circ> snd) (ev_correlation ev)"
  shows "fits_model T EventResponse (as_dict ev)"
proof -
  have "event_type_value (ev_event_type ev) \<in> set (map event_type_value all_event_types)"
    by (cases "ev_event_type ev") (simp_all add: all_event_types_def)
  moreover have "severity_value (ev_severity ev) \<in>
      set (map severity_value [SevDebug, SevInfo, SevWarning, SevCritical, SevError])"
    by (cases "ev_severity ev") simp_all
  ultimately show ?thesis
    using assms by (simp add: fits_model_def as_dict_def del: fits.simps(8) list.map set_map)
qed

lemma handled_returns:
  "handled m s = (Inr r, t) \<longleftrightarrow>
     m s = (Inr r, t) \<or> (\<exists>e. m s = (Inl e, t) \<and> has_handler e \<and> r = exception_response e)"
  by (auto simp: handled_def try_except_def ret_def split: prod.splits sum.splits if_splits)

lemma handled_raises:
  "handled m s = (Inl e, t) \<longleftrightarrow> m s = (Inl e, t) \<and> \<not> has_handler e"
  by (auto simp: handled_def try_except_def ret_def split: prod.splits sum.splits if_splits)

text \<open>
  \<open>GET /health\<close> answers 200 exactly when a snapshot can be taken, it is fresh, the controller is
  ready or released, the reader is ready and authorizations are loaded.
\<close>

lemma health_answers_200:
  assumes "handled (get_health S service q) s = (Inr r, t)"
  shows "hr_status_code r = 200 \<longleftrightarrow>
    (\<exists>p. service_snapshot S service s = (Inr p, t) \<and>
       \<not> float_le (qs_stale_after q) (Finite (sp_age p)) \<and>
       sp_controller_state p \<in> {READY, RELEASED} \<and> sp_reader_health p = HealthReady \<and>
       sp_authorization_loaded p)"
proof -
  obtain x t' where run: "service_snapshot S service s = (x, t')" by fastforce
  have code: "hr_status_code (exception_response e) \<noteq> 200" for e
    by (cases e) (simp_all add: detail_def)
  show ?thesis
  proof (cases x)
    case (Inl e)
    with assms run code [of e] show ?thesis
      by (auto simp: handled_returns get_health_def query_health_def try_except_def bnd_def ret_def
          healthy_def split: if_splits)
  next
    case (Inr p)
    with assms run show ?thesis
      by (auto simp: handled_returns get_health_def query_health_def try_except_def bnd_def ret_def
          healthy_def health_of_def Let_def split: if_splits)
  qed
qed

text \<open>The API only reads: no request changes the rows of the audit log.\<close>

lemma read_connection_reads: "preserves sq_rows (read_connection f)"
  by (rule preservesI) (auto simp: read_connection_def Let_def split: list.splits option.splits)

lemma readable_reads: "preserves f (readable x)"
  by (cases x) (simp_all add: readable_def preserves_rules)

lemma get_events_reads: "preserves sq_rows (get_events M R q limit e)"
  unfolding get_events_def Let_def query_list_events_def reader_list_events_def
  by (intro preserves_rules read_connection_reads readable_reads)

lemma get_event_reads: "preserves sq_rows (get_event M R event_id)"
  unfolding get_event_def query_get_event_def reader_get_event_def
  by (auto intro!: preserves_rules read_connection_reads readable_reads split: option.split)

text \<open>A page that is too long, or a limit of the query service, is answered with 422.\<close>

lemma oversized_limit_answers_422:
  assumes "qs_maximum_event_page_size q < n"
  shows "get_events M R q (Some n) e db =
    (Inr (detail 422 (''limit must be between 1 and '' @
            decimal (nat (qs_maximum_event_page_size q)))), db)"
  using assms by (simp add: get_events_def resolved_limit_def ret_def)

lemma broken_cursor_answers_422:
  assumes "checked_query R q (e\<lparr>eq_limit := resolved_limit q limit\<rparr>) = Inl (InvalidQueryError m)"
    and "resolved_limit q limit \<le> qs_maximum_event_page_size q"
  shows "handled (get_events M R q limit e) db = (Inr (detail 422 m), db)"
  using assms
  by (auto simp: handled_def get_events_def Let_def query_list_events_def raise_or_return_def
      try_except_def bnd_def throw_def ret_def detail_def)

text \<open>
  Whatever the count of pending notifications raises, once the rest can be read, \<open>GET /health\<close> raises, unless it has a handler;
  a torn queue raises a \<open>JSONDecodeError\<close>, which has none, until the file is repaired by hand.
\<close>

lemma health_needs_the_queue:
  assumes "ss_operational S s = Some op" and "ss_now S s = (Inr now, s1)" and "aware now"
    and "later_by_option now (cs_release_remaining (os_controller op)) = Inr deadline"
    and "ss_latest_event_time S s1 = (Inr latest, s2)" and "ss_pending_count S s2 = (Inl e, t)"
    and "\<not> has_handler e"
  shows "handled (get_health S service q) s = (Inl e, t)"
proof -
  have "service_snapshot S service s = (Inl e, t)"
    using assms(1-6) by (simp add: service_snapshot_def Let_def prog_simps raise_or_return_def)
  moreover have "\<not> is_snapshot_unavailable e" using assms(7) by (cases e) simp_all
  ultimately show ?thesis
    using assms(7) by (simp add: handled_raises get_health_def query_health_def prog_simps)
qed

lemma torn_queue_has_no_handler:
  "fst (pending_count (torn_alarms [Some (OSError ''No space left on device'', 20)])) = Inl json_error"
  "\<not> has_handler json_error"
  by code_simp+

end
