(* ===== verification/Health_File.thy ===== *)
theory Health_File
  imports Json_Laws
begin

text \<open>
  \<open>adapters/health/file_reporter.py\<close>: the health file as its text, replaced as a whole on every
  report, so that whoever reads it finds a complete JSON object.
\<close>

text \<open>
  The text of the health file, if it exists, the temporary siblings left behind, and the outcome of
  the coming operating-system calls.
\<close>

record health_file =
  hf_text :: "string option"
  hf_temporaries :: nat
  hf_faults :: "exn option list"

definition health_call :: "(health_file, unit) prog" where
  "health_call h =
     (let h' = h\<lparr>hf_faults := tl (hf_faults h)\<rparr>
      in case hf_faults h of Some e # _ \<Rightarrow> (Inl e, h') | _ \<Rightarrow> (Inr (), h'))"

text \<open>\<open>{"status": status, "reported_at": ..., **details}\<close>.\<close>

definition health_payload :: "string \<Rightarrow> datetime \<Rightarrow> json_object \<Rightarrow> json_object" where
  "health_payload status reported_at details =
     foldl (\<lambda>d (k, v). AList.update k v d)
       [(''status'', JStr status), (''reported_at'', JStr (isoformat reported_at))] details"

text \<open>
  \<open>now\<close> is what the clock returns. The steps are: make the directory, check the time, and replace
  the file by the line that \<open>json.dump\<close> with sorted keys and \<open>write("\n")\<close> give.
\<close>

definition report_health ::
  "json_platform \<Rightarrow> exn + datetime \<Rightarrow> string \<Rightarrow> json_object \<Rightarrow> (health_file, unit) prog" where
  "report_health J now status details =
     sq health_call
       (case now of
          Inl e \<Rightarrow> throw e
        | Inr reported_at \<Rightarrow>
            if \<not> aware reported_at then throw (ValueError ''health timestamp must be timezone-aware'')
            else
              replace_staged health_call hf_temporaries_update
                (\<lambda>h. h\<lparr>hf_text :=
                   Some (json_line J (JObj (health_payload status reported_at details)))\<rparr>))"

section \<open>All or nothing\<close>

definition health_is :: "string option \<Rightarrow> nat \<Rightarrow> health_file \<Rightarrow> bool" where
  "health_is text temporaries h \<longleftrightarrow> hf_text h = text \<and> hf_temporaries h = temporaries"

lemma health_call_keeps: "keeps (health_is p n) health_call"
  by (rule keepsI)
    (auto simp: health_call_def health_is_def Let_def split: list.splits option.splits)

text \<open>
  The file is the old one or the complete new one, and the new one exactly when the report
  returns; at most one temporary sibling stays behind, and only after a failure.
\<close>

lemma report_all_or_nothing:
  "triple (health_is p n) (report_health J now status details)
     (\<lambda>_ h. \<exists>t. now = Inr t \<and> aware t \<and>
        health_is (Some (json_line J (JObj (health_payload status t details)))) n h)
     (\<lambda>_ h. health_is p n h \<or> health_is p (Suc n) h)"
proof -
  let ?E = "\<lambda>h. health_is p n h \<or> health_is p (Suc n) h"
  let ?text = "\<lambda>t. json_line J (JObj (health_payload status t details))"
  have call: "triple (health_is p n) health_call (\<lambda>_. health_is p n) (\<lambda>_. ?E)"
    by (rule triple_conseq [OF triple_keeps [OF health_call_keeps]]) auto
  have replace: "triple (health_is p n) (replace_staged health_call hf_temporaries_update
      (\<lambda>h. h\<lparr>hf_text := Some (?text t)\<rparr>)) (\<lambda>_. health_is (Some (?text t)) n) (\<lambda>_. ?E)" for t
    by (rule triple_replace_staged [OF health_call_keeps]) (simp_all add: health_is_def)
  show ?thesis
    unfolding report_health_def
    by (cases now; rule triple_sq [OF call])
      (auto intro!: triple_throw triple_if intro: triple_conseq [OF replace])
qed

section \<open>What is read back\<close>

lemma update_all_keys:
  "distinct (map fst d) \<Longrightarrow> distinct (map fst (foldl (\<lambda>d (k, v). AList.update k v d) d kvs))"
  by (induction kvs arbitrary: d) (auto simp: distinct_update)

lemma update_mem: "p \<in> set (AList.update k v d) \<Longrightarrow> p = (k, v) \<or> p \<in> set d"
  by (induction d) (auto split: if_splits)

lemma update_all_mem:
  "p \<in> set (foldl (\<lambda>d (k, v). AList.update k v d) d kvs) \<Longrightarrow> p \<in> set d \<or> p \<in> set kvs"
  by (induction kvs arbitrary: d) (auto dest: update_mem split: prod.splits)

lemma update_all_other:
  "k \<notin> fst ` set kvs \<Longrightarrow> map_of (foldl (\<lambda>d (k, v). AList.update k v d) d kvs) k = map_of d k"
  by (induction kvs arbitrary: d) (auto simp: update_conv')

lemma health_payload_rereadable:
  assumes "\<forall>v\<in>snd ` set details. rereadable d v"
  shows "rereadable (Suc d) (JObj (health_payload status t details))"
proof -
  have "distinct (map fst (health_payload status t details))"
    unfolding health_payload_def by (rule update_all_keys) simp
  moreover have "rereadable d v" if "(k, v) \<in> set (health_payload status t details)" for k v
    using that assms update_all_mem [of "(k, v)"] unfolding health_payload_def by force
  ultimately show ?thesis by (auto simp: list_all_iff)
qed

text \<open>
  C33. Whatever call fails, and whenever it is read, the health file holds a complete report: a
  report that raises leaves its text as it was, and after one that returns \<open>json.loads\<close> finds the
  payload with sorted keys, with the status and the time that were reported. The details are
  keyword arguments beside \<open>status\<close>, of values that can be read back.
\<close>

theorem health_file_is_complete:
  assumes "0 < jp_depth J" and "\<forall>v\<in>snd ` set details. rereadable (jp_depth J - 1) v"
    and "''status'' \<notin> fst ` set details" and "''reported_at'' \<notin> fst ` set details"
  shows "case report_health J now status details h of
      (Inl e, h') \<Rightarrow>
        hf_text h' = hf_text h \<and> hf_temporaries h' \<in> {hf_temporaries h, Suc (hf_temporaries h)}
    | (Inr u, h') \<Rightarrow>
        (\<exists>t text payload. now = Inr t \<and> aware t \<and> hf_text h' = Some text \<and>
           hf_temporaries h' = hf_temporaries h \<and> json_loads J text = Inr (JObj payload) \<and>
           JObj payload = json_sorted (JObj (health_payload status t details)) \<and>
           map_of payload ''status'' = Some (JStr status) \<and>
           map_of payload ''reported_at'' = Some (JStr (isoformat t)))"
proof -
  note out = report_all_or_nothing [of "hf_text h" "hf_temporaries h" J now status details]
  have h: "health_is (hf_text h) (hf_temporaries h) h" by (simp add: health_is_def)
  obtain x h' where run: "report_health J now status details h = (x, h')" by force
  show ?thesis
  proof (cases x)
    case (Inl e)
    then show ?thesis using triple_raises [OF out h] run by (auto simp: health_is_def)
  next
    case (Inr u)
    then obtain t where t: "now = Inr t" "aware t"
      and h': "health_is (Some (json_line J (JObj (health_payload status t details)))) (hf_temporaries h) h'"
      using triple_returns [OF out h] run by blast
    have "json_loads J (json_line J (JObj (health_payload status t details))) =
        Inr (json_sorted (JObj (health_payload status t details)))"
      using health_payload_rereadable [OF assms(2), of status t] assms(1)
      by (intro json_loads_line) simp
    moreover have "map_of (health_payload status t details) ''status'' = Some (JStr status)"
      "map_of (health_payload status t details) ''reported_at'' = Some (JStr (isoformat t))"
      using assms(3,4) by (simp_all add: health_payload_def update_all_other)
    ultimately show ?thesis
      using run Inr t h' by (simp add: health_is_def map_of_sort_key map_of_json_sorted)
  qed
qed

text \<open>A report whose replacement fails, over an earlier one.\<close>

definition full_disk :: health_file where
  "full_disk =
     \<lparr>hf_text = None, hf_temporaries = 0,
      hf_faults = [None, None, None, Some (OSError ''No space left on device'')]\<rparr>"

lemma health_file_is_complete_witness:
  "case report_health sample_json (Inr epoch_2026) ''running'' [(''restarts'', JInt 2)] full_disk of
      (Inl e, h') \<Rightarrow>
        hf_text h' = hf_text full_disk \<and>
        hf_temporaries h' \<in> {hf_temporaries full_disk, Suc (hf_temporaries full_disk)}
    | (Inr u, h') \<Rightarrow>
        (\<exists>t text payload. Inr epoch_2026 = (Inr t :: exn + datetime) \<and> aware t \<and>
           hf_text h' = Some text \<and> hf_temporaries h' = hf_temporaries full_disk \<and>
           json_loads sample_json text = Inr (JObj payload) \<and>
           JObj payload = json_sorted (JObj (health_payload ''running'' t [(''restarts'', JInt 2)])) \<and>
           map_of payload ''status'' = Some (JStr ''running'') \<and>
           map_of payload ''reported_at'' = Some (JStr (isoformat t)))"
  by (rule health_file_is_complete) (simp_all add: sample_json_def)

end
