(* ===== verification/Serial_Port.thy ===== *)
theory Serial_Port
  imports Reader_Supervisor "HOL-Library.List_Lexorder" "HOL-Library.Char_ord"
begin

text \<open>
  \<open>adapters/reader/posix_serial.py\<close>: the session of a serial reader over file descriptors, and
  the enumeration of the serial devices with the output of \<open>udevadm\<close>.
\<close>

section \<open>The operating system\<close>

unbundle bit_operations_syntax

text \<open>The terminal attributes the session sets: control flags, input and output speed.\<close>

record tty_attributes =
  ty_cflag :: "32 word"
  ty_ispeed :: "32 word"
  ty_ospeed :: "32 word"

text \<open>The constants of the module \<open>termios\<close>, which depend on the platform.\<close>

record termios =
  tm_csize :: "32 word"
  tm_parenb :: "32 word"
  tm_cstopb :: "32 word"
  tm_cs8 :: "32 word"
  tm_clocal :: "32 word"
  tm_cread :: "32 word"
  tm_b9600 :: "32 word"

text \<open>
  The open descriptors, the next free one, the attributes of the terminal, the bytes waiting on
  the line, whether the line has hung up, and the outcome of the coming calls.
\<close>

record serial_os =
  so_open :: "int list"
  so_next :: int
  so_tty :: tty_attributes
  so_input :: "byte list"
  so_hung_up :: bool
  so_faults :: "exn option list"

definition serial_call :: "(serial_os, unit) prog" where
  "serial_call os =
     (let os' = os\<lparr>so_faults := tl (so_faults os)\<rparr>
      in case so_faults os of Some e # _ \<Rightarrow> (Inl e, os') | _ \<Rightarrow> (Inr (), os'))"

definition os_open :: "(serial_os, int) prog" where
  "os_open =
     sq serial_call
        (with_self (\<lambda>os.
           sq (modify (\<lambda>os. os\<lparr>so_open := so_next os # so_open os, so_next := so_next os + 1\<rparr>))
              (ret (so_next os))))"

definition os_close :: "int \<Rightarrow> (serial_os, unit) prog" where
  "os_close fd = sq serial_call (modify (so_open_update (removeAll fd)))"

text \<open>\<open>select\<close> waits for input or for the end of the line, at most 0.05 seconds.\<close>

definition os_select :: "(serial_os, bool) prog" where
  "os_select = sq serial_call (gets (\<lambda>os. so_input os \<noteq> [] \<or> so_hung_up os))"

text \<open>At the end of a line that has hung up, \<open>os.read\<close> returns no bytes.\<close>

definition os_read :: "nat \<Rightarrow> (serial_os, byte list) prog" where
  "os_read n =
     sq serial_call
        (with_self (\<lambda>os.
           sq (modify (so_input_update (drop n))) (ret (take n (so_input os)))))"

section \<open>PosixSerialSession\<close>

record posix_session =
  ps_fd :: int

definition raw_9600 :: "termios \<Rightarrow> tty_attributes \<Rightarrow> tty_attributes" where
  "raw_9600 T a =
     a\<lparr>ty_ispeed := tm_b9600 T, ty_ospeed := tm_b9600 T,
       ty_cflag := (ty_cflag a AND NOT (tm_csize T OR tm_parenb T OR tm_cstopb T))
         OR tm_cs8 T OR tm_clocal T OR tm_cread T\<rparr>"

text \<open>
  \<open>tty.setraw\<close>, \<open>tcgetattr\<close>, \<open>tcsetattr\<close> and \<open>tcflush\<close>. What \<open>setraw\<close> itself changes is the
  parameter \<open>set_raw\<close>; the flush drops the bytes that wait.
\<close>

definition configure_tty ::
  "termios \<Rightarrow> (tty_attributes \<Rightarrow> tty_attributes) \<Rightarrow> (serial_os, unit) prog" where
  "configure_tty T set_raw =
     sq serial_call
    (sq (modify (so_tty_update set_raw))
    (sq serial_call
    (with_self (\<lambda>os.
       sq serial_call
      (sq (modify (so_tty_update (\<lambda>_. raw_9600 T (so_tty os))))
      (sq serial_call (modify (so_input_update (\<lambda>_. [])))))))))"

definition open_session_port ::
  "termios \<Rightarrow> (tty_attributes \<Rightarrow> tty_attributes) \<Rightarrow> int \<Rightarrow> (serial_os, posix_session) prog" where
  "open_session_port T set_raw baud_rate =
     (if baud_rate \<noteq> 9600 then throw (ValueError ''hardware reader requires 9600 baud'')
      else
        bnd os_open (\<lambda>fd.
          sq (try_except is_exception (configure_tty T set_raw) (\<lambda>e. sq (os_close fd) (throw e)))
             (ret \<lparr>ps_fd = fd\<rparr>)))"

definition disconnected_error :: exn where
  "disconnected_error = ReaderDisconnectedError ''reader disconnected''"

definition port_read :: "(posix_session \<times> serial_os, byte list) prog" where
  "port_read =
     with_self (\<lambda>(p, _).
       if ps_fd p < 0 then throw (ReaderDisconnectedError ''reader is closed'')
       else
         try_except is_os_error
           (zoom snd apsnd
              (bnd os_select (\<lambda>ready. if \<not> ready then ret [] else os_read 64)))
           (\<lambda>_. throw disconnected_error))"

definition port_close :: "(posix_session \<times> serial_os, unit) prog" where
  "port_close =
     with_self (\<lambda>(p, _).
       if 0 \<le> ps_fd p
       then sq (zoom snd apsnd (os_close (ps_fd p))) (modify (apfst (ps_fd_update (\<lambda>_. - 1))))
       else skip)"

section \<open>What a session does with descriptors and failures\<close>

text \<open>Every operating-system failure of a read is a \<open>ReaderDisconnectedError\<close>.\<close>

lemma port_read_raises:
  assumes "port_read s = (Inl e, s')" and "is_os_error e"
  shows "is_reader_disconnected e"
  using assms
  by (auto simp: port_read_def with_self_def try_except_def throw_def disconnected_error_def
      split: prod.splits sum.splits if_splits)

text \<open>A read never returns more than 64 bytes, and loses none.\<close>

lemma port_read_returns:
  assumes "port_read (p, os) = (Inr data, (p', os'))"
  shows "length data \<le> 64 \<and> data @ so_input os' = so_input os \<and> p' = p"
  using assms
  by (auto simp: port_read_def os_select_def os_read_def serial_call_def prog_simps Let_def
      split: if_splits prod.splits sum.splits list.splits option.splits)

text \<open>
  A line that has hung up reads as silence: \<open>select\<close> reports it, \<open>os.read\<close> returns no bytes, and
  the session returns them as if nothing had arrived.
\<close>

lemma hang_up_is_silence:
  assumes "0 \<le> ps_fd p" "so_input os = []" "so_hung_up os" "so_faults os = []"
  shows "port_read (p, os) = (Inr [], (p, os))"
  using assms
  by (simp add: port_read_def os_select_def os_read_def serial_call_def prog_simps Let_def)

text \<open>
  So a supervisor whose device has gone this way never notices: every read returns no bytes, and
  it stays connected and ready.
\<close>

lemma hung_up_reader_stays_ready:
  assumes "sv_session s = Some h" "rc_read C h = port_read" "sv_env s = (p, os)"
    and "0 \<le> ps_fd p" "so_input os = []" "so_hung_up os" "so_faults os = []"
  shows "read_once C s = (Inr (Some []), s)"
proof -
  have "world (rc_read C h) s = (Inr [], s)"
    using assms hang_up_is_silence [of p os]
    by (cases s) (simp add: world_def zoom_def)
  then show ?thesis
    using assms(1) by (simp add: read_once_def record_received_def prog_simps)
qed

text \<open>
  At most \<open>k\<close> of the coming calls fail, with exceptions the \<open>except\<close> clause catches.
\<close>

definition failing :: "exn option list \<Rightarrow> exn list" where
  "failing faults = List.map_filter id faults"

definition opened_with :: "int list \<Rightarrow> nat \<Rightarrow> serial_os \<Rightarrow> bool" where
  "opened_with fds k os \<longleftrightarrow>
     so_open os = fds \<and> length (failing (so_faults os)) \<le> k \<and>
     list_all is_exception (failing (so_faults os))"

lemma failing_simps [simp]:
  "failing [] = []" "failing (None # fs) = failing fs" "failing (Some e # fs) = e # failing fs"
  by (simp_all add: failing_def List.map_filter_def)

lemma serial_call_counts:
  "triple (opened_with fds k) serial_call (\<lambda>_. opened_with fds k)
     (\<lambda>e os. is_exception e \<and> 0 < k \<and> opened_with fds (k - 1) os)"
  by (rule tripleI)
    (auto simp: serial_call_def opened_with_def Let_def split: list.splits option.splits)

lemma configure_counts:
  "triple (opened_with fds 1) (configure_tty T f) (\<lambda>_. opened_with fds 1)
     (\<lambda>e os. is_exception e \<and> opened_with fds 0 os)"
proof -
  have call: "triple (opened_with fds 1) serial_call (\<lambda>_. opened_with fds 1)
      (\<lambda>e os. is_exception e \<and> opened_with fds 0 os)"
    by (rule triple_conseq [OF serial_call_counts [of fds 1]]) simp_all
  show ?thesis
    unfolding configure_tty_def
    by (intro triple_sq [OF call] triple_sq [OF triple_modify [where Q = "\<lambda>_. opened_with fds 1"]]
        triple_with_self triple_pre [OF triple_sq [OF call]] triple_modify)
      (auto simp: opened_with_def)
qed

text \<open>
  If one call of the operating system fails while a session is opened, no descriptor stays open.
\<close>

lemma failed_open_leaks_nothing:
  assumes "so_next os \<notin> set (so_open os)"
    and "open_session_port T f b os = (Inl e, os')"
    and "length (failing (so_faults os)) \<le> 1" "list_all is_exception (failing (so_faults os))"
  shows "so_open os' = so_open os"
proof -
  let ?fds = "so_open os" and ?fd = "so_next os"
  have close: "triple (opened_with (?fd # ?fds) 0) (sq (os_close ?fd) (throw e))
      (\<lambda>_ _. True) (\<lambda>_. opened_with ?fds 0)" for e
    unfolding os_close_def sq_assoc
    by (intro triple_sq [where R = "opened_with (?fd # ?fds) 0"]
        triple_sq [OF triple_modify [where Q = "\<lambda>_. opened_with ?fds 0"]] triple_throw
        triple_conseq [OF serial_call_counts [of _ 0]])
      (use assms(1) in \<open>auto simp: opened_with_def\<close>)
  have opens: "triple (\<lambda>s. s = os) os_open (\<lambda>fd s. fd = ?fd \<and> opened_with (?fd # ?fds) 1 s)
      (\<lambda>_ s. so_open s = ?fds)"
    using assms(3,4)
    by (intro tripleI)
      (auto simp: os_open_def serial_call_def prog_simps Let_def opened_with_def
        split: list.splits option.splits if_splits)
  have "triple (\<lambda>s. s = os) (open_session_port T f b) (\<lambda>_ _. True) (\<lambda>_ s. so_open s = ?fds)"
    unfolding open_session_port_def
  proof (intro triple_if triple_throw triple_bnd [OF opens])
    fix fd
    show "triple (\<lambda>s. fd = ?fd \<and> opened_with (?fd # ?fds) 1 s)
        (sq (try_except is_exception (configure_tty T f) (\<lambda>e. sq (os_close fd) (throw e)))
           (ret \<lparr>ps_fd = fd\<rparr>)) (\<lambda>_ _. True) (\<lambda>_ s. so_open s = ?fds)"
    proof (cases "fd = ?fd")
      case True
      have "triple (opened_with (?fd # ?fds) 1)
          (try_except is_exception (configure_tty T f) (\<lambda>e. sq (os_close ?fd) (throw e)))
          (\<lambda>_ _. True) (\<lambda>_. opened_with ?fds 0)"
      proof (rule triple_try_except)
        show "triple (opened_with (?fd # ?fds) 1) (configure_tty T f) (\<lambda>_ _. True)
            (\<lambda>e s. is_exception e \<and> opened_with (?fd # ?fds) 0 s)"
          by (rule triple_conseq [OF configure_counts]) auto
      qed (auto intro!: triple_pre [OF close])
      then show ?thesis
        unfolding True
        by (intro triple_sq [where R = "\<lambda>_. True"] triple_ret)
          (auto elim!: triple_conseq simp: opened_with_def)
    qed (simp add: triple_def)
  qed simp
  from triple_raises [OF this refl assms(2)] show ?thesis .
qed

section \<open>Enumeration\<close>

text \<open>
  The properties of one device: the lines of the output that hold \<open>=\<close>, split at the first one,
  the last of equal keys winning.
\<close>

fun split_property :: "string \<Rightarrow> (string \<times> string) option" where
  "split_property [] = None"
| "split_property (c # cs) =
     (if c = CHR ''='' then Some ([], cs)
      else map_option (apfst ((#) c)) (split_property cs))"

definition udev_properties :: "string list \<Rightarrow> string \<Rightarrow> string option" where
  "udev_properties lines = map_of (rev (List.map_filter split_property lines))"

text \<open>\<open>int(text, 16) if the key is present else None\<close>.\<close>

definition hex_property :: "string option \<Rightarrow> exn + int option" where
  "hex_property x =
     (case x of
        None \<Rightarrow> Inr None
      | Some text \<Rightarrow>
          (case int16 text of
             None \<Rightarrow> Inl (ValueError ''invalid literal for int() with base 16'')
           | Some n \<Rightarrow> Inr (Some n)))"

definition device_of_properties ::
  "string \<Rightarrow> string \<Rightarrow> (string \<Rightarrow> string option) \<Rightarrow> exn + serial_device" where
  "device_of_properties resolved by_id props =
     (case hex_property (props ''ID_VENDOR_ID'') of
        Inl e \<Rightarrow> Inl e
      | Inr vid \<Rightarrow>
          (case hex_property (props ''ID_MODEL_ID'') of
             Inl e \<Rightarrow> Inl e
           | Inr pid \<Rightarrow>
               Inr \<lparr>sd_path = resolved, sd_by_id_path = Some by_id, sd_vid = vid, sd_pid = pid,
                    sd_serial_number = props ''ID_SERIAL_SHORT'',
                    sd_manufacturer = props ''ID_VENDOR'', sd_product = props ''ID_MODEL''\<rparr>))"

text \<open>
  An entry of \<open>/dev/serial/by-id\<close>: its path, whether it is a symbolic link, what it resolves to,
  and the lines \<open>udevadm\<close> printed, unless it failed or took too long.
\<close>

record by_id_entry =
  be_path :: string
  be_symlink :: bool
  be_resolved :: string
  be_output :: "string list option"

definition serial_device_from_by_id :: "by_id_entry \<Rightarrow> exn + serial_device option" where
  "serial_device_from_by_id b =
     (case be_output b of
        None \<Rightarrow> Inr None
      | Some lines \<Rightarrow>
          map_sum id Some (device_of_properties (be_resolved b) (be_path b) (udev_properties lines)))"

fun devices_of_entries :: "by_id_entry list \<Rightarrow> exn + serial_device list" where
  "devices_of_entries [] = Inr []"
| "devices_of_entries (b # bs) =
     (if \<not> be_symlink b then devices_of_entries bs
      else
        case serial_device_from_by_id b of
          Inl e \<Rightarrow> Inl e
        | Inr found \<Rightarrow>
            map_sum id (\<lambda>ds. (case found of None \<Rightarrow> [] | Some d \<Rightarrow> [d]) @ ds) (devices_of_entries bs))"

definition enumerate_serial_devices :: "by_id_entry list option \<Rightarrow> exn + serial_device list" where
  "enumerate_serial_devices directory =
     (case directory of
        None \<Rightarrow> Inr []
      | Some entries \<Rightarrow> devices_of_entries (sort_key be_path entries))"

lemma map_sum_results:
  "map_sum id f x = Inr y \<longleftrightarrow> (\<exists>z. x = Inr z \<and> y = f z)" "map_sum id f x = Inl e \<longleftrightarrow> x = Inl e"
  by (cases x; auto)+

text \<open>Enumeration fails only on an identifier that is not hexadecimal, with \<open>ValueError\<close>.\<close>

lemma devices_of_entries_raises: "devices_of_entries bs = Inl e \<Longrightarrow> is_value_error e"
  by (induction bs)
    (auto simp: serial_device_from_by_id_def device_of_properties_def hex_property_def
      map_sum_results split: if_splits option.splits sum.splits)

text \<open>Every device comes from a symbolic link, by its own path.\<close>

lemma devices_are_links:
  "devices_of_entries bs = Inr ds \<Longrightarrow> d \<in> set ds \<Longrightarrow>
   \<exists>b\<in>set bs. be_symlink b \<and> sd_by_id_path d = Some (be_path b) \<and> sd_path d = be_resolved b"
  by (induction bs arbitrary: ds)
    (auto simp: serial_device_from_by_id_def device_of_properties_def map_sum_results
      split: if_splits option.splits sum.splits)

end
