(* ===== verification/Simulation.thy ===== *)
theory Simulation
  imports Controller_Simulated Reader_Supervisor Configuration
begin

text \<open>
  \<open>simulation.py\<close>: the vertical slice that runs the controller and the reader supervisor on
  simulated hardware. Loading the schema (a JSON file that configures the validator package) is a
  parameter, as are the identifiers of \<open>uuid4\<close>.
\<close>

section \<open>SimulatedReaderSession\<close>

record sim_session =
  ss_records :: "(exn + byte list) list"
  ss_closed :: bool

definition new_session :: "(exn + byte list) list \<Rightarrow> sim_session" where
  "new_session records = \<lparr>ss_records = records, ss_closed = False\<rparr>"

definition session_read :: "(sim_session, byte list) prog" where
  "session_read =
     with_self (\<lambda>s.
       case ss_records s of
         [] \<Rightarrow> ret []
       | r # rest \<Rightarrow>
           sq (modify (ss_records_update (\<lambda>_. rest)))
              (case r of Inl e \<Rightarrow> throw e | Inr data \<Rightarrow> ret data))"

definition session_close :: "(sim_session, unit) prog" where
  "session_close = modify (ss_closed_update (\<lambda>_. True))"

section \<open>The simulated reader\<close>

text \<open>The sessions that are left to open, the opened ones, and the collected events.\<close>

record sim_reader =
  sl_sessions :: "sim_session list"
  sl_opened :: "sim_session list"
  sl_events :: "reader_event list"

definition simulated_by_id :: string where
  "simulated_by_id = ''/dev/serial/by-id/bridgewire-simulated-reader''"

definition simulated_device :: serial_device where
  "simulated_device =
     \<lparr>sd_path = ''/dev/ttySIM1'', sd_by_id_path = Some simulated_by_id, sd_vid = None, sd_pid = None,
      sd_serial_number = None, sd_manufacturer = None, sd_product = None\<rparr>"

definition simulated_identity :: reader_identity where
  "simulated_identity =
     \<lparr>ri_by_id_path = Some simulated_by_id, ri_vid = None, ri_pid = None, ri_serial_number = None,
      ri_manufacturer = None, ri_product = None\<rparr>"

definition simulated_sessions :: "sim_session list" where
  "simulated_sessions =
     [new_session [Inl (ReaderDisconnectedError ''simulated disconnect'')], new_session []]"

text \<open>\<open>sessions.pop(0)\<close>; the handle of a session is its position among the opened ones.\<close>

definition open_next :: "(sim_reader, opened) prog" where
  "open_next =
     with_self (\<lambda>r.
       case sl_sessions r of
         [] \<Rightarrow> throw (OtherError ''pop from empty list'')
       | s # rest \<Rightarrow>
           sq (modify (\<lambda>r. r\<lparr>sl_sessions := rest, sl_opened := sl_opened r @ [s]\<rparr>))
              (ret (UsableSession (length (sl_opened r)))))"

definition at_session :: "nat \<Rightarrow> (sim_session, 'a) prog \<Rightarrow> (sim_reader, 'a) prog" where
  "at_session h m =
     zoom (\<lambda>r. sl_opened r ! h) (\<lambda>f r. r\<lparr>sl_opened := (sl_opened r)[h := f (sl_opened r ! h)]\<rparr>) m"

definition simulated_calls :: "sim_reader reader_calls" where
  "simulated_calls =
     \<lparr>rc_enumerate = ret [simulated_device], rc_open = (\<lambda>_. open_next),
      rc_read = (\<lambda>h. at_session h session_read), rc_close = (\<lambda>h. at_session h session_close),
      rc_random = ret (1 / 2), rc_monotonic = None,
      rc_emit = (\<lambda>ev. world (modify (sl_events_update (\<lambda>es. es @ [ev])))),
      rc_wait = (\<lambda>_. ret True)\<rparr>"

interpretation simulated_calls: reader_callbacks simulated_calls
  by unfold_locales (simp_all add: simulated_calls_def around_rules)

definition simulated_supervisor :: "exn + sim_reader supervisor" where
  "simulated_supervisor =
     chain (check_identity simulated_identity) (\<lambda>i.
     chain (check_backoff \<lparr>bp_minimum = 1, bp_maximum = 4, bp_jitter = 0\<rparr>) (\<lambda>b.
       new_supervisor i (Some b) 3
         \<lparr>sl_sessions = simulated_sessions, sl_opened = [], sl_events = []\<rparr>))"

text \<open>\<open>connect_until_ready(1); read_once(); connect_until_ready(1)\<close>.\<close>

definition reader_scenario :: "(sim_reader supervisor, unit) prog" where
  "reader_scenario =
     bnd (connect_until_ready simulated_calls 1) (\<lambda>_.
     bnd (read_once simulated_calls) (\<lambda>_.
     bnd (connect_until_ready simulated_calls 1) (\<lambda>_. ret ())))"

section \<open>The scenario of the controller\<close>

definition simulated_controller :: "authorization_store \<Rightarrow> exn + sim_world controller" where
  "simulated_controller store =
     new_controller
       \<lparr>sw_clock = new_manual_clock, sw_uuids = 0, sw_relay = new_simulated_relay, sw_audit = [],
        sw_queue = [], sw_store = store\<rparr>
       (new_tracker default_escalation_policy) 3 23"

definition advance_clock :: "seconds \<Rightarrow> (sim_world controller, unit) prog" where
  "advance_clock s = env (zoom sw_clock sw_clock_update (manual_advance s))"

text \<open>\<open>controller.process(parse_reader_record(build_record(credential)))\<close>.\<close>

definition present :: "(nat \<Rightarrow> string) \<Rightarrow> string \<Rightarrow> (sim_world controller, unit) prog" where
  "present U cred =
     (case chain (build_record cred) parse_reader_record of
        Inl e \<Rightarrow> throw e
      | Inr record \<Rightarrow> bnd (process (sim_ports U) record) (\<lambda>_. ret ()))"

definition present_malformed :: "(nat \<Rightarrow> string) \<Rightarrow> string \<Rightarrow> (sim_world controller, unit) prog" where
  "present_malformed U why = bnd (process (sim_ports U) (MalformedRecord why)) (\<lambda>_. ret ())"

definition controller_scenario :: "(nat \<Rightarrow> string) \<Rightarrow> (sim_world controller, unit) prog" where
  "controller_scenario U =
     sq (start (sim_ports U))
    (sq (present U ''0102030405'')
    (sq (advance_clock 1)
    (sq (present U ''0102030405'')
    (sq (for_each [''1112131415'', ''A1A2A3A4A5''] (present U))
    (sq (present_malformed U ''invalid_framing'')
    (sq (advance_clock 2)
    (sq (tick (sim_ports U))
    (sq (present U ''B1B2B3B4B5'')
        (present_malformed U ''checksum_mismatch'')))))))))"

section \<open>run_vertical_slice_result\<close>

record vertical_slice_result =
  vs_events :: "(string \<times> json) list list"
  vs_audit_events :: "audit_event list"
  vs_reader_events :: "reader_event list"
  vs_relay_actions :: "relay_action list"
  vs_notification_count :: nat
  vs_final_controller_state :: string
  vs_final_relay_high :: bool
  vs_reader_state_transitions :: "string list"

definition reader_event_dict :: "reader_event \<Rightarrow> (string \<times> json) list" where
  "reader_event_dict ev =
     [(''event_type'', JStr (reader_event_value (re_event_type ev))),
      (''attempt'', JInt (re_attempt ev)),
      (''backoff_seconds'', (case re_backoff_seconds ev of None \<Rightarrow> JNull | Some v \<Rightarrow> JFloat v))]"

definition slice_result ::
  "sim_world controller \<Rightarrow> sim_reader supervisor \<Rightarrow> vertical_slice_result" where
  "slice_result c s =
     (let w = ct_env c; reader_events = sl_events (sv_env s)
      in \<lparr>vs_events = map as_dict (sw_audit w) @ map reader_event_dict reader_events,
          vs_audit_events = sw_audit w, vs_reader_events = reader_events,
          vs_relay_actions = sr_actions (sw_relay w),
          vs_notification_count = length (sw_queue w),
          vs_final_controller_state = controller_state_value (ct_state c),
          vs_final_relay_high = sr_is_high (sw_relay w),
          vs_reader_state_transitions =
            [''connecting'', ''ready'', ''degraded'', ''connecting'', ''ready'']\<rparr>)"

text \<open>
  The run once the authorizations are loaded. The controller and the supervisor share nothing, so
  the two are run on their own states in the order of the source.
\<close>

definition slice_of_store :: "(nat \<Rightarrow> string) \<Rightarrow> authorization_store \<Rightarrow> exn + vertical_slice_result"
  where
  "slice_of_store U store =
     chain (simulated_controller store) (\<lambda>c0.
       case controller_scenario U c0 of
         (Inl e, _) \<Rightarrow> Inl e
       | (Inr _, c1) \<Rightarrow>
           chain simulated_supervisor (\<lambda>s0.
             case reader_scenario s0 of
               (Inl e, _) \<Rightarrow> Inl e
             | (Inr _, s1) \<Rightarrow>
                 (case shutdown (sim_ports U) c1 of
                    (Inl e, _) \<Rightarrow> Inl e
                  | (Inr _, c2) \<Rightarrow> Inr (slice_result c2 s1))))"

definition run_vertical_slice_result ::
  "(path \<Rightarrow> (file_system, validator) prog) \<Rightarrow> (nat \<Rightarrow> string) \<Rightarrow> path \<Rightarrow> path \<Rightarrow>
   (file_system, vertical_slice_result) prog" where
  "run_vertical_slice_result load_schema U schema_path authorization_path =
     bnd (load_schema schema_path) (\<lambda>validate fs.
       case reload validate authorization_path (new_store, fs) of
         (Inl e, (_, fs')) \<Rightarrow> (Inl e, fs')
       | (Inr _, (store, fs')) \<Rightarrow> (slice_of_store U store, fs'))"

definition run_vertical_slice ::
  "(path \<Rightarrow> (file_system, validator) prog) \<Rightarrow> (nat \<Rightarrow> string) \<Rightarrow> path \<Rightarrow> path \<Rightarrow>
   (file_system, (string \<times> json) list list) prog" where
  "run_vertical_slice load_schema U schema_path authorization_path =
     bnd (run_vertical_slice_result load_schema U schema_path authorization_path) (\<lambda>r.
       ret (vs_events r))"

section \<open>Without failures no call raises\<close>

text \<open>A running controller on a relay that is set up, with no failure injected.\<close>

definition flawless :: "sim_world controller \<Rightarrow> bool" where
  "flawless c \<longleftrightarrow>
     ct_state c \<in> {READY, RELEASED} \<and> sim_agrees c \<and> sim_aware c \<and>
     (let r = sw_relay (ct_env c)
      in sr_channel r \<noteq> None \<and> \<not> sr_fail_next_high r \<and> \<not> sr_fail_next_low r \<and>
         \<not> sr_fail_next_cleanup r)"

lemmas flawless_defs = flawless_def sim_agrees_def agrees_def sim_aware_def sim_high_def

definition completes :: "(sim_world controller, 'a) prog \<Rightarrow> bool" where
  "completes m \<longleftrightarrow> triple flawless m (\<lambda>_. flawless) (\<lambda>_ _. False)"

lemma completes_audit:
  "private_correlation corr \<Longrightarrow> completes (audit (sim_ports U) et sev corr)"
  unfolding completes_def triple_def
  by (auto simp: run_simps flawless_defs cong: run_congs)

lemma completes_suspicious: "completes (record_suspicious_activity (sim_ports U))"
  unfolding completes_def triple_def
proof (intro allI impI)
  fix c :: "sim_world controller" assume c: "flawless c"
  obtain level tr where r: "record_suspicious (mc_elapsed (sw_clock (ct_env c))) (ct_escalation c) = (level, tr)"
    by (metis prod.exhaust)
  show "case record_suspicious_activity (sim_ports U) c of (Inl e, t) \<Rightarrow> False | (Inr x, t) \<Rightarrow> flawless t"
    using c by (cases level) (auto simp: run_simps r flawless_defs cong: run_congs)
qed

lemma completes_release: "completes (release (sim_ports U))"
  unfolding completes_def triple_def
  by (auto simp: run_simps flawless_defs cong: run_congs)

lemma completes_tick: "completes (tick (sim_ports U))"
  unfolding completes_def triple_def
  by (auto simp: run_simps flawless_defs cong: run_congs split: option.splits)

lemma completes_advance: "0 \<le> t \<Longrightarrow> completes (advance_clock t)"
  unfolding completes_def triple_def advance_clock_def
  by (auto simp: run_simps manual_advance_def [THEN fun_cong] add_seconds_def flawless_defs
      cong: run_congs)

lemma completes_ret: "completes (ret x)"
  by (simp add: completes_def triple_ret)

lemma skip_ret: "skip = ret ()"
  by (simp add: fun_eq_iff skip_def ret_def)

lemma completes_bnd: "completes m \<Longrightarrow> (\<And>x. completes (f x)) \<Longrightarrow> completes (bnd m f)"
  unfolding completes_def by (rule triple_bnd)

lemma completes_sq: "completes m \<Longrightarrow> completes n \<Longrightarrow> completes (sq m n)"
  unfolding completes_def by (rule triple_sq)

lemma completes_with_self: "(\<And>s. flawless s \<Longrightarrow> completes (f s)) \<Longrightarrow> completes (with_self f)"
  by (simp add: completes_def triple_def with_self_def)

lemma completes_if: "(b \<Longrightarrow> completes m) \<Longrightarrow> (\<not> b \<Longrightarrow> completes n) \<Longrightarrow> completes (if b then m else n)"
  by simp

lemma completes_reads:
  "completes (env (p_classify (sim_ports U) cred))" "completes (env (p_now (sim_ports U)))"
  "completes (modify (ct_last_processed_update f))"
  unfolding completes_def triple_def
  by (auto simp: run_simps flawless_defs cong: run_congs)

lemmas completes_rules =
  completes_ret completes_bnd completes_sq completes_with_self completes_if completes_reads
  completes_audit completes_suspicious completes_release completes_tick

lemma completes_process: "completes (process (sim_ports U) r)"
proof -
  have "safe_reason why \<in> set allowed_reasons" for why
    by (auto simp: safe_reason_def audited_reasons_def allowed_reasons_def)
  then have known: "private_correlation (reason_of (safe_reason why))" for why
    by (simp add: private_reason_of)
  have parsed: "completes (process_parsed (sim_ports U) cred)" for cred
    unfolding process_parsed_def respond_def
    by (intro completes_rules; simp add: private_correlation_run)
  show ?thesis
    unfolding process_def
  proof (rule completes_with_self)
    fix c :: "sim_world controller" assume "flawless c"
    then have "ct_state c = READY \<or> ct_state c = RELEASED" by (simp add: flawless_def)
    then show "completes (if ct_state c \<noteq> READY \<and> ct_state c \<noteq> RELEASED
        then throw (RuntimeError ''controller is not accepting credentials'')
        else case r of ParsedRecord x \<Rightarrow> process_parsed (sim_ports U) x
          | MalformedRecord why \<Rightarrow>
              sq (audit (sim_ports U) MALFORMED_RECORD SevWarning (reason_of (safe_reason why)))
                (sq (record_suspicious_activity (sim_ports U)) (ret (AccessResult None NOT_REQUESTED))))"
      by (cases r) (auto intro!: completes_rules parsed known)
  qed
qed

lemma scenario_records:
  "chain (build_record ''0102030405'') parse_reader_record = Inr (ParsedRecord ''0102030405'')"
  "chain (build_record ''1112131415'') parse_reader_record = Inr (ParsedRecord ''1112131415'')"
  "chain (build_record ''A1A2A3A4A5'') parse_reader_record = Inr (ParsedRecord ''A1A2A3A4A5'')"
  "chain (build_record ''B1B2B3B4B5'') parse_reader_record = Inr (ParsedRecord ''B1B2B3B4B5'')"
  by code_simp+

lemma completes_present:
  "completes (present U ''0102030405'')" "completes (present U ''1112131415'')"
  "completes (present U ''A1A2A3A4A5'')" "completes (present U ''B1B2B3B4B5'')"
  by (simp_all add: present_def scenario_records completes_rules completes_process)

lemma shutdown_flawless:
  "flawless c \<Longrightarrow> \<exists>c'. shutdown (sim_ports U) c = (Inr (), c') \<and> ct_state c' = STOPPED \<and>
    \<not> sim_high c'"
  by (auto simp: run_simps flawless_defs cong: run_congs)

lemma start_flawless:
  assumes "simulated_controller store = Inr c"
  shows "\<exists>c'. start (sim_ports U) c = (Inr (), c') \<and> flawless c'"
  using assms
  by (auto simp: simulated_controller_def new_controller_def run_simps flawless_defs cong: run_congs)

lemma completesD: "completes m \<Longrightarrow> flawless c \<Longrightarrow> \<exists>x c'. m c = (Inr x, c') \<and> flawless c'"
proof -
  assume m: "completes m" "flawless c"
  obtain r c' where run: "m c = (r, c')" by fastforce
  show ?thesis
  proof (cases r)
    case (Inl e)
    with m run show ?thesis using triple_raises unfolding completes_def by fast
  next
    case (Inr x)
    with m run show ?thesis using triple_returns unfolding completes_def by fast
  qed
qed

lemma sq_run: "m s = (Inr u, t) \<Longrightarrow> sq m n s = n t"
  by (simp add: sq_def bnd_def)

lemma controller_scenario_completes:
  assumes "simulated_controller store = Inr c"
  shows "\<exists>c'. controller_scenario U c = (Inr (), c') \<and> flawless c'"
proof -
  obtain c1 where c1: "start (sim_ports U) c = (Inr (), c1)" "flawless c1"
    using start_flawless [OF assms] by blast
  have "completes (sq (present U ''0102030405'') (sq (advance_clock 1) (sq (present U ''0102030405'')
      (sq (for_each [''1112131415'', ''A1A2A3A4A5''] (present U))
      (sq (present_malformed U ''invalid_framing'') (sq (advance_clock 2) (sq (tick (sim_ports U))
      (sq (present U ''B1B2B3B4B5'') (present_malformed U ''checksum_mismatch'')))))))))"
    unfolding present_malformed_def for_each.simps skip_ret
    by (intro completes_rules completes_present completes_process completes_advance)
      simp_all
  from completesD [OF this c1(2)] show ?thesis
    unfolding controller_scenario_def sq_run [where m = "start (sim_ports U)", OF c1(1)] by auto
qed

text \<open>The reader connects, loses its session and reconnects.\<close>

lemma reader_scenario_evaluated:
  "(case simulated_supervisor of
      Inl e \<Rightarrow> False
    | Inr s \<Rightarrow>
        (case reader_scenario s of
           (Inl e, s') \<Rightarrow> False
         | (Inr u, s') \<Rightarrow>
             now_connected s' \<and>
             map re_event_type (sl_events (sv_env s')) =
               [Connecting, Connected, Disconnected, Connecting, Recovered]))"
  by code_simp

lemma reader_scenario_completes:
  "\<exists>s s'. simulated_supervisor = Inr s \<and> reader_scenario s = (Inr (), s') \<and> now_connected s' \<and>
    map re_event_type (sl_events (sv_env s')) =
      [Connecting, Connected, Disconnected, Connecting, Recovered]"
proof (cases simulated_supervisor)
  case (Inr s)
  obtain r s' where run: "reader_scenario s = (r, s')" by fastforce
  have "case r of Inl e \<Rightarrow> False
    | Inr u \<Rightarrow> now_connected s' \<and> map re_event_type (sl_events (sv_env s')) =
        [Connecting, Connected, Disconnected, Connecting, Recovered]"
    using reader_scenario_evaluated unfolding Inr run sum.case prod.case by (cases r) simp_all
  with Inr run show ?thesis by (cases r) auto
next
  case (Inl e)
  show ?thesis using reader_scenario_evaluated unfolding Inl sum.case by simp
qed

lemma slice_completes:
  "\<exists>r. slice_of_store U store = Inr r \<and> vs_final_controller_state r = ''stopped'' \<and>
    \<not> vs_final_relay_high r \<and>
    map re_event_type (vs_reader_events r) =
      [Connecting, Connected, Disconnected, Connecting, Recovered]"
proof -
  obtain c0 where c0: "simulated_controller store = Inr c0"
    by (simp add: simulated_controller_def new_controller_def)
  then obtain c1 where c1: "controller_scenario U c0 = (Inr (), c1)" "flawless c1"
    using controller_scenario_completes by blast
  obtain c2 where c2: "shutdown (sim_ports U) c1 = (Inr (), c2)" "ct_state c2 = STOPPED"
      "\<not> sim_high c2"
    using shutdown_flawless [OF c1(2)] by blast
  obtain s s' where s: "simulated_supervisor = Inr s" "reader_scenario s = (Inr (), s')"
      "map re_event_type (sl_events (sv_env s')) =
        [Connecting, Connected, Disconnected, Connecting, Recovered]"
    using reader_scenario_completes by (elim exE conjE) (rule that; assumption)
  have "slice_of_store U store = Inr (slice_result c2 s')"
    unfolding slice_of_store_def chain_def c0 c1(1) c2(1) s(1,2) sum.case prod.case by (rule refl)
  then show ?thesis using c2 s(3) by (simp add: slice_result_def Let_def sim_high_def)
qed

text \<open>
  C11. A vertical slice whose schema and authorization file load always ends, whatever the file
  says: no call of the scenario raises, the controller stops with the relay low, and the reader
  reconnects after its disconnection.
\<close>

theorem vertical_slice_ends_secured:
  assumes "load_schema sp fs = (Inr validate, fs1)"
    and "reload validate ap (new_store, fs1) = (Inr u, (store, fs2))"
  shows "\<exists>r. run_vertical_slice_result load_schema U sp ap fs = (Inr r, fs2) \<and>
    vs_final_controller_state r = ''stopped'' \<and> \<not> vs_final_relay_high r \<and>
    map re_event_type (vs_reader_events r) =
      [Connecting, Connected, Disconnected, Connecting, Recovered]"
proof -
  obtain r where r: "slice_of_store U store = Inr r" "vs_final_controller_state r = ''stopped''"
      "\<not> vs_final_relay_high r"
      "map re_event_type (vs_reader_events r) =
        [Connecting, Connected, Disconnected, Connecting, Recovered]"
    using slice_completes [of U store] by (elim exE conjE) (rule that; assumption)
  then show ?thesis using assms by (simp add: run_vertical_slice_result_def bnd_def)
qed

definition loaded_sample :: "authorization_store \<times> file_system" where
  "loaded_sample = final (reload schema_validator (''/etc'', ''candidate.csv'') (new_store, sample_files))"

lemma sample_loads:
  "reload schema_validator (''/etc'', ''candidate.csv'') (new_store, sample_files) =
    (Inr (), (fst loaded_sample, snd loaded_sample))"
proof -
  have "result (reload schema_validator (''/etc'', ''candidate.csv'') (new_store, sample_files)) = Inr ()"
    by code_simp
  then show ?thesis by (simp add: loaded_sample_def result_def final_def prod_eq_iff)
qed

lemma vertical_slice_ends_secured_witness:
  "\<exists>r. run_vertical_slice_result (\<lambda>_. ret schema_validator) decimal (''/schemas'', ''schema.json'')
      (''/etc'', ''candidate.csv'') sample_files = (Inr r, snd loaded_sample) \<and>
    vs_final_controller_state r = ''stopped'' \<and> \<not> vs_final_relay_high r \<and>
    map re_event_type (vs_reader_events r) =
      [Connecting, Connected, Disconnected, Connecting, Recovered]"
  by (rule vertical_slice_ends_secured [OF _ sample_loads]) (simp add: ret_def)

end
