(* ===== verification/Command_Line.thy ===== *)
theory Command_Line
  imports Simulation
begin

text \<open>
  \<open>cli.py\<close>: the commands, after \<open>argparse\<close> has parsed the arguments, over the functions of the
  other modules and the outside world: the terminal, the signals and the event that a signal sets.
\<close>

record simulation_arguments =
  sa_config :: string
  sa_schema :: string
  sa_authorization :: string

definition default_simulation_arguments :: simulation_arguments where
  "default_simulation_arguments =
     \<lparr>sa_config = ''configs/simulation.toml'',
      sa_schema = ''schemas/authorization-file/schema.json'',
      sa_authorization = ''configs/simulation-authorization.csv''\<rparr>"

definition default_interval :: pyfloat where
  "default_interval = Finite 60"

record hardware_arguments =
  ha_config :: string
  ha_schema :: string
  ha_authorization :: string
  ha_audit :: string
  ha_notifications :: string
  ha_health :: string

datatype command =
    Version
  | Simulate simulation_arguments
  | ServeSimulated simulation_arguments pyfloat
  | ServeHardware hardware_arguments

record 'w cli_calls =
  cl_print_version :: "('w, unit) prog"
  cl_print_event :: "json_object \<Rightarrow> ('w, unit) prog"
  cl_load_configuration :: "string \<Rightarrow> ('w, unit) prog"
  cl_run_slice :: "string \<Rightarrow> string \<Rightarrow> ('w, json_object list) prog"
  cl_run_hardware :: "hardware_arguments \<Rightarrow> ('w, int) prog"
  cl_install_signals :: "('w, unit) prog"
  cl_stopped :: "('w, bool) prog"
  cl_wait :: "pyfloat \<Rightarrow> ('w, unit) prog"

text \<open>One line of sorted JSON for every event of a vertical slice.\<close>

definition print_simulation :: "'w cli_calls \<Rightarrow> simulation_arguments \<Rightarrow> ('w, unit) prog" where
  "print_simulation C args =
     bnd (cl_run_slice C (sa_schema args) (sa_authorization args)) (\<lambda>events.
       for_each events (\<lambda>ev. cl_print_event C (sorted_object ev)))"

text \<open>The loop of \<open>serve-simulated\<close>, for at most \<open>n\<close> rounds; whether a signal has ended it.\<close>

fun serve_rounds ::
  "nat \<Rightarrow> 'w cli_calls \<Rightarrow> simulation_arguments \<Rightarrow> pyfloat \<Rightarrow> ('w, bool) prog" where
  "serve_rounds 0 C args interval = cl_stopped C"
| "serve_rounds (Suc n) C args interval =
     bnd (cl_stopped C) (\<lambda>stopped.
       if stopped then ret True
       else sq (print_simulation C args)
           (sq (cl_wait C interval) (serve_rounds n C args interval)))"

text \<open>The exit status of \<open>main\<close>; \<open>None\<close> when the service still runs after \<open>n\<close> rounds.\<close>

definition main :: "nat \<Rightarrow> 'w cli_calls \<Rightarrow> command \<Rightarrow> ('w, int option) prog" where
  "main n C command =
     (case command of
        Version \<Rightarrow> sq (cl_print_version C) (ret (Some 0))
      | ServeHardware args \<Rightarrow> bnd (cl_run_hardware C args) (\<lambda>status. ret (Some status))
      | Simulate args \<Rightarrow>
          sq (cl_load_configuration C (sa_config args))
         (sq (print_simulation C args) (ret (Some 0)))
      | ServeSimulated args interval \<Rightarrow>
          sq (cl_load_configuration C (sa_config args))
             (if float_le interval (Finite 0) then throw SystemExit
              else
                sq (cl_install_signals C)
                   (bnd (serve_rounds n C args interval) (\<lambda>stopped.
                      ret (if stopped then Some 0 else None)))))"

section \<open>What the commands do\<close>

text \<open>Every simulation is behind a configuration that loads.\<close>

lemma bad_configuration_runs_nothing:
  assumes "cl_load_configuration C (sa_config args) w = (Inl e, w')"
  shows "main n C (Simulate args) w = (Inl e, w')"
    and "main n C (ServeSimulated args interval) w = (Inl e, w')"
  using assms by (simp_all add: main_def sq_def bnd_def)

text \<open>An interval that is not positive ends the command before the first round; \<open>nan\<close> passes.\<close>

lemma interval_is_checked_first:
  assumes "cl_load_configuration C (sa_config args) w = (Inr u, w')" "float_le interval (Finite 0)"
  shows "main n C (ServeSimulated args interval) w = (Inl SystemExit, w')"
  using assms by (simp add: main_def sq_def bnd_def throw_def)

lemma nan_interval_passes: "\<not> float_le NaN (Finite 0)"
  by (simp add: float_le_def)

text \<open>A signal that has arrived ends the service with status 0, without another round.\<close>

lemma stopped_service_ends:
  "cl_stopped C w = (Inr True, w') \<Longrightarrow> serve_rounds n C args interval w = (Inr True, w')"
  by (cases n) (simp_all add: bnd_def ret_def)

text \<open>More fuel does not change the outcome of a service that has been ended.\<close>

lemma serve_rounds_more:
  "serve_rounds n C args interval w = (Inr True, w') \<Longrightarrow>
   (\<forall>v v' b. cl_stopped C v = (Inr b, v') \<longrightarrow> v' = v) \<Longrightarrow>
   serve_rounds (n + k) C args interval w = (Inr True, w')"
proof (induction n arbitrary: w)
  case 0
  then show ?case by (simp add: stopped_service_ends)
next
  case (Suc n)
  then show ?case
    by (auto simp: bnd_def sq_def ret_def split: prod.splits sum.splits if_splits)
qed

end
