(* ===== verification/Spec2Isabelle.thy ===== *)
theory Spec2Isabelle
  imports Reader_Stream Controller_Simulated Waiting Service_Runs
    Query_Pages Http_Api Health_File Serial_Port Command_Line
begin

text \<open>
  A model of Bridgewire, the physical access controller under \<open>src/src/bridgewire\<close>. A reader sends
  records over a serial line; a credential that the authorization file allows raises a relay for a
  configured time; everything is audited. An optional read-only HTTP API shows status and audit
  events.

  \<^bold>\<open>How the program is put together.\<close> \<open>hardware_service.py\<close> builds everything and owns the clean-up.
  It runs \<open>application/runtime.py\<close>, whose loop asks \<open>ReaderSupervisor\<close> (\<open>reader.py\<close>) for bytes,
  feeds them to \<open>ReaderRecordStream\<close>, and hands the records to \<open>AccessService\<close>
  (\<open>application/access_service.py\<close>) and so to \<open>AccessController\<close> (\<open>controller.py\<close>), which uses the
  relay (\<open>gpio.py\<close>), the authorization store (\<open>authorization.py\<close>), the escalation tracker
  (\<open>escalation.py\<close>) and the audit sink and notification queue (\<open>audit.py\<close>). After every step the
  runtime publishes a snapshot (\<open>application/status_service.py\<close>), which
  \<open>application/query_service.py\<close> and \<open>adapters/http\<close> show. The API server lives in a thread of its
  own.

  \<^bold>\<open>How the code is written down.\<close> A class is a record, an enumeration a datatype with the same
  constructors. A method is a \<open>prog\<close> of theory \<open>Prelude\<close>: a function from the state of the object to
  an exception or a value, with the state left behind in both cases, so that an exception never
  hides what happened before it. \<open>try/except\<close>, \<open>try/finally\<close> and \<open>for\<close> are combinators. Operating
  system calls, drivers and databases fail according to schedules in the state, or are parameters
  that may raise anything. Seconds are rational numbers; bytes are 8-bit words; floats with \<open>nan\<close>
  and infinities appear where a configuration can bring them in (\<open>pyfloat\<close>).

  \<^bold>\<open>The theories.\<close>

  \<^item> \<open>Prelude\<close>: exceptions, the monad, Hoare triples, kept and preserved parts of a state, the
    rules for symbolic runs, and the staged replacement of a file. \<open>Wall_Clock\<close>: \<open>datetime\<close> and \<open>ManualClock\<close> (\<open>clock.py\<close>).

  \<^item> \<open>Reader_Records\<close>, \<open>Reader_Stream\<close> (\<open>reader.py\<close>): the frame parser, the credential parser and the
    incremental stream. The parser accepts exactly the frames \<open>build_record\<close> writes, no single
    corrupted byte passes, and the stream equals a reference tokenizer, however the bytes are cut.

  \<^item> \<open>Escalation\<close> (\<open>escalation.py\<close>): the tracker computes a level defined over the whole history.

  \<^item> \<open>Audit_Events\<close>, \<open>Audit_Storage\<close> (\<open>audit.py\<close>): events and their privacy checks, both sinks and the
    queue in memory.

  \<^item> \<open>Json_Text\<close>, \<open>Json_Laws\<close>: \<open>json.dumps\<close>, and the scanner of \<open>json.loads\<close>, on texts. What was
    written is read back, and an object cut short anywhere is refused.

  \<^item> \<open>Notification_Queue\<close> (\<open>audit.py\<close>): the durable queue as the text of its file, and the notification
    worker. No delivery loses an event; a queue whose calls succeed drains; an enqueue that fails may
    leave a torn line, and a torn line stops the queue.

  \<^item> \<open>Relay_Gpio\<close> (\<open>gpio.py\<close>): the locale \<open>relay_contract\<close>, the simulated relay, and the Raspberry Pi
    relay over a driver that obeys \<open>gpio_contract\<close>.

  \<^item> \<open>Authorization_File\<close>, \<open>Authorization_Store\<close> (\<open>authorization.py\<close>): reading a file, reloading,
    classification, and the staged installation, which is atomic whatever call fails. A file in the
    documented form, with or without hyphens in its keys, is read to its entries. A reload takes a
    whole file or none; where the code is not atomic, for a modification time outside the calendar,
    it raises with the new records in force. The schema validator package is a parameter under the
    locale \<open>row_validator\<close>.

  \<^item> \<open>Ports\<close> (\<open>interfaces.py\<close>), \<open>Access_Controller\<close>, \<open>Controller_Invariants\<close> (\<open>controller.py\<close>): the
    controller over any ports, and its laws inside the locale \<open>controller_ports\<close>.
    \<open>Controller_Worlds\<close> interprets that locale on the simulated and on the hardware world;
    \<open>Controller_Properties\<close> states the properties of the hardware: only an audited authorization
    raises the relay, state, deadline and pin agree from the construction on as long as calls
    return, releases are not prolonged, faults stay locked, transitions follow the state machine.
    \<open>Release_Deadlines\<close> has the end of a release, over a clock that does not go back
    (\<open>clocked_ports\<close>) and a relay that stays usable (\<open>releasing_ports\<close>): deadlines are near, and
    on the hardware the tick after the deadline locks the door. \<open>Controller_Simulated\<close> has the
    same for the simulated world, where relay and clock never raise.

  \<^item> \<open>Reader_Discovery\<close>, \<open>Reader_Supervisor\<close>, \<open>Reader_Outage\<close> (\<open>reader.py\<close>): device matching, backoff,
    the connection life cycle over callbacks that obey the locale \<open>reader_callbacks\<close>, and the exact
    events and delays of an outage.

  \<^item> \<open>Serial_Port\<close> (\<open>adapters/reader/posix_serial.py\<close>): the session over file descriptors and the
    enumeration of devices.

  \<^item> \<open>Access_Service\<close>, \<open>Status_Service\<close> (\<open>application\<close>): submissions and their results, which tell
    the truth about state, pin and deadline; publication and the status read model, with the times
    that leave the calendar as errors.

  \<^item> \<open>Runtime\<close>, \<open>Runtime_Hardware\<close>, \<open>Runtime_Invariants\<close>, \<open>Runtime_Properties\<close>, \<open>Waiting\<close>
    (\<open>application/runtime.py\<close>): the runtime over the host it is given, on the hardware world. Over
    whole runs every unlock has its audit row, every row keeps to a closed vocabulary
    (\<open>public_event\<close>), and shutdown attempts everything.

  \<^item> \<open>Configuration\<close> (\<open>configuration.py\<close>): all checks of a parsed TOML document.

  \<^item> \<open>Uvicorn_Server\<close> (\<open>adapters/http/uvicorn_server.py\<close>): every locked block is a function, and a step
    relation interleaves them with the server thread.

  \<^item> \<open>Hardware_Service\<close>, \<open>Service_Security\<close>, \<open>Service_Runs\<close> (\<open>hardware_service.py\<close>): the composition
    root; however it ends, the pin is low if the driver accepts LOW, except for a pin left high by
    an earlier process in a run that ends before the relay is set up.

  \<^item> \<open>Base64\<close>, \<open>Timestamps\<close>, \<open>Iso_Times\<close>, \<open>Query_Service\<close>, \<open>Query_Pages\<close>
    (\<open>application/query_service.py\<close>, \<open>adapters/persistence/sqlite_audit_reader.py\<close>): cursors, queries and
    pages. \<open>fromisoformat\<close> reads every text that \<open>isoformat\<close> writes, every cursor that is written is
    read again, the texts that SQL compares sort like the times of the calendar, and following the
    cursors lists every matching event once, the newest first.

  \<^item> \<open>Http_Api\<close> (\<open>adapters/http/api.py\<close>, \<open>models.py\<close>), \<open>Health_File\<close> (\<open>adapters/health\<close>), \<open>Simulation\<close>
    (\<open>simulation.py\<close>), \<open>Command_Line\<close> (\<open>cli.py\<close>): endpoints and response models; the health file,
    which always holds a complete report; the vertical slice, which always ends with the relay low;
    the commands.

  \<^item> This theory joins the runtime and the query service: what has raised the relay can be listed.

  \<^bold>\<open>Bounds.\<close> The loops of the runtime (\<open>run_rounds\<close>), of the command line (\<open>serve_rounds\<close>) and of a
  client that follows cursors (\<open>follow_pages\<close>) run on fuel: the first two never end by themselves,
  so their properties hold for every number of rounds; for the third, more pages than rows are
  enough. \<open>EventWaiter.wait\<close> ends by itself, which is proved. \<open>connect_until_ready\<close> is bounded by its
  argument. \<open>json.loads\<close> takes as many rounds as there are characters, and nests at most \<open>jp_depth\<close>
  deep, where Python raises \<open>RecursionError\<close>.

  \<^bold>\<open>What is relied on.\<close> The GPIO driver puts the pin where a call that returns has asked for it and
  moves it nowhere else (\<open>gpio_contract\<close>); the validator package accepts exactly the rows that
  satisfy the schema (\<open>row_validator\<close>); SQLite transactions are atomic; the recursion limit admits
  a list or an object with flat values. Each of these has an instance in the theories.

  \<^bold>\<open>Not modelled.\<close> The parsing of TOML, JSON schema and command lines; FastAPI routing, pydantic
  conversion and the uvicorn package beyond \<open>started\<close>, \<open>should_exit\<close> and the end of \<open>run\<close>; logging;
  the SQL engine (queries are a filter, a sort and a limit over rows, and the text of a correlation
  is kept as the object it was written from); characters beyond code point
  255; rounding of float arithmetic; SQLite's file format; of \<open>json\<close> the texts of floats and \<open>str\<close> of
  compound values (\<open>json_platform\<close>), of \<open>fromisoformat\<close> the texts \<open>isoformat\<close> does not write
  (\<open>rd_other_iso\<close>), both of which are arguments. \<open>SystemClock\<close> and \<open>uuid4\<close> are schedules. Signal handlers only set the
  stop flag and are steps of the surrounding world.
\<close>

section \<open>Every unlock can be seen\<close>

text \<open>The query for the authorized credentials, by pages of the given size.\<close>

definition authorized_query :: "int \<Rightarrow> event_query" where
  "authorized_query limit =
     \<lparr>eq_limit = limit, eq_cursor = None, eq_before = None, eq_after = None,
      eq_event_type = Some CREDENTIAL_AUTHORIZED, eq_severity = None\<rparr>"

definition authorized_filter :: event_filter where
  "authorized_filter =
     \<lparr>ef_cursor = None, ef_before = None, ef_after = None,
      ef_event_type = Some CREDENTIAL_AUTHORIZED, ef_severity = None\<rparr>"

lemma authorized_query_checked:
  "0 < limit \<Longrightarrow> limit \<le> qs_maximum_event_page_size q \<Longrightarrow>
   checked_query R q (authorized_query limit) = Inr authorized_filter"
  by (simp add: checked_query_def authorized_query_def authorized_filter_def normalize_time_def
      chain_def)

lemma authorized_selected [simp]:
  "event_selected authorized_filter ev \<longleftrightarrow> ev_event_type ev = CREDENTIAL_AUTHORIZED"
  by (simp add: event_selected_def authorized_filter_def)

lemma authorized_row_event:
  "ev_event_type (row_event (row_of_event ev)) = ev_event_type ev"
  by (simp add: row_event_def row_of_event_def event_type_of_value)

text \<open>A readable log stays readable over a run whose rows are dated.\<close>

lemma log_stays_readable:
  assumes "hardware D pin E"
    and "(runtime_step (hw_host D E U fuel) (hw_outside pin))\<^sup>*\<^sup>* s t"
    and "readable_log (rt_rows s)" and "\<forall>row\<in>set (rt_rows t). dated_row row"
  shows "readable_log (rt_rows t)"
proof -
  have "\<forall>row\<in>set (rt_rows t). typed_row row"
    using hardware.runtime_rows_private [OF assms(1,2), of typed_row]
      typed_row_of_event [OF public_event_ok] assms(3)
    by (simp add: readable_log_def readable_row_def)
  then show ?thesis
    using hardware.runtime_rows_distinct [OF assms(1,2)] assms(3,4)
    by (simp add: readable_log_def readable_row_def)
qed

text \<open>
  C3. The runtime and the query service together: if over a run of the runtime the relay pin has
  been raised, a client that pages through the authorized credentials finds one that the database
  did not hold before the run. The rows of the run are dated, that is, the clock stayed within the
  years that have a text and the identifiers were not empty.
\<close>

theorem every_unlock_can_be_listed:
  assumes "hardware D pin E"
    and "(runtime_step (hw_host D E U fuel) (hw_outside pin))\<^sup>*\<^sup>* s t"
    and "rpi_ok (hw_relay (world_of s))" and "\<not> rt_pin pin s" and "rt_pin pin t"
    and "readable_log (rt_rows s)" and "\<forall>row\<in>set (rt_rows t). dated_row row"
    and "0 < limit" and "limit \<le> qs_maximum_event_page_size q" and "0 < jp_depth (rd_json R)"
  shows "\<exists>n pages ev db. db = \<lparr>sq_rows = rt_rows t, sq_faults = []\<rparr> \<and>
    follow_pages n R q (authorized_query limit) db = (Inr pages, db) \<and>
    ev \<in> set (concat (map pg_items pages)) \<and> ev_event_type ev = CREDENTIAL_AUTHORIZED \<and>
    ev_event_id ev \<notin> row_event_id ` set (rt_rows s)"
proof -
  obtain new ev where new: "rt_rows t = rt_rows s @ new" "row_of_event ev \<in> set new"
      "ev_event_type ev = CREDENTIAL_AUTHORIZED"
    using hardware.runtime_unlock_audited [OF assms(1-4)] assms(5) by blast
  have log: "readable_log (rt_rows t)" by (rule log_stays_readable [OF assms(1,2,6,7)])
  define db where "db = \<lparr>sq_rows = rt_rows t, sq_faults = []\<rparr>"
  have "\<exists>pages evs. follow_pages (Suc (length (rt_rows t))) R q (authorized_query limit) db =
        (Inr pages, db) \<and> evs = concat (map pg_items pages) \<and>
      set evs = Set.filter (event_selected authorized_filter) (row_event ` set (rt_rows t)) \<and>
      distinct (map ev_event_id evs) \<and>
      sorted_wrt (\<lambda>a b. instant_us (ev_timestamp b) \<le> instant_us (ev_timestamp a)) evs \<and>
      list_all (\<lambda>p. length (pg_items p) = nat (eq_limit (authorized_query limit))) (butlast pages)"
    using pages_listed [of db R q "authorized_query limit" authorized_filter
        "Suc (length (rt_rows t))"] authorized_query_checked [OF assms(8,9)] log assms(10)
    by (simp add: db_def authorized_query_def)
  then obtain pages where pages:
      "follow_pages (Suc (length (rt_rows t))) R q (authorized_query limit) db = (Inr pages, db)"
      "set (concat (map pg_items pages)) =
        Set.filter (event_selected authorized_filter) (row_event ` set (rt_rows t))"
    by blast
  let ?ev = "row_event (row_of_event ev)"
  have "?ev \<in> set (concat (map pg_items pages))"
    unfolding pages(2) using new by (auto simp: authorized_row_event)
  moreover have "ev_event_id ?ev \<notin> row_event_id ` set (rt_rows s)"
    using log new(1) imageI [OF new(2), of row_event_id] by (auto simp: readable_log_def row_event_def)
  ultimately show ?thesis
    using pages(1) new(3) authorized_row_event [of ev] db_def
    by (intro exI [of _ "Suc (length (rt_rows t))"] exI [of _ pages] exI [of _ ?ev]
        exI [of _ db] conjI) simp_all
qed

text \<open>The sample run of the runtime unlocks once; all of its rows have one time.\<close>

definition sample_time :: datetime where
  "sample_time = DateTime 63902908800000000 (Some 0)"

lemma sample_unlocked_rows:
  "rt_rows sample_unlocked =
    [row_of_event
       \<lparr>ev_event_type = READER_RECORD_RECEIVED, ev_severity = reader_event_severity RecordReceived,
        ev_timestamp = sample_time, ev_correlation = [], ev_reader_state = Some ''ready'',
        ev_controller_state = Some ''ready'', ev_delivery_status = None, ev_event_id = ''0''\<rparr>,
     row_of_event
       \<lparr>ev_event_type = CREDENTIAL_AUTHORIZED, ev_severity = SevInfo, ev_timestamp = sample_time,
        ev_correlation = [], ev_reader_state = None, ev_controller_state = Some ''ready'',
        ev_delivery_status = None, ev_event_id = ''1''\<rparr>,
     row_of_event
       \<lparr>ev_event_type = RELAY_ASSERTED, ev_severity = SevInfo, ev_timestamp = sample_time,
        ev_correlation = [(''duration_seconds'', JFloat 3)], ev_reader_state = None,
        ev_controller_state = Some ''released'', ev_delivery_status = None, ev_event_id = ''2''\<rparr>]"
proof -
  have "[char_of (48 :: nat)] = ''0''" "[char_of (49 :: nat)] = ''1''" "[char_of (50 :: nat)] = ''2''"
    by (simp_all add: digit_chars)
  then show ?thesis
    by (simp add: sample_unlocked_def rt_rows_def world_of_def sample_time_def run_simps
        cong: run_congs)
qed

lemma sample_unlocked_dated: "\<forall>row\<in>set (rt_rows sample_unlocked). dated_row row"
proof -
  have "in_calendar sample_time"
    by (simp add: sample_time_def in_calendar_def calendar_end_def us_per_day_def us_per_second_def)
  then show ?thesis by (simp add: sample_unlocked_rows dated_row_of_event)
qed

lemma every_unlock_can_be_listed_witness:
  "\<exists>n pages ev db. db = \<lparr>sq_rows = rt_rows sample_unlocked, sq_faults = []\<rparr> \<and>
    follow_pages n sample_readers sample_service (authorized_query 50) db = (Inr pages, db) \<and>
    ev \<in> set (concat (map pg_items pages)) \<and> ev_event_type ev = CREDENTIAL_AUTHORIZED \<and>
    ev_event_id ev \<notin> row_event_id ` set (rt_rows sample_runtime)"
proof (rule every_unlock_can_be_listed [OF recording_hardware.hardware_axioms sample_run_reachable
      sample_runtime_ok(1,2) sample_unlocked_pin _ sample_unlocked_dated])
  show "readable_log (rt_rows sample_runtime)"
    by (simp add: sample_runtime_ok(3) readable_log_def)
qed (simp_all add: sample_service_def sample_readers_def sample_json_def)

end
